(* ===== verification/Prelude.thy ===== *)
theory Prelude
  imports Main "HOL-Library.Word" "HOL-Library.Monad_Syntax"
begin

unbundle bit_operations_syntax

text \<open>
  Shared vocabulary of the development: the machine integers of the Rust sources, byte
  strings, \<open>Result\<close> and the \<open>?\<close> operator, panics, UTF-8 validity as the standard library
  checks it, and the generic list lemmas the components use.

  \<^item> \<open>u8\<close>, \<open>u32\<close>, \<open>u64\<close>, \<open>i32\<close>, \<open>i64\<close> are words of their width (signed types are read with
    \<open>sint\<close>); \<open>usize\<close> is 64 bits wide, as on the 64-bit targets the crate is built for.
  \<^item> \<open>Vec<u8>\<close>, \<open>&[u8]\<close>, \<open>BytesMut\<close>, \<open>String\<close> and \<open>&str\<close> are lists of bytes; that a \<open>String\<close> holds
    valid UTF-8 is the predicate \<open>utf8_valid\<close>, and \<open>String::from_utf8\<close> checks it.
  \<^item> A computation that can panic has type \<open>'a panicking\<close>: \<open>None\<close> is the panic. The \<open>do\<close>
    notation of \<open>Monad_Syntax\<close> sequences such computations; \<open>Option::expect\<close> is the identity.
\<close>

type_synonym u8 = "8 word"
type_synonym u32 = "32 word"
type_synonym u64 = "64 word"
type_synonym i32 = "32 word"
type_synonym i64 = "64 word"
type_synonym usize = "64 word"
type_synonym bytes = "u8 list"

text \<open>Facts that unfold the operations of a component, and facts that describe its parsers.\<close>

named_theorems opsimps \<open>defining equations of the operations of the model\<close>
named_theorems nomsimps \<open>what the combinators of the parser library compute\<close>

subsection \<open>Result, panics\<close>

text \<open>Rust's \<open>Result\<close>.\<close>

datatype ('a, 'e) result = Ok 'a | Err 'e

text \<open>The \<open>?\<close> operator: continue with the value, return the error at once.\<close>

fun and_then :: "('a, 'e) result \<Rightarrow> ('a \<Rightarrow> ('b, 'e) result) \<Rightarrow> ('b, 'e) result" where
  "and_then (Ok x) f = f x"
| "and_then (Err e) f = Err e"

lemma and_then_eq_Ok_iff:
  "and_then r f = Ok y \<longleftrightarrow> (\<exists>x. r = Ok x \<and> f x = Ok y)"
  by (cases r) auto

lemma and_then_eq_Err_iff:
  "and_then r f = Err e \<longleftrightarrow> r = Err e \<or> (\<exists>x. r = Ok x \<and> f x = Err e)"
  by (cases r) auto

type_synonym 'a panicking = "'a option"

abbreviation panic :: "'a panicking" where "panic \<equiv> None"

text \<open>\<open>Option::expect\<close> and \<open>Option::unwrap\<close>: panic on \<open>None\<close>.\<close>

definition expect :: "'a option \<Rightarrow> 'a panicking" where
  [simp]: "expect x = x"

text \<open>Indexing \<open>v[i]\<close> of a vector: panics out of range.\<close>

definition vec_index :: "'a list \<Rightarrow> nat \<Rightarrow> 'a panicking" where
  "vec_index v i = (if i < length v then Some (v ! i) else panic)"

lemma vec_index_0 [simp]: "vec_index (x # xs) 0 = Some x" "vec_index [] 0 = None"
  by (simp_all add: vec_index_def)

text \<open>\<open>Vec::pop\<close>: the last element and the rest, \<open>None\<close> when empty.\<close>

definition vec_pop :: "'a list \<Rightarrow> ('a list \<times> 'a) option" where
  "vec_pop v = (if v = [] then None else Some (butlast v, last v))"

lemma vec_pop_simps [simp]:
  "vec_pop [] = None"
  "vec_pop (xs @ [x]) = Some (xs, x)"
  "vec_pop [a] = Some ([], a)"
  "vec_pop [a, b] = Some ([a], b)"
  "vec_pop [a, b, c] = Some ([a, b], c)"
  by (simp_all add: vec_pop_def)

text \<open>\<open>Iterator::next\<close> of a vector's \<open>into_iter()\<close>.\<close>

definition iter_next :: "'a list \<Rightarrow> ('a list \<times> 'a) option" where
  "iter_next v = (case v of [] \<Rightarrow> None | x # xs \<Rightarrow> Some (xs, x))"

lemma iter_next_simps [simp]:
  "iter_next [] = None"
  "iter_next (x # xs) = Some (xs, x)"
  by (simp_all add: iter_next_def)

text \<open>A map over a vector whose function can panic.\<close>

fun map_panicking :: "('a \<Rightarrow> 'b panicking) \<Rightarrow> 'a list \<Rightarrow> 'b list panicking" where
  "map_panicking f [] = Some []"
| "map_panicking f (x # xs) = do { y \<leftarrow> f x; ys \<leftarrow> map_panicking f xs; Some (y # ys) }"

lemma map_panicking_Some:
  "(\<And>x. x \<in> set xs \<Longrightarrow> f x = Some (g x)) \<Longrightarrow> map_panicking f xs = Some (map g xs)"
  by (induction xs) auto

lemma map_panicking_map: "map_panicking f (map g xs) = map_panicking (\<lambda>x. f (g x)) xs"
  by (induction xs) auto

subsection \<open>Byte strings\<close>

text \<open>ASCII literals as byte strings.\<close>

definition str :: "string \<Rightarrow> bytes" where
  "str s = map of_char s"

lemma str_simps [simp]:
  "str [] = []"
  "str (c # cs) = of_char c # str cs"
  by (simp_all add: str_def)

subsection \<open>UTF-8\<close>

text \<open>
  Well-formed UTF-8, as \<open>std::str::from_utf8\<close> checks it: the byte ranges of the Unicode
  standard, table 3-7 (no surrogates, no overlong forms, nothing above U+10FFFF).
\<close>

definition in_range :: "u8 \<Rightarrow> u8 \<Rightarrow> u8 \<Rightarrow> bool" where
  "in_range lo hi b \<longleftrightarrow> lo \<le> b \<and> b \<le> hi"

text \<open>The number of bytes a lead byte announces, 0 for a byte that cannot start a character.\<close>

definition utf8_width :: "u8 \<Rightarrow> nat" where
  "utf8_width b =
     (if b < 0x80 then 1
      else if in_range 0xC2 0xDF b then 2
      else if in_range 0xE0 0xEF b then 3
      else if in_range 0xF0 0xF4 b then 4
      else 0)"

text \<open>The bytes after the lead byte: the range of the first of them depends on the lead byte.\<close>

definition utf8_second_ok :: "u8 \<Rightarrow> u8 \<Rightarrow> bool" where
  "utf8_second_ok b c \<longleftrightarrow>
     in_range (if b = 0xE0 then 0xA0 else if b = 0xF0 then 0x90 else 0x80)
              (if b = 0xED then 0x9F else if b = 0xF4 then 0x8F else 0xBF) c"

definition utf8_tail_ok :: "u8 \<Rightarrow> bytes \<Rightarrow> bool" where
  "utf8_tail_ok b cs \<longleftrightarrow>
     (case cs of [] \<Rightarrow> True
      | c # ds \<Rightarrow> utf8_second_ok b c \<and> list_all (in_range 0x80 0xBF) ds)"

function utf8_valid :: "bytes \<Rightarrow> bool" where
  "utf8_valid [] = True"
| "utf8_valid (b # r) =
     (let w = utf8_width b in
        w \<noteq> 0 \<and> w - 1 \<le> length r \<and> utf8_tail_ok b (take (w - 1) r) \<and> utf8_valid (drop (w - 1) r))"
  by pat_completeness auto
termination
  by (relation "measure length") auto

declare utf8_valid.simps(2) [simp del]

text \<open>\<open>String::from_utf8\<close> and \<open>str::from_utf8\<close> (\<open>None\<close> is the \<open>Err\<close> case).\<close>

definition from_utf8 :: "bytes \<Rightarrow> bytes option" where
  "from_utf8 v = (if utf8_valid v then Some v else None)"

definition is_ascii :: "u8 \<Rightarrow> bool" where
  "is_ascii b \<longleftrightarrow> b < 0x80"

text \<open>\<open>str::is_char_boundary\<close> and the slice \<open>&s[..i]\<close>, which panics off a boundary.\<close>

definition is_char_boundary :: "bytes \<Rightarrow> nat \<Rightarrow> bool" where
  "is_char_boundary s i \<longleftrightarrow> i = 0 \<or> i = length s \<or> (i < length s \<and> \<not> in_range 0x80 0xBF (s ! i))"

definition str_slice_to :: "bytes \<Rightarrow> nat \<Rightarrow> bytes panicking" where
  "str_slice_to s i = (if is_char_boundary s i then Some (take i s) else panic)"

definition str_slice_from :: "bytes \<Rightarrow> nat \<Rightarrow> bytes panicking" where
  "str_slice_from s i = (if is_char_boundary s i then Some (drop i s) else panic)"

lemma utf8_valid_ascii_Cons [simp]: "is_ascii b \<Longrightarrow> utf8_valid (b # r) = utf8_valid r"
  by (simp add: is_ascii_def utf8_width_def utf8_tail_ok_def utf8_valid.simps)

lemma utf8_valid_ascii: "list_all is_ascii s \<Longrightarrow> utf8_valid s"
  by (induction s) auto

lemma utf8_valid_append: "utf8_valid a \<Longrightarrow> utf8_valid (a @ b) = utf8_valid b"
proof (induction a rule: utf8_valid.induct)
  case 1
  show ?case by simp
next
  case (2 c r)
  then have "utf8_width c \<noteq> 0" "utf8_width c - 1 \<le> length r"
    "utf8_tail_ok c (take (utf8_width c - 1) r)" "utf8_valid (drop (utf8_width c - 1) r)"
    by (simp_all add: utf8_valid.simps Let_def)
  with "2.IH" show ?case
    by (simp add: utf8_valid.simps Let_def)
qed

lemma in_range_not_ascii: "in_range 0x80 0xBF c \<Longrightarrow> \<not> is_ascii c"
  by (auto simp: in_range_def is_ascii_def)

subsection \<open>Big-endian numbers\<close>

text \<open>
  \<open>be_uint\<close> and \<open>be_sint\<close> read a byte string as an unsigned and as a two's complement number;
  \<open>be_bytes k n\<close> are the \<open>k\<close> low bytes of \<open>n\<close>; \<open>nbytes n\<close> is how many bytes \<open>n\<close> needs.
\<close>

fun be_uint :: "bytes \<Rightarrow> nat" where
  "be_uint [] = 0"
| "be_uint (b # bs) = unat b * 256 ^ length bs + be_uint bs"

definition be_sint :: "bytes \<Rightarrow> int" where
  "be_sint bs = (if bs \<noteq> [] \<and> 128 \<le> hd bs then int (be_uint bs) - 256 ^ length bs else int (be_uint bs))"

fun be_bytes :: "nat \<Rightarrow> nat \<Rightarrow> bytes" where
  "be_bytes 0 n = []"
| "be_bytes (Suc k) n = of_nat (n div 256 ^ k) # be_bytes k n"

fun nbytes :: "nat \<Rightarrow> nat" where
  "nbytes n = (if n < 256 then 1 else Suc (nbytes (n div 256)))"

declare nbytes.simps [simp del]

lemma length_be_bytes [simp]: "length (be_bytes k n) = k"
  by (induction k) auto

lemma be_uint_bound: "be_uint bs < 256 ^ length bs"
proof (induction bs)
  case Nil
  show ?case by simp
next
  case (Cons b bs)
  have "unat b < 256"
    using unsigned_less [where 'a = nat, of b] by simp
  then have "unat b * 256 ^ length bs + 256 ^ length bs \<le> (256 :: nat) ^ length (b # bs)"
    using mult_le_mono1 [of "Suc (unat b)" 256 "256 ^ length bs"] by simp
  then have "unat b * 256 ^ length bs + be_uint bs < (256 :: nat) ^ length (b # bs)"
    using Cons.IH by linarith
  then show ?case by (simp only: be_uint.simps)
qed

lemma be_uint_be_bytes: "be_uint (be_bytes k n) = n mod 256 ^ k"
proof (induction k)
  case 0
  show ?case by simp
next
  case (Suc k)
  have "unat (of_nat (n div 256 ^ k) :: u8) = n div 256 ^ k mod 256"
    by (simp add: unat_of_nat)
  moreover have "n mod (256 ^ k * 256) = 256 ^ k * (n div 256 ^ k mod 256) + n mod 256 ^ k"
    by (rule mod_mult2_eq)
  ultimately show ?case
    using Suc.IH by (simp add: mult.commute)
qed

lemma be_uint_append: "be_uint (a @ b) = be_uint a * 256 ^ length b + be_uint b"
  by (induction a) (simp_all add: power_add algebra_simps)

lemma nbytes_pos [simp]: "0 < nbytes n"
  by (subst nbytes.simps) simp

lemma nbytes_upper: "n < 256 ^ nbytes n"
proof (induction n rule: nbytes.induct)
  case (1 n)
  show ?case
  proof (cases "n < 256")
    case True
    then show ?thesis by (simp add: nbytes.simps [of n])
  next
    case False
    with "1.IH" have "n div 256 < 256 ^ nbytes (n div 256)" by simp
    then have "n < 256 ^ nbytes (n div 256) * 256"
      by (simp add: div_less_iff_less_mult)
    with False show ?thesis by (simp add: nbytes.simps [of n])
  qed
qed

lemma nbytes_lower: "n \<noteq> 0 \<Longrightarrow> 256 ^ (nbytes n - 1) \<le> n"
proof (induction n rule: nbytes.induct)
  case (1 n)
  show ?case
  proof (cases "n < 256")
    case True
    with "1.prems" show ?thesis by (simp add: nbytes.simps [of n])
  next
    case False
    then have "n div 256 \<noteq> 0" by simp
    with False "1.IH" have "256 ^ (nbytes (n div 256) - 1) \<le> n div 256" by simp
    then have "256 ^ (nbytes (n div 256) - 1) * 256 \<le> n"
      by (simp add: less_eq_div_iff_mult_less_eq)
    moreover have "(256::nat) ^ (nbytes (n div 256) - 1) * 256 = 256 ^ nbytes (n div 256)"
      using nbytes_pos [of "n div 256"] by (cases "nbytes (n div 256)") simp_all
    ultimately show ?thesis using False by (simp add: nbytes.simps [of n])
  qed
qed

lemma nbytes_le: "n < 256 ^ k \<Longrightarrow> 0 < k \<Longrightarrow> nbytes n \<le> k"
proof (rule ccontr)
  assume n: "n < 256 ^ k" and k: "0 < k" and "\<not> nbytes n \<le> k"
  then have "k \<le> nbytes n - 1" by simp
  then have "(256::nat) ^ k \<le> 256 ^ (nbytes n - 1)"
    by (simp add: power_increasing)
  moreover have "n \<noteq> 0"
  proof
    assume "n = 0"
    then have "nbytes n = 1" by (simp add: nbytes.simps)
    with \<open>\<not> nbytes n \<le> k\<close> k show False by simp
  qed
  ultimately show False using nbytes_lower [of n] n by linarith
qed

lemma hd_be_bytes: "0 < k \<Longrightarrow> n < 256 ^ k \<Longrightarrow> unat (hd (be_bytes k n)) = n div 256 ^ (k - 1)"
proof (cases k)
  case (Suc j)
  assume "0 < k" and "n < 256 ^ k"
  with Suc have "n div 256 ^ j < 256"
    by (simp add: div_less_iff_less_mult mult.commute)
  with Suc show ?thesis by (simp add: unat_of_nat)
qed simp

lemma drop_be_bytes: "k \<le> m \<Longrightarrow> drop (m - k) (be_bytes m n) = be_bytes k n"
proof (induction m)
  case (Suc m)
  show ?case
  proof (cases "k = Suc m")
    case False
    with Suc.prems have "k \<le> m" by simp
    with Suc.IH show ?thesis by (simp add: Suc_diff_le)
  qed simp
qed simp

lemma be_bytes_map: "be_bytes k n = map (\<lambda>j. of_nat (n div 256 ^ j)) (rev [0..<k])"
  by (induction k) simp_all

lemma be_sint_be_bytes:
  assumes "0 < k" and "n < 2 ^ (8 * k - 1)"
  shows "be_sint (be_bytes k n) = int n"
proof -
  have p: "(2::nat) ^ (8 * k - 1) = 128 * 256 ^ (k - 1)"
    using assms(1) by (cases k) (simp_all add: power_mult power_add)
  then have lt: "n < 128 * 256 ^ (k - 1)" using assms(2) by simp
  moreover have "(256 :: nat) ^ k = 256 * 256 ^ (k - 1)"
    using assms(1) by (cases k) simp_all
  ultimately have n: "n < 256 ^ k" by linarith
  have "unat (hd (be_bytes k n)) < 128"
    using hd_be_bytes [OF assms(1) n] lt by (simp add: div_less_iff_less_mult)
  then have "\<not> 128 \<le> hd (be_bytes k n)"
    by (simp add: word_le_nat_alt)
  then show ?thesis
    using n by (simp add: be_sint_def be_uint_be_bytes)
qed

lemma int_be_uint_bound: "int (be_uint bs) < 256 ^ length bs"
  using be_uint_bound [of bs] by (metis of_nat_less_iff of_nat_numeral of_nat_power)

lemma be_sint_bounds:
  "bs \<noteq> [] \<Longrightarrow> be_sint bs < 2 ^ (8 * length bs - 1)"
proof -
  assume ne: "bs \<noteq> []"
  then obtain b r where bs: "bs = b # r" by (cases bs) auto
  have ub: "int (be_uint r) < 256 ^ length r"
    by (rule int_be_uint_bound)
  have p: "(2::int) ^ (8 * length bs - 1) = 128 * 256 ^ length r"
    using bs by (simp add: power_mult power_add)
  show ?thesis
  proof (cases "128 \<le> b")
    case True
    then have "be_sint bs < 0"
      using bs int_be_uint_bound [of bs] by (simp only: be_sint_def) simp
    then show ?thesis by (rule less_trans) simp
  next
    case False
    then have "unat b \<le> 127" by (simp add: word_le_nat_alt)
    then have "int (unat b) \<le> 127" by linarith
    then have "int (unat b) * 256 ^ length r \<le> 127 * 256 ^ length r"
      by (simp add: mult_right_mono)
    moreover have "be_sint bs = int (unat b) * 256 ^ length r + int (be_uint r)"
      using False bs by (simp add: be_sint_def)
    ultimately show ?thesis
      unfolding p using ub by linarith
  qed
qed

end
