(* ===== verification/Lber_Structure.thy ===== *)
theory Lber_Structure
  imports Prelude
begin

text \<open>
  The data model of the \<open>lber\<close> crate: tag classes and universal types (\<open>common.rs\<close>,
  \<open>universal.rs\<close>), the serializable form \<open>StructureTag\<close> with its accessors (\<open>structure.rs\<close>), the
  ASN.1 types \<open>Tag\<close> and their conversion \<open>into_structure\<close> (\<open>structures/*.rs\<close>), in particular the
  BER form of integers. The lemmas say when the integer encoding is the two's complement form
  of its value and that it is the shortest one.
\<close>

unbundle bit_operations_syntax

subsection \<open>common.rs, universal.rs\<close>

datatype TagStructure = Primitive | Constructed

fun TagStructure_from_u8 :: "u8 \<Rightarrow> TagStructure option" where
  "TagStructure_from_u8 n = (if n = 0 then Some Primitive else if n = 1 then Some Constructed else None)"

fun TagStructure_u8 :: "TagStructure \<Rightarrow> u8" where
  "TagStructure_u8 Primitive = 0"
| "TagStructure_u8 Constructed = 1"

datatype TagClass = Universal | Application | Context | Private

fun TagClass_from_u8 :: "u8 \<Rightarrow> TagClass option" where
  "TagClass_from_u8 n =
     (if n = 0 then Some Universal else if n = 1 then Some Application
      else if n = 2 then Some Context else if n = 3 then Some Private else None)"

fun TagClass_u8 :: "TagClass \<Rightarrow> u8" where
  "TagClass_u8 Universal = 0"
| "TagClass_u8 Application = 1"
| "TagClass_u8 Context = 2"
| "TagClass_u8 Private = 3"

datatype Types =
    Types_Eoc | Types_Boolean | Types_Integer | Types_BitString | Types_OctetString | Types_Null
  | Types_ObjectIdentifier | Types_ObjectDescriptor | Types_External | Types_Real
  | Types_Enumerated | Types_EmbeddedPdv | Types_Utf8String | Types_RelativeOid
  | Types_Sequence | Types_Set | Types_NumericString | Types_PrintableString | Types_T61String
  | Types_VideotexString | Types_Ia5String | Types_UtcTime | Types_GeneralizedTime
  | Types_GraphicString | Types_VisibleString | Types_GeneralString | Types_UniversalString
  | Types_CharacterString | Types_BmpString

fun Types_u64 :: "Types \<Rightarrow> u64" where
  "Types_u64 Types_Eoc = 0"
| "Types_u64 Types_Boolean = 1"
| "Types_u64 Types_Integer = 2"
| "Types_u64 Types_BitString = 3"
| "Types_u64 Types_OctetString = 4"
| "Types_u64 Types_Null = 5"
| "Types_u64 Types_ObjectIdentifier = 6"
| "Types_u64 Types_ObjectDescriptor = 7"
| "Types_u64 Types_External = 8"
| "Types_u64 Types_Real = 9"
| "Types_u64 Types_Enumerated = 10"
| "Types_u64 Types_EmbeddedPdv = 11"
| "Types_u64 Types_Utf8String = 12"
| "Types_u64 Types_RelativeOid = 13"
| "Types_u64 Types_Sequence = 16"
| "Types_u64 Types_Set = 17"
| "Types_u64 Types_NumericString = 18"
| "Types_u64 Types_PrintableString = 19"
| "Types_u64 Types_T61String = 20"
| "Types_u64 Types_VideotexString = 21"
| "Types_u64 Types_Ia5String = 22"
| "Types_u64 Types_UtcTime = 23"
| "Types_u64 Types_GeneralizedTime = 24"
| "Types_u64 Types_GraphicString = 25"
| "Types_u64 Types_VisibleString = 26"
| "Types_u64 Types_GeneralString = 27"
| "Types_u64 Types_UniversalString = 28"
| "Types_u64 Types_CharacterString = 29"
| "Types_u64 Types_BmpString = 30"

lemma TagClass_roundtrip [simp]: "TagClass_from_u8 (TagClass_u8 c) = Some c"
  by (cases c) simp_all

lemma TagStructure_roundtrip [simp]: "TagStructure_from_u8 (TagStructure_u8 s) = Some s"
  by (cases s) simp_all

subsection \<open>structure.rs\<close>

datatype StructureTag = StructureTag (st_class: TagClass) (st_id: u64) (st_payload: PL)
and PL = PL_P bytes | PL_C "StructureTag list"

definition match_class :: "StructureTag \<Rightarrow> TagClass \<Rightarrow> StructureTag option" where
  "match_class self c = (if st_class self = c then Some self else None)"

definition match_id :: "StructureTag \<Rightarrow> u64 \<Rightarrow> StructureTag option" where
  "match_id self i = (if st_id self = i then Some self else None)"

definition expect_constructed :: "StructureTag \<Rightarrow> StructureTag list option" where
  "expect_constructed self = (case st_payload self of PL_P _ \<Rightarrow> None | PL_C i \<Rightarrow> Some i)"

definition expect_primitive :: "StructureTag \<Rightarrow> bytes option" where
  "expect_primitive self = (case st_payload self of PL_P i \<Rightarrow> Some i | PL_C _ \<Rightarrow> None)"

lemma structure_simps [simp]:
  "match_class (StructureTag c i p) c' = (if c = c' then Some (StructureTag c i p) else None)"
  "match_id (StructureTag c i p) i' = (if i = i' then Some (StructureTag c i p) else None)"
  "expect_constructed (StructureTag c i (PL_C ts)) = Some ts"
  "expect_constructed (StructureTag c i (PL_P v)) = None"
  "expect_primitive (StructureTag c i (PL_P v)) = Some v"
  "expect_primitive (StructureTag c i (PL_C ts)) = None"
  by (simp_all add: match_class_def match_id_def expect_constructed_def expect_primitive_def)

subsection \<open>structures/*.rs: the ASN.1 types\<close>

text \<open>
  Each constructor carries the fields of its struct: \<open>id\<close>, \<open>class\<close>, \<open>inner\<close>. The functions named
  after the structs build one with \<open>..Default::default()\<close>.
\<close>

datatype Tag =
    Tag_Integer u64 TagClass i64
  | Tag_Enumerated u64 TagClass i64
  | Tag_Sequence u64 TagClass "Tag list"
  | Tag_Set u64 TagClass "Tag list"
  | Tag_OctetString u64 TagClass bytes
  | Tag_Boolean u64 TagClass bool
  | Tag_Null u64 TagClass
  | Tag_ExplicitTag u64 TagClass Tag
  | Tag_StructureTag StructureTag

definition Integer :: "i64 \<Rightarrow> Tag" where
  [opsimps]: "Integer v = Tag_Integer (Types_u64 Types_Integer) Universal v"

definition Enumerated :: "i64 \<Rightarrow> Tag" where
  [opsimps]: "Enumerated v = Tag_Enumerated (Types_u64 Types_Enumerated) Universal v"

definition Sequence :: "Tag list \<Rightarrow> Tag" where
  [opsimps]: "Sequence v = Tag_Sequence (Types_u64 Types_Sequence) Universal v"

definition TagSet :: "Tag list \<Rightarrow> Tag" where
  [opsimps]: "TagSet v = Tag_Set (Types_u64 Types_Set) Universal v"

definition OctetString :: "bytes \<Rightarrow> Tag" where
  [opsimps]: "OctetString v = Tag_OctetString (Types_u64 Types_OctetString) Universal v"

definition Boolean :: "bool \<Rightarrow> Tag" where
  [opsimps]: "Boolean v = Tag_Boolean (Types_u64 Types_Boolean) Universal v"

definition Null :: "Tag" where
  [opsimps]: "Null = Tag_Null (Types_u64 Types_Null) Universal"

text \<open>\<open>i64::to_be_bytes\<close> and \<open>usize::to_be_bytes\<close> on 64 bits.\<close>

definition to_be_bytes :: "64 word \<Rightarrow> bytes" where
  "to_be_bytes w = map (\<lambda>k. ucast (drop_bit (8 * k) w)) [7, 6, 5, 4, 3, 2, 1, 0]"

text \<open>The counting loop of \<open>i_e_into_structure\<close>: \<open>>>\<close> on \<open>i64\<close> is the arithmetic shift.\<close>

function i_e_count :: "i64 \<Rightarrow> u8 \<Rightarrow> u8" where
  "i_e_count rem count =
     (let count' = count + 1; rem' = signed_drop_bit 8 rem
      in if 0 <s rem' then i_e_count rem' count' else count')"
  by pat_completeness auto
termination
proof (relation "measure (\<lambda>(rem, count). nat (sint rem))")
  show "wf (measure (\<lambda>(rem :: i64, count :: u8). nat (sint rem)))"
    by simp
next
  fix rem :: i64 and count x :: u8 and y :: i64
  assume y: "y = signed_drop_bit 8 rem" and pos: "0 <s y"
  have d: "0 < d div 256 \<Longrightarrow> 0 < d \<and> d div 256 < d" for d :: int
    using div_mult_mod_eq [of d 256] pos_mod_sign [of 256 d] by linarith
  have e: "sint y = sint rem div 256"
    by (simp add: y sint_signed_drop_bit_eq drop_bit_eq_div)
  from pos have "0 < sint y"
    by (simp add: word_sless_alt)
  then have "nat (sint y) < nat (sint rem)"
    using d [of "sint rem"] e by linarith
  then show "((y, x), rem, count) \<in> measure (\<lambda>(rem, count). nat (sint rem))"
    by simp
qed

declare i_e_count.simps [simp del]

definition i_e_octets :: "i64 \<Rightarrow> bytes" where
  "i_e_octets inner =
     (let count = i_e_count (if 0 \<le>s inner then inner else - inner) 0;
          count = (if 0 <s inner \<and> signed_drop_bit (unat (8 * count - 1)) inner = 1
                   then count + 1 else count);
          count = unat count;
          repr = to_be_bytes inner;
          (out, count) = (if length repr < count then ([0], count - 1) else ([], count))
      in out @ drop (length repr - count) repr)"

definition i_e_into_structure :: "u64 \<Rightarrow> TagClass \<Rightarrow> i64 \<Rightarrow> StructureTag" where
  "i_e_into_structure i c inner = StructureTag c i (PL_P (i_e_octets inner))"

definition Boolean_into :: "u64 \<Rightarrow> TagClass \<Rightarrow> bool \<Rightarrow> StructureTag" where
  [simp]: "Boolean_into i c inner = StructureTag c i (PL_P (if inner then [0xFF] else [0x00]))"

definition Null_into :: "u64 \<Rightarrow> TagClass \<Rightarrow> StructureTag" where
  [simp]: "Null_into i c = StructureTag c i (PL_P [])"

definition OctetString_into :: "u64 \<Rightarrow> TagClass \<Rightarrow> bytes \<Rightarrow> StructureTag" where
  [simp]: "OctetString_into i c inner = StructureTag c i (PL_P inner)"

definition ExplicitTag_into :: "('t \<Rightarrow> StructureTag) \<Rightarrow> u64 \<Rightarrow> TagClass \<Rightarrow> 't \<Rightarrow> StructureTag" where
  [simp]: "ExplicitTag_into conv i c inner = StructureTag c i (PL_C [conv inner])"

text \<open>
  \<open>SequenceOf<T>\<close> and \<open>SetOf<T>\<close> for any element type with a conversion; \<open>Sequence\<close> and \<open>Set\<close> are
  the same over \<open>Tag\<close>.
\<close>

definition SequenceOf_into :: "('t \<Rightarrow> StructureTag) \<Rightarrow> u64 \<Rightarrow> TagClass \<Rightarrow> 't list \<Rightarrow> StructureTag" where
  [simp]: "SequenceOf_into conv i c inner = StructureTag c i (PL_C (map conv inner))"

definition SetOf_into :: "('t \<Rightarrow> StructureTag) \<Rightarrow> u64 \<Rightarrow> TagClass \<Rightarrow> 't list \<Rightarrow> StructureTag" where
  [simp]: "SetOf_into conv i c inner = StructureTag c i (PL_C (map conv inner))"

lemma structure_of_cong [fundef_cong]:
  "inner = inner' \<Longrightarrow> (\<And>t. t \<in> set inner' \<Longrightarrow> conv t = conv' t) \<Longrightarrow>
     SequenceOf_into conv i c inner = SequenceOf_into conv' i c inner'"
  "inner = inner' \<Longrightarrow> (\<And>t. t \<in> set inner' \<Longrightarrow> conv t = conv' t) \<Longrightarrow>
     SetOf_into conv i c inner = SetOf_into conv' i c inner'"
  "x = x' \<Longrightarrow> conv x' = conv' x' \<Longrightarrow> ExplicitTag_into conv i c x = ExplicitTag_into conv' i c x'"
  by simp_all

fun into_structure :: "Tag \<Rightarrow> StructureTag" where
  "into_structure (Tag_Integer i c inner) = i_e_into_structure i c inner"
| "into_structure (Tag_Enumerated i c inner) = i_e_into_structure i c inner"
| "into_structure (Tag_Sequence i c inner) = SequenceOf_into into_structure i c inner"
| "into_structure (Tag_Set i c inner) = SetOf_into into_structure i c inner"
| "into_structure (Tag_OctetString i c inner) = OctetString_into i c inner"
| "into_structure (Tag_Boolean i c inner) = Boolean_into i c inner"
| "into_structure (Tag_Null i c) = Null_into i c"
| "into_structure (Tag_ExplicitTag i c inner) = ExplicitTag_into into_structure i c inner"
| "into_structure (Tag_StructureTag s) = s"

subsection \<open>The octets of an integer\<close>

lemma ucast_drop_bit: "(ucast (drop_bit (8 * j) (w :: 64 word)) :: u8) = of_nat (unat w div 256 ^ j)"
proof -
  have "unat (drop_bit (8 * j) w) = unat w div 256 ^ j"
    unfolding unat_drop_bit_eq by (simp add: drop_bit_eq_div power_mult)
  then show ?thesis
    by (metis of_nat_unat)
qed

lemma to_be_bytes_eq: "to_be_bytes w = be_bytes 8 (unat w)"
proof -
  have "[7, 6, 5, 4, 3, 2, 1, 0] = rev [0..<8 :: nat]" by code_simp
  then show ?thesis
    unfolding to_be_bytes_def be_bytes_map by (simp only: ucast_drop_bit)
qed

lemma drop_to_be_bytes: "k \<le> 8 \<Longrightarrow> drop (8 - k) (to_be_bytes w) = be_bytes k (unat w)"
  by (simp add: to_be_bytes_eq drop_be_bytes)

lemma length_to_be_bytes [simp]: "length (to_be_bytes w) = 8"
  by (simp add: to_be_bytes_def)

lemma i_e_count_eq:
  "0 \<le> sint rem \<Longrightarrow> i_e_count rem c = c + of_nat (nbytes (nat (sint rem)))"
proof (induction rem c rule: i_e_count.induct)
  case (1 rem c)
  let ?r = "signed_drop_bit 8 rem" and ?v = "nat (sint rem)"
  have r: "sint ?r = sint rem div 256"
    by (simp add: sint_signed_drop_bit_eq drop_bit_eq_div)
  have nat_r: "nat (sint ?r) = ?v div 256"
    using "1.prems" r by (simp add: nat_div_distrib)
  show ?case
  proof (cases "0 <s ?r")
    case True
    then have "0 < sint ?r" by (simp add: word_sless_alt)
    with nat_r have "\<not> ?v < 256" by auto
    with True "1.IH" [OF refl refl True] "1.prems" r nat_r show ?thesis
      by (simp add: i_e_count.simps [of rem] Let_def nbytes.simps [of ?v])
  next
    case False
    then have "sint ?r \<le> 0" by (simp add: word_sless_alt)
    with nat_r have "?v < 256" by (simp add: div_eq_0_iff)
    with False show ?thesis
      by (simp add: i_e_count.simps [of rem] Let_def nbytes.simps [of ?v])
  qed
qed

lemma unat_nonneg: "0 \<le> sint (w :: 64 word) \<Longrightarrow> int (unat w) = sint w \<and> unat w < 2 ^ 63"
proof -
  assume nn: "0 \<le> sint w"
  have lt: "sint w < 2 ^ 63"
    using sint_less [of w] by simp
  have "uint w = sint w mod 2 ^ 64"
    using uint_sint [of w] by (simp add: take_bit_eq_mod)
  with nn lt have "uint w = sint w" by simp
  then have "int (unat w) = sint w" by simp
  moreover from this lt have "int (unat w) < int (2 ^ 63)" by simp
  then have "unat w < 2 ^ 63" by (simp only: of_nat_less_iff)
  ultimately show ?thesis by blast
qed

lemma sint_one: "sint (1 :: 64 word) = 1"
  by simp

text \<open>The byte count of a value fits in the \<open>u8\<close> counter, as do the shift amounts made from it.\<close>

lemma count_u8:
  assumes "0 < k" and "k \<le> 8"
  shows "unat (of_nat k :: u8) = k" and "unat (8 * of_nat k - 1 :: u8) = 8 * k - 1"
    and "unat (of_nat k + 1 :: u8) = Suc k"
proof -
  show "unat (of_nat k :: u8) = k"
    using assms by (simp add: unat_of_nat)
  have "8 * of_nat k - 1 = (of_nat (8 * k - 1) :: u8)"
    using of_nat_diff [of 1 "8 * k", where 'a = u8] assms by simp
  then show "unat (8 * of_nat k - 1 :: u8) = 8 * k - 1"
    using assms by (simp only: unat_of_nat) simp
  have "of_nat k + 1 = (of_nat (Suc k) :: u8)"
    by simp
  then show "unat (of_nat k + 1 :: u8) = Suc k"
    using assms by (simp only: unat_of_nat) simp
qed

text \<open>The test of the most significant bit of the counted bytes.\<close>

lemma top_bit_test:
  assumes n: "int n = sint inner" and up: "n < 2 ^ (8 * k)" and k: "0 < k"
  shows "signed_drop_bit (8 * k - 1) inner = (1 :: i64) \<longleftrightarrow> 2 ^ (8 * k - 1) \<le> n"
proof -
  let ?w = "signed_drop_bit (8 * k - 1) inner"
  have "sint ?w = int (n div 2 ^ (8 * k - 1))"
    using n by (simp add: sint_signed_drop_bit_eq drop_bit_eq_div zdiv_int)
  moreover have "n div 2 ^ (8 * k - 1) < 2"
  proof -
    have "(2 :: nat) ^ (8 * k) = 2 * 2 ^ (8 * k - 1)"
      using k by (cases k) (simp_all add: power_add)
    with up show ?thesis by (simp only: div_less_iff_less_mult zero_less_power zero_less_numeral)
  qed
  moreover have "1 \<le> n div 2 ^ (8 * k - 1) \<longleftrightarrow> 2 ^ (8 * k - 1) \<le> n"
    by (simp add: less_eq_div_iff_mult_less_eq)
  moreover have "?w = 1 \<longleftrightarrow> sint ?w = 1"
    by (metis signed_word_eqI sint_one)
  ultimately show ?thesis by linarith
qed

text \<open>
  The octets of a non-negative value: its low bytes, as many as the value needs, plus one
  when the top bit would read as a sign.
\<close>

lemma i_e_octets_nonneg:
  assumes nn: "0 \<le> sint inner"
  defines "k \<equiv> nbytes (unat inner)"
  defines "k' \<equiv> (if 2 ^ (8 * k - 1) \<le> unat inner then Suc k else k)"
  shows "i_e_octets inner = be_bytes k' (unat inner)" and "k' \<le> 8"
proof -
  let ?n = "unat inner"
  have n: "int ?n = sint inner" "?n < 2 ^ 63"
    using unat_nonneg [OF nn] by auto
  have k: "0 < k" "k \<le> 8"
    using nbytes_le [of ?n 8] n(2) by (simp_all add: k_def)
  have up: "?n < 2 ^ (8 * k)"
    using nbytes_upper [of ?n] by (simp add: power_mult k_def)
  have cnt: "i_e_count inner 0 = of_nat k"
    using i_e_count_eq [OF nn, of 0] n(1) unfolding k_def by (metis add_0 nat_int)
  note top = top_bit_test [OF n(1) up k(1)]
  show "k' \<le> 8"
  proof (cases "k = 8")
    case True
    with n(2) show ?thesis by (simp add: k'_def)
  next
    case False
    with k show ?thesis by (simp add: k'_def)
  qed
  then have "drop (8 - k') (to_be_bytes inner) = be_bytes k' ?n"
    by (rule drop_to_be_bytes)
  moreover have "2 ^ (8 * k - 1) \<le> ?n \<Longrightarrow> 0 < sint inner"
    using n(1) by (metis le_0_eq not_gr_zero of_nat_0_less_iff power_not_zero zero_neq_numeral)
  ultimately show "i_e_octets inner = be_bytes k' ?n"
    using nn cnt top \<open>k' \<le> 8\<close> count_u8 [OF k]
    by (auto simp: i_e_octets_def Let_def word_sle_eq word_sless_alt k'_def)
qed

lemma i_e_octets_width:
  assumes nn: "0 \<le> sint inner"
  obtains k where "i_e_octets inner = be_bytes k (unat inner)" and "0 < k" and "k \<le> 8"
    and "unat inner < 2 ^ (8 * k - 1)" and "k = 1 \<or> 2 ^ (8 * (k - 1) - 1) \<le> unat inner"
proof -
  let ?n = "unat inner" and ?k = "nbytes (unat inner)"
  have up: "?n < 2 ^ (8 * ?k)"
    using nbytes_upper [of ?n] by (simp add: power_mult)
  note oct = i_e_octets_nonneg [OF nn]
  show thesis
  proof (cases "2 ^ (8 * ?k - 1) \<le> ?n")
    case False
    have "?k = 1 \<or> 2 ^ (8 * (?k - 1) - 1) \<le> ?n"
    proof (cases "?n = 0")
      case True
      then show ?thesis by (simp add: nbytes.simps)
    next
      case False
      have "2 ^ (8 * (?k - 1) - 1) \<le> (2 :: nat) ^ (8 * (?k - 1))"
        by (simp add: power_increasing)
      also have "\<dots> \<le> ?n"
        using nbytes_lower [OF False] by (simp add: power_mult)
      finally show ?thesis by simp
    qed
    with False oct show thesis
      by (intro that [of ?k]) simp_all
  next
    case True
    have "?n < 2 ^ (8 * Suc ?k - 1)"
      using up by (rule less_le_trans) (simp add: power_increasing)
    with True oct show thesis
      by (intro that [of "Suc ?k"]) simp_all
  qed
qed

subsection \<open>Properties\<close>

text \<open>
  Claim C33. The contents octets of a non-negative INTEGER or ENUMERATED value are its two's
  complement form, and no shorter octet string denotes the value, as BER requires.
\<close>

theorem i_e_octets_twos_complement:
  assumes "0 \<le> sint inner"
  shows "be_sint (i_e_octets inner) = sint inner \<and>
    (\<forall>bs. bs \<noteq> [] \<and> be_sint bs = sint inner \<longrightarrow> length (i_e_octets inner) \<le> length bs)"
proof (intro conjI allI impI)
  obtain k where k: "i_e_octets inner = be_bytes k (unat inner)" "0 < k" "k \<le> 8"
    "unat inner < 2 ^ (8 * k - 1)" "k = 1 \<or> 2 ^ (8 * (k - 1) - 1) \<le> unat inner"
    using assms by (rule i_e_octets_width)
  have n: "int (unat inner) = sint inner"
    using unat_nonneg [OF assms] by blast
  show "be_sint (i_e_octets inner) = sint inner"
    unfolding k(1) be_sint_be_bytes [OF k(2,4)] by (rule n)
  fix bs assume bs: "bs \<noteq> [] \<and> be_sint bs = sint inner"
  show "length (i_e_octets inner) \<le> length bs"
  proof (rule ccontr)
    assume "\<not> length (i_e_octets inner) \<le> length bs"
    then have lt: "length bs < k" using k(1) by simp
    have "int (unat inner) < 2 ^ (8 * length bs - 1)"
      using be_sint_bounds [of bs] bs n by simp
    also have "\<dots> \<le> 2 ^ (8 * (k - 1) - 1)"
      using lt by (simp add: power_increasing)
    finally have "unat inner < 2 ^ (8 * (k - 1) - 1)"
      by (metis of_nat_less_iff of_nat_numeral of_nat_power)
    moreover have "k \<noteq> 1" using lt bs by auto
    ultimately show False using k(5) by simp
  qed
qed

theorem i_e_octets_twos_complement_witness:
  "be_sint (i_e_octets 128) = 128 \<and> i_e_octets 128 = [0, 128]"
proof -
  have "sint (128 :: i64) = 128" by simp
  moreover have "i_e_octets 128 = [0, 128]" by code_simp
  ultimately show ?thesis
    using i_e_octets_twos_complement [of 128] by simp
qed

text \<open>
  Negative values are not always encoded correctly: -129 is encoded as the single
  octet \<open>7F\<close>, which denotes 127, because the number of octets is taken from the absolute value
  and the sign bit is only provided for when the value is positive.
\<close>

theorem negative_integer_misencoded:
  "sint (- 129 :: i64) = - 129 \<and>
   into_structure (Integer (- 129)) = StructureTag Universal 2 (PL_P [0x7F]) \<and> be_sint [0x7F] = 127"
proof (intro conjI)
  show "sint (- 129 :: i64) = - 129" by simp
  have "i_e_octets (- 129) = [0x7F]" by code_simp
  then show "into_structure (Integer (- 129)) = StructureTag Universal 2 (PL_P [0x7F])"
    by (simp add: opsimps i_e_into_structure_def)
  show "be_sint [0x7F] = 127" by (simp add: be_sint_def)
qed

end
