(* ===== verification/Lber_Write.thy ===== *)
theory Lber_Write
  imports Lber_Structure
begin

text \<open>
  BER encoding (\<open>lber/src/write.rs\<close>): \<open>write_type\<close>, \<open>write_length\<close>, \<open>encode_inner\<close> and \<open>encode_into\<close>
  over a byte buffer, with the loops and the \<open>pop().unwrap()\<close> calls of the source. Writing into
  a \<open>Vec<u8>\<close> never fails, so the \<open>io::Result\<close> of the source is always \<open>Ok\<close> and the model returns
  the new buffer, or panics. \<open>ber\<close> is the reference encoding (identifier octets, length octets,
  contents octets); the lemmas show that the code appends exactly \<open>ber t\<close> and never panics.
\<close>

unbundle bit_operations_syntax

subsection \<open>write.rs\<close>

function tag_bytes_loop :: "u64 \<Rightarrow> bytes \<Rightarrow> bytes" where
  "tag_bytes_loop tag tagbytes =
     (if 0 < tag then tag_bytes_loop (drop_bit 7 tag) (tagbytes @ [ucast (tag AND 0x7F)])
      else tagbytes)"
  by pat_completeness auto
termination
proof (relation "measure (\<lambda>(tag, _). unat tag)")
  show "wf (measure (\<lambda>(tag :: u64, _ :: bytes). unat tag))" by simp
next
  fix tag :: u64 and tagbytes :: bytes
  assume "0 < tag"
  then have "0 < unat tag" by (simp add: word_less_nat_alt)
  then have "unat tag div 2 ^ 7 < unat tag" by (intro div_less_dividend) simp_all
  then have "unat (drop_bit 7 tag) < unat tag"
    unfolding unat_drop_bit_eq by (simp add: drop_bit_eq_div)
  then show "((drop_bit 7 tag, tagbytes @ [ucast (tag AND 0x7F)]), tag, tagbytes)
      \<in> measure (\<lambda>(tag, _). unat tag)" by simp
qed

declare tag_bytes_loop.simps [simp del]

fun write_ext_loop :: "nat \<Rightarrow> bytes \<Rightarrow> bytes \<Rightarrow> (bytes \<times> bytes) panicking" where
  "write_ext_loop 0 w ext_bytes = Some (w, ext_bytes)"
| "write_ext_loop (Suc n) w ext_bytes = do {
     (ext_bytes, byte) \<leftarrow> expect (vec_pop ext_bytes);
     write_ext_loop n (w @ [byte OR 0x80]) ext_bytes
   }"

definition write_type :: "bytes \<Rightarrow> TagClass \<Rightarrow> TagStructure \<Rightarrow> u64 \<Rightarrow> bytes panicking" where
  "write_type w class structure ident =
     (let extended_tag = (if 30 < ident then Some (tag_bytes_loop ident []) else None);
          type_byte = push_bit 6 (TagClass_u8 class) OR push_bit 5 (TagStructure_u8 structure) OR
                      (if 30 < ident then 0x1F else ucast ident);
          w = w @ [type_byte]
      in case extended_tag of
           None \<Rightarrow> Some w
         | Some ext_bytes \<Rightarrow>
             if ext_bytes = [] then panic else do {
               (w, ext_bytes) \<leftarrow> write_ext_loop (length ext_bytes - 1) w ext_bytes;
               (ext_bytes, byte) \<leftarrow> expect (vec_pop ext_bytes);
               Some (w @ [byte])
             })"

function length_count :: "usize \<Rightarrow> u8 \<Rightarrow> u8" where
  "length_count len count =
     (let count' = count + 1; len' = drop_bit 8 len
      in if 0 < len' then length_count len' count' else count')"
  by pat_completeness auto
termination
proof (relation "measure (\<lambda>(len, _). unat len)")
  show "wf (measure (\<lambda>(len :: usize, _ :: u8). unat len))" by simp
next
  fix len y :: usize and count x :: u8
  assume y: "y = drop_bit 8 len" and "0 < y"
  have "unat y = unat len div 256"
    unfolding y unat_drop_bit_eq by (simp add: drop_bit_eq_div)
  moreover have "0 < unat y" using \<open>0 < y\<close> by (simp add: word_less_nat_alt)
  ultimately have "unat y < unat len"
    by (metis div_by_0 div_less_dividend div_0 gr0I one_less_numeral_iff semiring_norm(76))
  then show "((y, x), len, count) \<in> measure (\<lambda>(len, _). unat len)" by simp
qed

declare length_count.simps [simp del]

definition write_length :: "bytes \<Rightarrow> usize \<Rightarrow> bytes" where
  "write_length w len =
     (if len < 128 then w @ [ucast len]
      else let count = length_count len 0;
               w = w @ [count OR 0x80];
               repr = to_be_bytes len
           in w @ drop (length repr - unat count) repr)"

fun encode_inner :: "bytes \<Rightarrow> StructureTag \<Rightarrow> bytes panicking"
and encode_each :: "bytes \<Rightarrow> StructureTag list \<Rightarrow> bytes panicking" where
  "encode_inner buf (StructureTag class ident (PL_P v)) = do {
     buf \<leftarrow> write_type buf class Primitive ident;
     Some (write_length buf (of_nat (length v)) @ v)
   }"
| "encode_inner buf (StructureTag class ident (PL_C tags)) = do {
     buf \<leftarrow> write_type buf class Constructed ident;
     tmp \<leftarrow> encode_each [] tags;
     Some (write_length buf (of_nat (length tmp)) @ tmp)
   }"
| "encode_each tmp [] = Some tmp"
| "encode_each tmp (tag # tags) = do { tmp \<leftarrow> encode_inner tmp tag; encode_each tmp tags }"

definition encode_into :: "bytes \<Rightarrow> StructureTag \<Rightarrow> bytes panicking" where
  "encode_into buf tag = do { tag_vec \<leftarrow> encode_inner [] tag; Some (buf @ tag_vec) }"

subsection \<open>The reference encoding\<close>

text \<open>Identifier octets: the low form up to 30, base-128 digits with continuation bits above.\<close>

fun base128 :: "nat \<Rightarrow> bytes" where
  "base128 n = (if n < 128 then [] else base128 (n div 128)) @ [of_nat (n mod 128)]"

declare base128.simps [simp del]

definition ber_type :: "TagClass \<Rightarrow> TagStructure \<Rightarrow> u64 \<Rightarrow> bytes" where
  "ber_type class structure ident =
     (let lead = (\<lambda>low. of_nat (64 * unat (TagClass_u8 class) + 32 * unat (TagStructure_u8 structure) + low))
      in if ident \<le> 30 then [lead (unat ident)]
         else lead 31 # map (\<lambda>d. d OR 0x80) (butlast (base128 (unat ident))) @ [last (base128 (unat ident))])"

text \<open>Length octets: the short form below 128, else the shortest long form.\<close>

definition ber_length :: "nat \<Rightarrow> bytes" where
  "ber_length n = (if n < 128 then [of_nat n] else of_nat (128 + nbytes n) # be_bytes (nbytes n) n)"

fun ber :: "StructureTag \<Rightarrow> bytes" where
  "ber (StructureTag class ident (PL_P v)) =
     ber_type class Primitive ident @ ber_length (length v) @ v"
| "ber (StructureTag class ident (PL_C tags)) =
     (let v = concat (map ber tags) in ber_type class Constructed ident @ ber_length (length v) @ v)"

subsection \<open>The code computes the reference encoding\<close>

lemma unat_drop_bit: "unat (drop_bit m (w :: 64 word)) = unat w div 2 ^ m"
  unfolding unat_drop_bit_eq by (simp add: drop_bit_eq_div)

lemma low7: "(ucast (w AND 0x7F) :: u8) = of_nat (unat (w :: u64) mod 128)"
proof -
  have "w AND 0x7F = take_bit 7 w"
    by (simp add: take_bit_eq_mask mask_eq_exp_minus_1)
  then have "unat (w AND 0x7F) = unat w mod 128"
    by (simp add: take_bit_eq_mod unat_mod)
  then show ?thesis by (metis of_nat_unat)
qed

lemma base128_ne [simp]: "base128 n \<noteq> []"
  by (subst base128.simps) simp

lemma tag_bytes_loop_eq:
  "0 < tag \<Longrightarrow> tag_bytes_loop tag acc = acc @ rev (base128 (unat tag))"
proof (induction tag acc rule: tag_bytes_loop.induct)
  case (1 tag acc)
  let ?n = "unat tag" and ?t = "drop_bit 7 tag"
  have t: "unat ?t = ?n div 128" by (simp only: unat_drop_bit) simp
  have pos: "0 < ?t \<longleftrightarrow> \<not> ?n < 128"
    unfolding word_less_nat_alt t by (simp add: div_greater_zero_iff not_less)
  show ?case
  proof (cases "?n < 128")
    case True
    with pos have "?t = 0" by (simp add: word_greater_zero_iff)
    with "1.prems" True show ?thesis
      by (simp add: tag_bytes_loop.simps low7 base128.simps [of ?n])
  next
    case False
    with pos "1.IH" "1.prems"
    have "tag_bytes_loop ?t (acc @ [ucast (tag AND 0x7F)]) =
        (acc @ [ucast (tag AND 0x7F)]) @ rev (base128 (unat ?t))" by blast
    with "1.prems" False show ?thesis
      by (simp add: tag_bytes_loop.simps [of tag] t low7 base128.simps [of ?n])
  qed
qed

lemma write_ext_loop_eq:
  "write_ext_loop (length xs) w (ys @ xs) = Some (w @ map (\<lambda>b. b OR 0x80) (rev xs), ys)"
proof (induction xs arbitrary: w rule: rev_induct)
  case Nil
  show ?case by simp
next
  case (snoc x xs)
  have "vec_pop (ys @ xs @ [x]) = Some (ys @ xs, x)"
    using vec_pop_simps(2) [of "ys @ xs" x] by simp
  with snoc show ?case by simp
qed

lemma or_low: "x < 32 \<Longrightarrow> push_bit 5 k OR x = push_bit 5 k + (x :: u8)"
proof -
  assume "x < 32"
  then have "take_bit 5 x = x"
    by (simp add: take_bit_eq_mod word_less_nat_alt word_arith_nat_mod take_bit_nat_eq_self)
  then have "bit x n \<Longrightarrow> n < 5" for n
    by (metis bit_take_bit_iff)
  then show ?thesis
    by (intro disjunctive_add [symmetric]) (force simp: bit_push_bit_iff)
qed

lemma ber_lead:
  assumes "n < 32"
  shows "push_bit 6 (TagClass_u8 c) OR push_bit 5 (TagStructure_u8 s) OR of_nat n =
    (of_nat (64 * unat (TagClass_u8 c) + 32 * unat (TagStructure_u8 s) + n) :: u8)"
proof -
  have "unat (of_nat n :: u8) = n"
    using assms by (simp add: unat_of_nat)
  then have low: "(of_nat n :: u8) < 32"
    using assms by (simp add: word_less_nat_alt)
  have "push_bit 5 k OR of_nat n = push_bit 5 k + (of_nat n :: u8)" for k
    by (rule or_low [OF low])
  from this [of "2 * TagClass_u8 c + TagStructure_u8 s"] show ?thesis
    by (cases c; cases s) (simp_all add: or.assoc [symmetric])
qed

lemma write_type_eq: "write_type w c s i = Some (w @ ber_type c s i)"
proof (cases "30 < i")
  case True
  let ?b = "base128 (unat i)"
  from True have "0 < i" by (rule le_less_trans [rotated]) simp
  then have loop: "tag_bytes_loop i [] = rev ?b"
    by (simp add: tag_bytes_loop_eq)
  have split: "rev ?b = [last ?b] @ rev (butlast ?b)"
    by (metis append_butlast_last_id base128_ne rev.simps(2) rev_append rev_singleton_conv rev_rev_ident append_Cons append_Nil)
  have "write_ext_loop (length (butlast ?b)) v (rev ?b) =
      Some (v @ map (\<lambda>b. b OR 0x80) (butlast ?b), [last ?b])" for v
    using write_ext_loop_eq [of "rev (butlast ?b)" v "[last ?b]"] by (simp add: split)
  with True loop ber_lead [of 31 c s] show ?thesis
    by (simp add: write_type_def ber_type_def Let_def not_le [symmetric])
next
  case False
  then have "unat i < 32" by (simp add: word_less_nat_alt)
  moreover from False have "i \<le> 30" by (simp add: not_less)
  ultimately show ?thesis
    using False ber_lead [of "unat i" c s] by (simp add: write_type_def ber_type_def Let_def)
qed

lemma length_count_eq: "length_count len c = c + of_nat (nbytes (unat len))"
proof (induction len c rule: length_count.induct)
  case (1 len c)
  let ?l = "drop_bit 8 len" and ?n = "unat len"
  have l: "unat ?l = ?n div 256" by (simp only: unat_drop_bit) simp
  have pos: "0 < ?l \<longleftrightarrow> \<not> ?n < 256"
    unfolding word_less_nat_alt l by (simp add: div_greater_zero_iff not_less)
  show ?case
  proof (cases "?n < 256")
    case True
    with pos show ?thesis
      by (simp add: length_count.simps [of len] Let_def nbytes.simps [of ?n])
  next
    case False
    with pos have "0 < ?l" by blast
    from "1.IH" [OF refl refl this] \<open>0 < ?l\<close> False l show ?thesis
      by (simp add: length_count.simps [of len] Let_def nbytes.simps [of ?n])
  qed
qed

lemma long_count: "k \<le> 8 \<Longrightarrow> of_nat k OR 0x80 = (of_nat (128 + k) :: u8)"
proof -
  assume "k \<le> 8"
  then have "k \<in> {0, 1, 2, 3, 4, 5, 6, 7, 8}" by auto
  then show ?thesis by auto
qed

lemma write_length_eq:
  assumes "n < 2 ^ 64"
  shows "write_length w (of_nat n) = w @ ber_length n"
proof -
  have u: "unat (of_nat n :: usize) = n"
    using assms by (simp add: unat_of_nat)
  then have short: "(of_nat n :: usize) < 128 \<longleftrightarrow> n < 128"
    by (simp add: word_less_nat_alt)
  have k: "nbytes n \<le> 8"
    using nbytes_le [of n 8] assms by simp
  have "unat (of_nat (nbytes n) :: u8) = nbytes n"
    using k by (intro count_u8) simp_all
  moreover have "(ucast (of_nat n :: usize) :: u8) = of_nat n"
    using u by (metis of_nat_unat)
  ultimately show ?thesis
    using u short k by (simp add: write_length_def ber_length_def Let_def length_count_eq drop_to_be_bytes long_count)
qed

lemma length_ber_element: "t \<in> set ts \<Longrightarrow> length (ber t) \<le> length (concat (map ber ts))"
  by (induction ts) auto

lemma encode_eq:
  "length (ber t) < 2 ^ 64 \<Longrightarrow> encode_inner buf t = Some (buf @ ber t)"
  "length (concat (map ber ts)) < 2 ^ 64 \<Longrightarrow> encode_each buf ts = Some (buf @ concat (map ber ts))"
proof (induction buf t and buf ts rule: encode_inner_encode_each.induct)
  case (1 buf c i v)
  then show ?case by (simp add: write_type_eq write_length_eq)
next
  case (2 buf c i tags)
  then show ?case by (simp add: write_type_eq write_length_eq Let_def)
next
  case (3 tmp)
  then show ?case by simp
next
  case (4 tmp tag tags)
  then show ?case by simp
qed
end
