(* ===== verification/Nom.thy ===== *)
theory Nom
  imports Prelude
begin

text \<open>
  The interface of the \<open>nom\<close> parser library, which \<open>lber/src/parse.rs\<close> and \<open>src/filter.rs\<close> call
  and which is not part of the repository. A parser takes the input and returns the remaining
  input with a value, or one of nom's three errors (\<open>Incomplete\<close> asks for more input, \<open>Error\<close>
  lets an alternative be tried, \<open>Failure\<close> does not); \<open>Panicked\<close> stands for a panic of the
  function that a parser calls, so that it is visible in the result.

  The combinators are parameters of the model. They are collected in the records \<open>comb\<close> (the
  combinators at one result type) and \<open>comb2\<close> (those that change the result type), and the
  predicates \<open>comb_doc\<close> and \<open>comb2_doc\<close> state what the documentation of nom 7 says about them.
  \<open>comb_ref\<close> and \<open>comb2_ref\<close> are instances that satisfy these predicates, so the hypotheses are
  consistent and closed terms can be evaluated.
\<close>

datatype NomErr = Incomplete | Error | Failure | Panicked

type_synonym ('i, 'o) IResult = "('i \<times> 'o, NomErr) result"
type_synonym ('i, 'o) parser = "'i \<Rightarrow> ('i, 'o) IResult"

text \<open>Bit-level input: the bytes and the offset of the next bit in the first of them.\<close>

type_synonym bits_input = "bytes \<times> nat"

subsection \<open>Combinators at one result type\<close>

record 'o comb =
  c_alt :: "(bytes, 'o) parser list \<Rightarrow> (bytes, 'o) parser"
  c_delimited :: "(bytes, bytes) parser \<Rightarrow> (bytes, 'o) parser \<Rightarrow> (bytes, bytes) parser \<Rightarrow> (bytes, 'o) parser"
  c_preceded :: "(bytes, bytes) parser \<Rightarrow> (bytes, 'o) parser \<Rightarrow> (bytes, 'o) parser"
  c_many0 :: "(bytes, 'o) parser \<Rightarrow> (bytes, 'o list) parser"
  c_many1 :: "(bytes, 'o) parser \<Rightarrow> (bytes, 'o list) parser"
  c_opt :: "(bytes, 'o) parser \<Rightarrow> (bytes, 'o option) parser"
  c_recognize :: "(bytes, 'o) parser \<Rightarrow> (bytes, bytes) parser"
  c_verify :: "(bytes, 'o) parser \<Rightarrow> ('o \<Rightarrow> bool) \<Rightarrow> (bytes, 'o) parser"

text \<open>
  A parser that returns at most the input it was given, as every nom parser does: the rest is
  a slice of the input. \<open>many0\<close>, \<open>many1\<close> and \<open>fold_many0\<close> are described for such parsers.
\<close>

definition nonincreasing :: "(bytes, 'o) parser \<Rightarrow> bool" where
  "nonincreasing p \<longleftrightarrow> (\<forall>i r x. p i = Ok (r, x) \<longrightarrow> length r \<le> length i)"

text \<open>What the documentation says about each combinator.\<close>

fun alt_doc :: "(bytes, 'o) parser list \<Rightarrow> (bytes, 'o) parser" where
  "alt_doc [] i = Err Error"
| "alt_doc [p] i = p i"
| "alt_doc (p # q # ps) i = (case p i of Err Error \<Rightarrow> alt_doc (q # ps) i | r \<Rightarrow> r)"

definition preceded_doc :: "(bytes, 'a) parser \<Rightarrow> (bytes, 'o) parser \<Rightarrow> (bytes, 'o) parser" where
  "preceded_doc p q i = and_then (p i) (\<lambda>(i, _). q i)"

definition delimited_doc ::
    "(bytes, 'a) parser \<Rightarrow> (bytes, 'o) parser \<Rightarrow> (bytes, 'b) parser \<Rightarrow> (bytes, 'o) parser" where
  "delimited_doc p q s i =
     and_then (p i) (\<lambda>(i, _). and_then (q i) (\<lambda>(i, x). and_then (s i) (\<lambda>(i, _). Ok (i, x))))"

text \<open>
  One step of \<open>many0\<close>: stop on \<open>Error\<close> with what was gathered; a parser that consumes nothing
  is an error, so that the loop ends.
\<close>

definition many0_step ::
    "(bytes, 'o) parser \<Rightarrow> (bytes, 'o list) parser \<Rightarrow> (bytes, 'o list) parser" where
  "many0_step p rec i =
     (case p i of
        Err Error \<Rightarrow> Ok (i, [])
      | Err e \<Rightarrow> Err e
      | Ok (r, x) \<Rightarrow> if length r = length i then Err Error
                    else and_then (rec r) (\<lambda>(r, xs). Ok (r, x # xs)))"

definition many1_doc ::
    "(bytes, 'o) parser \<Rightarrow> (bytes, 'o list) parser \<Rightarrow> (bytes, 'o list) parser" where
  "many1_doc p rec i =
     and_then (p i) (\<lambda>(r, x). and_then (rec r) (\<lambda>(r, xs). Ok (r, x # xs)))"

definition opt_doc :: "(bytes, 'o) parser \<Rightarrow> (bytes, 'o option) parser" where
  "opt_doc p i =
     (case p i of Ok (r, x) \<Rightarrow> Ok (r, Some x) | Err Error \<Rightarrow> Ok (i, None) | Err e \<Rightarrow> Err e)"

definition recognize_doc :: "(bytes, 'o) parser \<Rightarrow> (bytes, bytes) parser" where
  "recognize_doc p i = and_then (p i) (\<lambda>(r, _). Ok (r, take (length i - length r) i))"

definition verify_doc :: "(bytes, 'o) parser \<Rightarrow> ('o \<Rightarrow> bool) \<Rightarrow> (bytes, 'o) parser" where
  "verify_doc p ok i = and_then (p i) (\<lambda>(r, x). if ok x then Ok (r, x) else Err Error)"

definition comb_doc :: "'o comb \<Rightarrow> bool" where
  "comb_doc c \<longleftrightarrow>
     c_alt c = alt_doc \<and> c_delimited c = delimited_doc \<and> c_preceded c = preceded_doc \<and>
     (\<forall>p i. nonincreasing p \<longrightarrow> c_many0 c p i = many0_step p (c_many0 c p) i) \<and>
     (\<forall>p i. nonincreasing p \<longrightarrow> c_many1 c p i = many1_doc p (c_many0 c p) i) \<and>
     c_opt c = opt_doc \<and> c_recognize c = recognize_doc \<and> c_verify c = verify_doc"

subsection \<open>Combinators that change the result type\<close>

record ('a, 'b) comb2 =
  c_map :: "(bytes, 'a) parser \<Rightarrow> ('a \<Rightarrow> 'b) \<Rightarrow> (bytes, 'b) parser"
  c_map_res :: "(bytes, 'a) parser \<Rightarrow> ('a \<Rightarrow> 'b option) \<Rightarrow> (bytes, 'b) parser"
  c_fold_many0 :: "(bytes, 'a) parser \<Rightarrow> 'b \<Rightarrow> ('b \<Rightarrow> 'a \<Rightarrow> 'b) \<Rightarrow> (bytes, 'b) parser"

definition map_doc :: "(bytes, 'a) parser \<Rightarrow> ('a \<Rightarrow> 'b) \<Rightarrow> (bytes, 'b) parser" where
  "map_doc p f i = and_then (p i) (\<lambda>(r, x). Ok (r, f x))"

definition map_res_doc :: "(bytes, 'a) parser \<Rightarrow> ('a \<Rightarrow> 'b option) \<Rightarrow> (bytes, 'b) parser" where
  "map_res_doc p f i =
     and_then (p i) (\<lambda>(r, x). case f x of None \<Rightarrow> Err Error | Some y \<Rightarrow> Ok (r, y))"

definition fold_many0_step ::
    "(bytes, 'a) parser \<Rightarrow> 'b \<Rightarrow> ('b \<Rightarrow> 'a \<Rightarrow> 'b) \<Rightarrow> ('b \<Rightarrow> (bytes, 'b) parser) \<Rightarrow> (bytes, 'b) parser" where
  "fold_many0_step p acc g rec i =
     (case p i of
        Err Error \<Rightarrow> Ok (i, acc)
      | Err e \<Rightarrow> Err e
      | Ok (r, x) \<Rightarrow> if length r = length i then Err Error else rec (g acc x) r)"

definition comb2_doc :: "('a, 'b) comb2 \<Rightarrow> bool" where
  "comb2_doc c \<longleftrightarrow>
     c_map c = map_doc \<and> c_map_res c = map_res_doc \<and>
     (\<forall>p acc g i. nonincreasing p \<longrightarrow>
        c_fold_many0 c p acc g i = fold_many0_step p acc g (\<lambda>a. c_fold_many0 c p a g) i)"

subsection \<open>Instances\<close>

text \<open>
  The loops cut off where a parser returns more than it was given, which no nom parser does.
\<close>

function many0_ref :: "(bytes, 'o) parser \<Rightarrow> (bytes, 'o list) parser" where
  "many0_ref p i =
     (case p i of
        Err Error \<Rightarrow> Ok (i, [])
      | Err e \<Rightarrow> Err e
      | Ok (r, x) \<Rightarrow> if length r < length i then and_then (many0_ref p r) (\<lambda>(r, xs). Ok (r, x # xs))
                    else Err Error)"
  by pat_completeness auto
termination
  by (relation "measure (\<lambda>(_, i). length i)") auto

function fold_many0_ref :: "(bytes, 'a) parser \<Rightarrow> 'b \<Rightarrow> ('b \<Rightarrow> 'a \<Rightarrow> 'b) \<Rightarrow> (bytes, 'b) parser" where
  "fold_many0_ref p acc g i =
     (case p i of
        Err Error \<Rightarrow> Ok (i, acc)
      | Err e \<Rightarrow> Err e
      | Ok (r, x) \<Rightarrow> if length r < length i then fold_many0_ref p (g acc x) g r else Err Error)"
  by pat_completeness auto
termination
  by (relation "measure (\<lambda>(_, _, _, i). length i)") auto

declare many0_ref.simps [simp del] fold_many0_ref.simps [simp del]

definition comb_ref :: "'o comb" where
  "comb_ref = \<lparr> c_alt = alt_doc, c_delimited = delimited_doc, c_preceded = preceded_doc,
     c_many0 = many0_ref, c_many1 = (\<lambda>p. many1_doc p (many0_ref p)),
     c_opt = opt_doc, c_recognize = recognize_doc, c_verify = verify_doc \<rparr>"

definition comb2_ref :: "('a, 'b) comb2" where
  "comb2_ref = \<lparr> c_map = map_doc, c_map_res = map_res_doc, c_fold_many0 = fold_many0_ref \<rparr>"

lemma many0_ref_step: "nonincreasing p \<Longrightarrow> many0_ref p i = many0_step p (many0_ref p) i"
  by (subst many0_ref.simps)
    (auto simp: many0_step_def nonincreasing_def le_less split: result.splits NomErr.splits prod.splits)

lemma fold_many0_ref_step:
  "nonincreasing p \<Longrightarrow> fold_many0_ref p acc g i = fold_many0_step p acc g (\<lambda>a. fold_many0_ref p a g) i"
  by (subst fold_many0_ref.simps)
    (auto simp: fold_many0_step_def nonincreasing_def le_less split: result.splits NomErr.splits prod.splits)

lemma comb_ref_doc: "comb_doc comb_ref"
  by (simp add: comb_doc_def comb_ref_def many0_ref_step)

lemma comb2_ref_doc: "comb2_doc comb2_ref"
  by (simp add: comb2_doc_def comb2_ref_def fold_many0_ref_step)

text \<open>The documented equations determine the loops on nonincreasing parsers.\<close>

lemma comb_doc_many0:
  assumes "comb_doc c" and "nonincreasing p"
  shows "c_many0 c p i = many0_ref p i"
proof (induction i rule: length_induct)
  case (1 i)
  have ih: "c_many0 c p r = many0_ref p r" if "p i = Ok (r, x)" and "length r \<noteq> length i" for r x
    using 1 that assms(2) by (metis nonincreasing_def le_neq_implies_less)
  have "c_many0 c p i = many0_step p (c_many0 c p) i"
    using assms by (simp add: comb_doc_def)
  also have "\<dots> = many0_step p (many0_ref p) i"
    by (auto simp: many0_step_def ih split: result.splits NomErr.splits)
  also have "\<dots> = many0_ref p i"
    using assms(2) by (simp add: many0_ref_step)
  finally show ?case .
qed

lemma comb2_doc_fold_many0:
  assumes "comb2_doc c" and "nonincreasing p"
  shows "c_fold_many0 c p acc g i = fold_many0_ref p acc g i"
proof (induction i arbitrary: acc rule: length_induct)
  case (1 i)
  have ih: "c_fold_many0 c p a g r = fold_many0_ref p a g r"
    if "p i = Ok (r, x)" and "length r \<noteq> length i" for r x a
    using 1 that assms(2) by (metis nonincreasing_def le_neq_implies_less)
  have "c_fold_many0 c p acc g i = fold_many0_step p acc g (\<lambda>a. c_fold_many0 c p a g) i"
    using assms by (simp add: comb2_doc_def)
  also have "\<dots> = fold_many0_step p acc g (\<lambda>a. fold_many0_ref p a g) i"
    by (auto simp: fold_many0_step_def ih split: result.splits NomErr.splits)
  also have "\<dots> = fold_many0_ref p acc g i"
    using assms(2) by (simp add: fold_many0_ref_step)
  finally show ?case .
qed

end
