(* ===== verification/Lber_Parse.thy ===== *)
theory Lber_Parse
  imports Lber_Write Nom
begin

text \<open>
  BER decoding (\<open>lber/src/parse.rs\<close>). The functions of nom that the file calls are the fields of
  \<open>nom_streaming\<close>, a parameter of every parser; the locale \<open>nom_streaming_doc\<close> states their
  documented behaviour. The model follows the source: the type octet is read bit by bit, the
  length octets in short or long form, and \<open>parse_tag\<close> recurses into constructed values in a
  loop over their contents. The recursion of the source ends because \<open>take\<close> returns no more
  than its input; the model tests this before each recursive call, and \<open>parse_tag_unfold\<close> shows
  that the test always succeeds, so that the equation of the source holds as it stands.

  Shown here, for any library with the documented behaviour: decoding inverts the encoding of
  \<open>Lber_Write\<close> for tags with numbers up to 30, leaving the rest of the input; and on every
  proper prefix of the encoding of such a tag the parser asks for more input, which is what the framing of
  the connection relies on.
\<close>

unbundle bit_operations_syntax

type_synonym header = "TagClass \<times> TagStructure \<times> u64"

record nom_streaming =
  ns_bits_take_u8 :: "nat \<Rightarrow> (bits_input, u8) parser"
  ns_bits_take_u64 :: "nat \<Rightarrow> (bits_input, u64) parser"
  ns_map_opt_class :: "(bits_input, u8) parser \<Rightarrow> (u8 \<Rightarrow> TagClass option) \<Rightarrow> (bits_input, TagClass) parser"
  ns_map_opt_structure :: "(bits_input, u8) parser \<Rightarrow> (u8 \<Rightarrow> TagStructure option) \<Rightarrow> (bits_input, TagStructure) parser"
  ns_tuple3 :: "(bits_input, TagClass) parser \<Rightarrow> (bits_input, TagStructure) parser \<Rightarrow> (bits_input, u64) parser
      \<Rightarrow> (bits_input, header) parser"
  ns_bits :: "(bits_input, header) parser \<Rightarrow> (bytes, header) parser"
  ns_take :: "nat \<Rightarrow> (bytes, bytes) parser"
  ns_be_u8 :: "(bytes, u8) parser"
  ns_tuple2 :: "(bytes, header) parser \<Rightarrow> (bytes, usize) parser \<Rightarrow> (bytes, header \<times> usize) parser"

subsection \<open>parse.rs\<close>

definition class_bits :: "nom_streaming \<Rightarrow> (bits_input, TagClass) parser" where
  "class_bits S = ns_map_opt_class S (ns_bits_take_u8 S 2) TagClass_from_u8"

definition pc_bit :: "nom_streaming \<Rightarrow> (bits_input, TagStructure) parser" where
  "pc_bit S = ns_map_opt_structure S (ns_bits_take_u8 S 1) TagStructure_from_u8"

definition tagnr_bits :: "nom_streaming \<Rightarrow> (bits_input, u64) parser" where
  "tagnr_bits S = ns_bits_take_u64 S 5"

definition parse_type_header :: "nom_streaming \<Rightarrow> (bytes, header) parser" where
  "parse_type_header S = ns_bits S (ns_tuple3 S (class_bits S) (pc_bit S) (tagnr_bits S))"

definition parse_uint :: "(bytes, u64) parser" where
  "parse_uint i = Ok (i, foldl (\<lambda>res byte. push_bit 8 res OR ucast byte) 0 i)"

definition parse_length :: "nom_streaming \<Rightarrow> (bytes, usize) parser" where
  "parse_length S i =
     and_then (ns_be_u8 S i) (\<lambda>(i, len).
       if len < 128 then Ok (i, ucast len)
       else let len = len - 128
            in and_then (ns_take S (unat len) i) (\<lambda>(i, b).
                 and_then (parse_uint b) (\<lambda>(_, len). Ok (i, len))))"

function parse_tag :: "nom_streaming \<Rightarrow> (bytes, StructureTag) parser"
and parse_content :: "nom_streaming \<Rightarrow> bytes \<Rightarrow> StructureTag list \<Rightarrow> (StructureTag list, NomErr) result" where
  "parse_tag S i =
     (case ns_tuple2 S (parse_type_header S) (parse_length S) i of
        Err e \<Rightarrow> Err e
      | Ok (i', (class, structure, ident), len) \<Rightarrow>
          (case structure of
             Primitive \<Rightarrow>
               (case ns_take S (unat len) i' of
                  Err e \<Rightarrow> Err e
                | Ok (j, content) \<Rightarrow> Ok (j, StructureTag class ident (PL_P content)))
           | Constructed \<Rightarrow>
               (case ns_take S (unat len) i' of
                  Err e \<Rightarrow> Err e
                | Ok (j, content) \<Rightarrow>
                    if length content < length i then
                      (case parse_content S content [] of
                         Err e \<Rightarrow> Err e
                       | Ok tv \<Rightarrow> Ok (j, StructureTag class ident (PL_C tv)))
                    else Err Failure)))"
| "parse_content S content tv =
     (if content = [] then Ok tv
      else case parse_tag S content of
             Err e \<Rightarrow> Err e
           | Ok (j, sub) \<Rightarrow>
               if length j < length content then parse_content S j (tv @ [sub]) else Err Failure)"
  by pat_completeness auto
termination
  by (relation "measures [\<lambda>x. case x of Inl (_, i) \<Rightarrow> length i | Inr (_, c, _) \<Rightarrow> length c,
        \<lambda>x. case x of Inl _ \<Rightarrow> 0 | Inr _ \<Rightarrow> 1]") auto

declare parse_tag.simps [simp del] parse_content.simps [simp del]

text \<open>\<open>Parser::parse\<close>.\<close>

definition Parser_parse :: "nom_streaming \<Rightarrow> (bytes, StructureTag) parser" where
  "Parser_parse S input = (if input = [] then Err Incomplete else parse_tag S input)"

subsection \<open>What the library documents\<close>

text \<open>The value of the bits \<open>off\<close>, \<dots>, \<open>off + n - 1\<close> of a byte string, most significant first.\<close>

definition bits_value :: "bytes \<Rightarrow> nat \<Rightarrow> nat \<Rightarrow> nat" where
  "bits_value i off n =
     foldl (\<lambda>acc k. 2 * acc + (if bit (i ! (k div 8)) (7 - k mod 8) then 1 else 0)) 0 [off..<off + n]"

definition bits_take_doc :: "nat \<Rightarrow> (bits_input, 'w::len word) parser" where
  "bits_take_doc n = (\<lambda>(i, off).
     if 8 * length i < n + off then Err Incomplete
     else Ok ((drop ((n + off) div 8) i, (n + off) mod 8), of_nat (bits_value i off n)))"

definition map_opt_doc :: "('i, 'a) parser \<Rightarrow> ('a \<Rightarrow> 'b option) \<Rightarrow> ('i, 'b) parser" where
  "map_opt_doc p f i = and_then (p i) (\<lambda>(r, x). case f x of None \<Rightarrow> Err Error | Some y \<Rightarrow> Ok (r, y))"

definition tuple3_doc :: "('i, 'a) parser \<Rightarrow> ('i, 'b) parser \<Rightarrow> ('i, 'c) parser \<Rightarrow> ('i, 'a \<times> 'b \<times> 'c) parser" where
  "tuple3_doc p q r i =
     and_then (p i) (\<lambda>(i, x). and_then (q i) (\<lambda>(i, y). and_then (r i) (\<lambda>(i, z). Ok (i, x, y, z))))"

text \<open>Back to bytes, with the remaining bits of a byte that was begun thrown away.\<close>

definition bits_doc :: "(bits_input, 'o) parser \<Rightarrow> (bytes, 'o) parser" where
  "bits_doc p i = and_then (p (i, 0)) (\<lambda>((r, off), x). Ok (drop ((off + 7) div 8) r, x))"

definition take_doc :: "nat \<Rightarrow> (bytes, bytes) parser" where
  "take_doc n i = (if n \<le> length i then Ok (drop n i, take n i) else Err Incomplete)"

definition be_u8_doc :: "NomErr \<Rightarrow> (bytes, u8) parser" where
  "be_u8_doc e i = (case i of [] \<Rightarrow> Err e | b # r \<Rightarrow> Ok (r, b))"

definition tuple2_doc :: "('i, 'a) parser \<Rightarrow> ('i, 'b) parser \<Rightarrow> ('i, 'a \<times> 'b) parser" where
  "tuple2_doc p q i = and_then (p i) (\<lambda>(i, x). and_then (q i) (\<lambda>(i, y). Ok (i, x, y)))"

definition nom_streaming_ref :: nom_streaming where
  "nom_streaming_ref = \<lparr> ns_bits_take_u8 = bits_take_doc, ns_bits_take_u64 = bits_take_doc,
     ns_map_opt_class = map_opt_doc, ns_map_opt_structure = map_opt_doc, ns_tuple3 = tuple3_doc,
     ns_bits = bits_doc, ns_take = take_doc, ns_be_u8 = be_u8_doc Incomplete, ns_tuple2 = tuple2_doc \<rparr>"

text \<open>Tags the parser can read back: numbers up to 30 throughout, and a length that fits \<open>usize\<close>.\<close>

fun low_ids :: "StructureTag \<Rightarrow> bool" where
  "low_ids (StructureTag c i (PL_P v)) = (i \<le> 30)"
| "low_ids (StructureTag c i (PL_C ts)) = (i \<le> 30 \<and> list_all low_ids ts)"

definition ber_ok :: "StructureTag \<Rightarrow> bool" where
  "ber_ok t \<longleftrightarrow> low_ids t \<and> length (ber t) < 2 ^ 64"

locale nom_streaming_doc =
  fixes S :: nom_streaming
  assumes bits_take_u8: "ns_bits_take_u8 S n = bits_take_doc n"
    and bits_take_u64: "ns_bits_take_u64 S n = bits_take_doc n"
    and map_opt_class: "ns_map_opt_class S = map_opt_doc"
    and map_opt_structure: "ns_map_opt_structure S = map_opt_doc"
    and tuple3: "ns_tuple3 S = tuple3_doc"
    and bits: "ns_bits S = bits_doc"
    and take: "ns_take S n = take_doc n"
    and be_u8: "ns_be_u8 S = be_u8_doc Incomplete"
    and tuple2: "ns_tuple2 S = tuple2_doc"

interpretation nsr: nom_streaming_doc nom_streaming_ref
  by unfold_locales (simp_all add: nom_streaming_ref_def)

subsection \<open>Numbers and bits\<close>

lemma bits_value_byte:
  "off + n \<le> 8 \<Longrightarrow> bits_value (b # r) off n = unat b div 2 ^ (8 - off - n) mod 2 ^ n"
proof (induction n)
  case 0
  show ?case by (simp add: bits_value_def)
next
  case (Suc n)
  let ?D = "unat b div 2 ^ (7 - (off + n))"
  have up: "[off..<off + Suc n] = [off..<off + n] @ [off + n]"
    by simp
  have d: "(off + n) div 8 = 0" "(off + n) mod 8 = off + n"
    using Suc.prems by simp_all
  have bit: "bit b (7 - (off + n)) \<longleftrightarrow> odd ?D"
    by (metis bit_iff_odd bit_unsigned_iff bit_imp_le_length drop_bit_eq_div possible_bit_nat semiring_bits_class.bit_iff_odd unsigned_less)
  have "bits_value (b # r) off (Suc n) = 2 * bits_value (b # r) off n + (if odd ?D then 1 else 0)"
    unfolding bits_value_def up by (simp add: d bit)
  also have "bits_value (b # r) off n = ?D div 2 mod 2 ^ n"
  proof -
    have "unat b div 2 ^ (8 - off - n) = ?D div 2"
    proof -
      have "8 - off - n = Suc (7 - (off + n))" using Suc.prems by simp
      then show ?thesis by (simp flip: div_mult2_eq add: mult.commute)
    qed
    then show ?thesis using Suc by simp
  qed
  also have "2 * (?D div 2 mod 2 ^ n) + (if odd ?D then 1 else 0) = ?D mod 2 ^ Suc n"
    using mod_mult2_eq [of ?D 2 "2 ^ n"] by (simp add: mod_2_eq_odd)
  also have "7 - (off + n) = 8 - off - Suc n" by simp
  finally show ?case .
qed

lemma split_lead:
  assumes "n < 32" and "s < 2"
  shows "(64 * c + 32 * s + n) div 64 = (c::nat)" and "(64 * c + 32 * s + n) div 32 mod 2 = s"
    and "(64 * c + 32 * s + n) mod 32 = n"
proof -
  have "(64 * c + (32 * s + n)) div 64 = c"
    using assms by (subst div_mult_self4) simp_all
  then show "(64 * c + 32 * s + n) div 64 = c" by (simp only: add.assoc)
  have e: "64 * c + 32 * s + n = 32 * (2 * c + s) + n" by simp
  show "(64 * c + 32 * s + n) mod 32 = n"
    unfolding e mod_mult_self4 using assms by simp
  have "(64 * c + 32 * s + n) div 32 = 2 * c + s"
    unfolding e using assms by (subst div_mult_self4) simp_all
  then show "(64 * c + 32 * s + n) div 32 mod 2 = s" using assms by simp
qed

lemma parse_uint_step: "push_bit 8 res OR ucast (b :: u8) = res * 256 + of_nat (unat b)" for res :: u64
proof -
  have "bit (ucast b :: u64) n \<Longrightarrow> n < 8" for n
    by (auto simp: bit_ucast_iff dest: bit_imp_le_length)
  then have "push_bit 8 res OR ucast b = push_bit 8 res + ucast b"
    by (intro disjunctive_add [symmetric]) (force simp: bit_push_bit_iff)
  then show ?thesis by (simp add: push_bit_eq_mult)
qed

lemma parse_uint_eq: "parse_uint bs = Ok (bs, of_nat (be_uint bs))"
proof -
  have "foldl (\<lambda>res byte. push_bit 8 res OR ucast byte) acc bs = acc * 256 ^ length bs + (of_nat (be_uint bs) :: u64)" for acc
    by (induction bs arbitrary: acc) (simp_all add: parse_uint_step algebra_simps)
  from this [of 0] show ?thesis by (simp add: parse_uint_def)
qed

lemma ber_ok_P: "ber_ok (StructureTag c i (PL_P v)) \<Longrightarrow> i \<le> 30 \<and> length v < 2 ^ 64"
  by (auto simp: ber_ok_def)

lemma ber_ok_C:
  assumes "ber_ok (StructureTag c i (PL_C ts))"
  shows "i \<le> 30" and "length (concat (map ber ts)) < 2 ^ 64" and "\<And>t. t \<in> set ts \<Longrightarrow> ber_ok t"
proof -
  show "i \<le> 30" and len: "length (concat (map ber ts)) < 2 ^ 64"
    using assms by (auto simp: ber_ok_def Let_def)
  fix t assume "t \<in> set ts"
  then show "ber_ok t"
    using assms le_less_trans [OF length_ber_element len] by (auto simp: ber_ok_def list_all_iff)
qed

lemma ber_type_low: "i \<le> 30 \<Longrightarrow> \<exists>b. ber_type c s i = [b]"
  by (simp add: ber_type_def Let_def)

lemma ber_length_ne [simp]: "ber_length n \<noteq> []"
  by (simp add: ber_length_def)

lemma ber_ne: "ber t \<noteq> []"
  by (cases t rule: ber.cases) (simp_all add: Let_def)

context nom_streaming_doc
begin

lemma parse_type_header_Nil: "parse_type_header S [] = Err Incomplete"
  by (simp add: parse_type_header_def class_bits_def bits tuple3 map_opt_class bits_take_u8
      bits_doc_def tuple3_doc_def map_opt_doc_def bits_take_doc_def)

lemma parse_type_header_Cons:
  "parse_type_header S (b # r) =
     (case (TagClass_from_u8 (of_nat (unat b div 64)), TagStructure_from_u8 (of_nat (unat b div 32 mod 2))) of
        (Some c, Some s) \<Rightarrow> Ok (r, c, s, of_nat (unat b mod 32))
      | _ \<Rightarrow> Err Error)"
proof -
  have "unat b < 256" using unsigned_less [where 'a = nat, of b] by simp
  then have "unat b div 64 mod 4 = unat b div 64" by (simp add: div_less_iff_less_mult)
  then show ?thesis
    by (simp add: parse_type_header_def class_bits_def pc_bit_def tagnr_bits_def bits tuple3
        map_opt_class map_opt_structure bits_take_u8 bits_take_u64 bits_doc_def tuple3_doc_def
        map_opt_doc_def bits_take_doc_def bits_value_byte
        del: TagClass_from_u8.simps TagStructure_from_u8.simps split: option.split)
qed

lemma parse_type_header_ber:
  assumes "i \<le> 30"
  shows "parse_type_header S (ber_type c s i @ r) = Ok (r, c, s, i)"
proof -
  let ?B = "64 * unat (TagClass_u8 c) + 32 * unat (TagStructure_u8 s) + unat i"
  have i: "unat i < 32" using assms by (simp add: word_le_nat_alt)
  have s: "unat (TagStructure_u8 s) < 2" by (cases s) simp_all
  have "unat (TagClass_u8 c) < 4" by (cases c) simp_all
  with s i have "?B < 256" by linarith
  then have u: "unat (of_nat ?B :: u8) = ?B" by (simp only: unat_of_nat) simp
  note split_lead [OF i s, of "unat (TagClass_u8 c)"]
  then show ?thesis
    using assms by (simp add: ber_type_def Let_def parse_type_header_Cons u
        del: TagClass_from_u8.simps TagStructure_from_u8.simps of_nat_add of_nat_mult)
qed

lemma parse_length_Nil: "parse_length S [] = Err Incomplete"
  by (simp add: parse_length_def be_u8 be_u8_doc_def)

lemma parse_length_ber:
  assumes "n < 2 ^ 64"
  shows "parse_length S (ber_length n @ r) = Ok (r, of_nat n)"
proof (cases "n < 128")
  case True
  then have u: "unat (of_nat n :: u8) = n" by (simp add: unat_of_nat)
  then have "(ucast (of_nat n :: u8) :: usize) = of_nat n" by (metis of_nat_unat)
  with u True show ?thesis
    by (simp add: ber_length_def parse_length_def be_u8 be_u8_doc_def word_less_nat_alt)
next
  case False
  let ?k = "nbytes n"
  have k: "?k \<le> 8" using nbytes_le [of n 8] assms by simp
  then have u: "unat (of_nat (128 + ?k) :: u8) = 128 + ?k" by (simp only: unat_of_nat) simp
  have "of_nat (128 + ?k) - 128 = (of_nat ?k :: u8)" by simp
  moreover have "unat (of_nat ?k :: u8) = ?k" using k by (intro count_u8) simp_all
  moreover have "be_uint (be_bytes ?k n) = n" using nbytes_upper [of n] by (simp add: be_uint_be_bytes)
  ultimately show ?thesis
    using False u by (simp add: ber_length_def parse_length_def be_u8 be_u8_doc_def word_less_nat_alt
        take take_doc_def parse_uint_eq del: of_nat_add)
qed


text \<open>Header and length take at least two bytes off the input.\<close>

lemma header_length:
  assumes "ns_tuple2 S (parse_type_header S) (parse_length S) i = Ok (r, (c, s, t), len)"
  obtains b l w where "i = b # l # w" and "length r \<le> length w" and "\<exists>p. w = p @ r"
    and "\<And>x. ns_tuple2 S (parse_type_header S) (parse_length S) (i @ x) = Ok (r @ x, (c, s, t), len)"
proof -
  obtain b i' where i: "i = b # i'"
    using assms by (cases i) (auto simp: tuple2 tuple2_doc_def parse_type_header_Nil)
  have h: "parse_type_header S (b # i'') = Ok (i'', c, s, t)" for i''
    using assms i by (auto simp: tuple2 tuple2_doc_def parse_type_header_Cons and_then_eq_Ok_iff
        simp del: TagClass_from_u8.simps TagStructure_from_u8.simps split: option.splits)
  then have l: "parse_length S i' = Ok (r, len)"
    using assms i by (auto simp: tuple2 tuple2_doc_def and_then_eq_Ok_iff)
  obtain d w where i': "i' = d # w"
    using l by (cases i') (auto simp: parse_length_Nil)
  have "length r \<le> length w \<and> (\<forall>x. parse_length S (i' @ x) = Ok (r @ x, len))"
    using l unfolding i' by (auto simp: parse_length_def be_u8 be_u8_doc_def take take_doc_def
        parse_uint_eq Let_def split: if_splits)
  moreover have "\<exists>p. w = p @ r"
    using l unfolding i' by (auto simp: parse_length_def be_u8 be_u8_doc_def take take_doc_def
        parse_uint_eq Let_def split: if_splits) (metis append_take_drop_id)
  ultimately show thesis
    using h that [of b d w] unfolding i i' by (simp add: tuple2 tuple2_doc_def)
qed

text \<open>The equations of the source, without the tests of the model.\<close>

lemma parse_tag_unfold:
  "parse_tag S i =
     (case ns_tuple2 S (parse_type_header S) (parse_length S) i of
        Err e \<Rightarrow> Err e
      | Ok (i', (class, structure, ident), len) \<Rightarrow>
          and_then (ns_take S (unat len) i') (\<lambda>(j, content).
            case structure of
              Primitive \<Rightarrow> Ok (j, StructureTag class ident (PL_P content))
            | Constructed \<Rightarrow>
                and_then (parse_content S content []) (\<lambda>tv. Ok (j, StructureTag class ident (PL_C tv)))))"
proof -
  have "length content < length i"
    if "ns_tuple2 S (parse_type_header S) (parse_length S) i = Ok (i', (c, s, t), len)"
      and "ns_take S (unat len) i' = Ok (j, content)" for i' c s t len j content
    using that(1)
  proof (rule header_length)
    fix b l w assume "i = b # l # w" and "length i' \<le> length w"
    with that(2) show ?thesis by (auto simp: take take_doc_def split: if_splits)
  qed
  then show ?thesis
    by (subst parse_tag.simps) (auto split: result.splits TagStructure.splits)
qed

lemma parse_tag_OkE:
  assumes "parse_tag S i = Ok (j, t)"
  obtains i' c s ti len content where
    "ns_tuple2 S (parse_type_header S) (parse_length S) i = Ok (i', (c, s, ti), len)"
    and "ns_take S (unat len) i' = Ok (j, content)"
proof -
  obtain i' c s ti len where
    h: "ns_tuple2 S (parse_type_header S) (parse_length S) i = Ok (i', (c, s, ti), len)"
    using assms unfolding parse_tag_unfold by (auto split: result.splits)
  with assms obtain content where "ns_take S (unat len) i' = Ok (j, content)"
    unfolding parse_tag_unfold by (cases s) (auto simp: and_then_eq_Ok_iff)
  with h show thesis by (rule that)
qed

lemma parse_tag_rest: "parse_tag S i = Ok (j, t) \<Longrightarrow> length j + 2 \<le> length i"
proof -
  assume ok: "parse_tag S i = Ok (j, t)"
  then obtain i' c s ti len content where
    h: "ns_tuple2 S (parse_type_header S) (parse_length S) i = Ok (i', (c, s, ti), len)"
    and j: "ns_take S (unat len) i' = Ok (j, content)"
    by (rule parse_tag_OkE)
  from h show ?thesis
  proof (rule header_length)
    fix b l w assume "i = b # l # w" and "length i' \<le> length w"
    with j show ?thesis by (auto simp: take take_doc_def split: if_splits)
  qed
qed

lemma parse_tag_suffix:
  assumes "parse_tag S i = Ok (j, t)"
  shows "\<exists>c. i = c @ j"
proof -
  obtain i' c s ti len content where
    h: "ns_tuple2 S (parse_type_header S) (parse_length S) i = Ok (i', (c, s, ti), len)"
    and j: "ns_take S (unat len) i' = Ok (j, content)"
    using assms by (rule parse_tag_OkE)
  have "i' = content @ j" using j by (auto simp: take take_doc_def split: if_splits)
  moreover from h have "\<exists>p. i = p @ i'"
    by (rule header_length) (metis append_Cons)
  ultimately show ?thesis by (metis append.assoc)
qed

lemma parse_content_unfold:
  "parse_content S content tv =
     (if content = [] then Ok tv
      else and_then (parse_tag S content) (\<lambda>(j, sub). parse_content S j (tv @ [sub])))"
  by (subst parse_content.simps) (auto dest: parse_tag_rest split: result.splits)

text \<open>More input after a complete value does not change it.\<close>

lemma parse_tag_extend:
  assumes "parse_tag S i = Ok (j, t)"
  shows "parse_tag S (i @ x) = Ok (j @ x, t)"
proof -
  obtain i' c s ti len content where
    h: "ns_tuple2 S (parse_type_header S) (parse_length S) i = Ok (i', (c, s, ti), len)"
    and j: "ns_take S (unat len) i' = Ok (j, content)"
    using assms by (rule parse_tag_OkE)
  from j have "ns_take S (unat len) (i' @ x) = Ok (j @ x, content)"
    by (auto simp: take take_doc_def split: if_splits)
  moreover from h have "ns_tuple2 S (parse_type_header S) (parse_length S) (i @ x) = Ok (i' @ x, (c, s, ti), len)"
    by (rule header_length)
  ultimately show ?thesis
    using assms h j unfolding parse_tag_unfold by (cases s) (auto simp: and_then_eq_Ok_iff)
qed


lemma header_ber:
  assumes "i \<le> 30" and "n < 2 ^ 64"
  shows "ns_tuple2 S (parse_type_header S) (parse_length S) (ber_type c s i @ ber_length n @ r) =
    Ok (r, (c, s, i), of_nat n)"
  by (simp add: tuple2 tuple2_doc_def parse_type_header_ber [OF assms(1)] parse_length_ber [OF assms(2)])

lemma take_of_nat: "n < 2 ^ 64 \<Longrightarrow> length v = n \<Longrightarrow>
    ns_take S (unat (of_nat n :: usize)) (v @ r) = Ok (r, v)"
  by (simp add: take take_doc_def unat_of_nat)

lemma parse_content_ber:
  assumes "\<And>t r. t \<in> set ts \<Longrightarrow> parse_tag S (ber t @ r) = Ok (r, t)"
  shows "parse_content S (concat (map ber ts)) tv = Ok (tv @ ts)"
  using assms
proof (induction ts arbitrary: tv)
  case Nil
  show ?case by (simp add: parse_content_unfold)
next
  case (Cons t ts)
  then show ?case
    by (subst parse_content_unfold) (simp add: ber_ne)
qed

lemma parse_tag_ber:
  "ber_ok t \<Longrightarrow> parse_tag S (ber t @ r) = Ok (r, t)"
  and "pl = PL_C ts \<Longrightarrow> (\<And>t. t \<in> set ts \<Longrightarrow> ber_ok t) \<Longrightarrow>
    (\<And>t r. t \<in> set ts \<Longrightarrow> parse_tag S (ber t @ r) = Ok (r, t))"
proof (induction t and pl arbitrary: r and ts)
  case (StructureTag c i p)
  show ?case
  proof (cases p)
    case (PL_P v)
    with StructureTag.prems have "i \<le> 30" "length v < 2 ^ 64"
      using ber_ok_P by auto
    with PL_P show ?thesis
      by (simp add: parse_tag_unfold header_ber take_of_nat)
  next
    case (PL_C us)
    note ok = ber_ok_C [OF StructureTag.prems [unfolded PL_C]]
    have "parse_content S (concat (map ber us)) [] = Ok us"
      using parse_content_ber [of us "[]"] StructureTag.IH [OF PL_C ok(3)] by simp
    with PL_C ok(1,2) show ?thesis
      by (simp add: parse_tag_unfold header_ber take_of_nat Let_def)
  qed
next
  case (PL_P v)
  then show ?case by simp
next
  case (PL_C us)
  then show ?case by simp
qed

text \<open>A proper prefix of an encoding.\<close>

lemma parse_length_prefix:
  assumes "n < 2 ^ 64" and "m < length (ber_length n)"
  shows "parse_length S (List.take m (ber_length n)) = Err Incomplete"
proof (cases m)
  case 0
  then show ?thesis by (simp add: parse_length_Nil)
next
  case (Suc m')
  with assms(2) have long: "\<not> n < 128" by (auto simp: ber_length_def)
  have k: "nbytes n \<le> 8" using nbytes_le [of n 8] assms(1) by simp
  then have u: "unat (of_nat (128 + nbytes n) :: u8) = 128 + nbytes n" by (simp only: unat_of_nat) simp
  have "of_nat (128 + nbytes n) - 128 = (of_nat (nbytes n) :: u8)" by simp
  moreover have "unat (of_nat (nbytes n) :: u8) = nbytes n" using k by (intro count_u8) simp_all
  ultimately show ?thesis
    using long u Suc assms(2) by (simp add: ber_length_def parse_length_def be_u8 be_u8_doc_def
        word_less_nat_alt take take_doc_def del: of_nat_add)
qed

lemma parse_tag_prefix_aux:
  assumes i: "i \<le> 30" and v: "length v < 2 ^ 64"
    and m: "m < length (ber_type c s i @ ber_length (length v) @ v)"
  shows "parse_tag S (List.take m (ber_type c s i @ ber_length (length v) @ v)) = Err Incomplete"
proof -
  obtain b where b: "ber_type c s i = [b]"
    using ber_type_low [OF i] by blast
  have h: "parse_type_header S (b # r) = Ok (r, c, s, i)" for r
    using parse_type_header_ber [OF i, of c s r] b by simp
  let ?l = "ber_length (length v)"
  show ?thesis
  proof (cases m)
    case 0
    then show ?thesis by (simp add: parse_tag_unfold tuple2 tuple2_doc_def parse_type_header_Nil)
  next
    case (Suc m')
    show ?thesis
    proof (cases "m' < length ?l")
      case True
      then have "parse_length S (List.take m' ?l) = Err Incomplete"
        using v by (intro parse_length_prefix)
      with True Suc b h show ?thesis by (simp add: parse_tag_unfold tuple2 tuple2_doc_def)
    next
      case False
      then obtain d where m': "m' = length ?l + d" by (metis le_add_diff_inverse not_less)
      with m Suc b have "d < length v" by simp
      then have "ns_take S (unat (of_nat (length v) :: usize)) (List.take d v) = Err Incomplete"
        using v by (simp add: take take_doc_def unat_of_nat)
      moreover have "List.take m (ber_type c s i @ ?l @ v) = ber_type c s i @ ?l @ List.take d v"
        using Suc b m' by simp
      ultimately show ?thesis
        using header_ber [OF i v, of c s "List.take d v"] by (simp add: parse_tag_unfold)
    qed
  qed
qed

lemma parse_tag_prefix_outer:
  assumes "st_id t \<le> 30" and "length (ber t) < 2 ^ 64" and "m < length (ber t)"
  shows "parse_tag S (List.take m (ber t)) = Err Incomplete"
  using assms
proof (cases t rule: ber.cases)
  case (1 c i v)
  with assms show ?thesis using parse_tag_prefix_aux [of i v] by simp
next
  case (2 c i ts)
  with assms show ?thesis using parse_tag_prefix_aux [of i "concat (map ber ts)"] by (simp add: Let_def)
qed

lemma parse_tag_prefix:
  "ber_ok t \<Longrightarrow> m < length (ber t) \<Longrightarrow> parse_tag S (List.take m (ber t)) = Err Incomplete"
  by (rule parse_tag_prefix_outer) (cases t rule: low_ids.cases, auto simp: ber_ok_def)

end

subsection \<open>Properties\<close>

text \<open>
  Claim C20. The encoder appends the BER encoding of the tag to the buffer (identifier octets,
  the shortest definite length, contents) for every tag whose encoding fits in memory; none of
  its \<open>unwrap()\<close> calls panics, also for tag numbers above 30.
\<close>

theorem encode_into_is_ber:
  "length (ber t) < 2 ^ 64 \<Longrightarrow> encode_into buf t = Some (buf @ ber t)"
  by (simp add: encode_into_def encode_eq)

theorem encode_into_is_ber_witness:
  "encode_into [7] (StructureTag Context 201 (PL_C [StructureTag Universal 2 (PL_P [6, 80])])) =
     Some [7, 0xBF, 0x81, 0x49, 4, 2, 2, 6, 80]"
proof -
  let ?t = "StructureTag Context 201 (PL_C [StructureTag Universal 2 (PL_P [6, 80])])"
  have e: "ber ?t = [0xBF, 0x81, 0x49, 4, 2, 2, 6, 80]" by code_simp
  show ?thesis using encode_into_is_ber [of ?t "[7]"] by (simp add: e del: ber.simps)
qed

text \<open>
  Claim C19. Decoding inverts encoding: for tags with numbers up to 30 the encoder produces
  bytes from which the parser returns the same tag, leaving exactly the bytes that follow.
\<close>

theorem parse_encode_roundtrip:
  assumes "nom_streaming_doc S" and "ber_ok t"
  shows "\<exists>e. encode_into [] t = Some e \<and> (\<forall>r. parse_tag S (e @ r) = Ok (r, t))"
  using nom_streaming_doc.parse_tag_ber(1) [OF assms] assms(2)
  by (simp add: encode_into_def encode_eq ber_ok_def)

theorem parse_encode_roundtrip_witness:
  "\<exists>e. encode_into [] (StructureTag Universal 16 (PL_C [StructureTag Context 3 (PL_P [9])])) = Some e \<and>
     (\<forall>r. parse_tag nom_streaming_ref (e @ r) =
        Ok (r, StructureTag Universal 16 (PL_C [StructureTag Context 3 (PL_P [9])])))"
proof -
  let ?t = "StructureTag Universal 16 (PL_C [StructureTag Context 3 (PL_P [9])])"
  have "ber ?t = [48, 3, 131, 1, 9]" by code_simp
  then have "ber_ok ?t" by (simp add: ber_ok_def del: ber.simps)
  from parse_encode_roundtrip [OF nsr.nom_streaming_doc_axioms this] show ?thesis .
qed

text \<open>
  Claim C21. Framing: if the number of a tag is at most 30, whatever the elements inside it, then the parser reports
  \<open>Incomplete\<close> on every proper prefix of its encoding, never an error and never a value, so a reader that
  waits for more input is right to do so. Tags with greater numbers are not covered: the parser does not know
  the form in which the encoder writes them (\<open>high_tag_misread\<close> below).
\<close>

theorem parse_prefix_incomplete:
  assumes "nom_streaming_doc S" and "st_id t \<le> 30" and "length (ber t) < 2 ^ 64" and "m < length (ber t)"
  shows "Parser_parse S (take m (ber t)) = Err Incomplete"
  using nom_streaming_doc.parse_tag_prefix_outer [OF assms] by (simp add: Parser_parse_def)

theorem parse_prefix_incomplete_witness:
  "Parser_parse nom_streaming_ref (take 5 (ber (StructureTag Universal 16 (PL_C [StructureTag Context 3 (PL_P [9, 8])])))) =
     Err Incomplete"
proof -
  let ?t = "StructureTag Universal 16 (PL_C [StructureTag Context 3 (PL_P [9, 8])])"
  have "ber ?t = [48, 4, 131, 2, 9, 8]" by code_simp
  then have "st_id ?t \<le> 30" and "length (ber ?t) < 2 ^ 64" and "5 < length (ber ?t)" by (simp_all del: ber.simps)
  from parse_prefix_incomplete [OF nsr.nom_streaming_doc_axioms this] show ?thesis .
qed

text \<open>
  A tag with the number 32 and 40 content octets: on a prefix of its encoding the parser returns a value, a tag with
  the number 31.
\<close>

theorem high_tag_misread:
  "Parser_parse nom_streaming_ref (take 40 (ber (StructureTag Context 32 (PL_P (replicate 40 0))))) =
     Ok (replicate 6 0, StructureTag Context 31 (PL_P (40 # replicate 31 0)))"
  by code_simp

text \<open>
  A value the parser has returned, from whatever peer, does not depend on the bytes
  after it, and at least two bytes were consumed, so a decoder that drops the consumed bytes
  and parses again makes progress.
\<close>

theorem parse_tag_stable:
  assumes "nom_streaming_doc S" and "parse_tag S i = Ok (j, t)"
  shows "parse_tag S (i @ x) = Ok (j @ x, t) \<and> length j + 2 \<le> length i"
  using nom_streaming_doc.parse_tag_extend [OF assms] nom_streaming_doc.parse_tag_rest [OF assms]
  by simp

theorem parse_tag_stable_witness:
  "parse_tag nom_streaming_ref ([4, 1, 65, 99] @ [1, 2]) = Ok ([99] @ [1, 2], StructureTag Universal 4 (PL_P [65]))"
proof -
  have "parse_tag nom_streaming_ref [4, 1, 65, 99] = Ok ([99], StructureTag Universal 4 (PL_P [65]))"
    by code_simp
  from parse_tag_stable [OF nsr.nom_streaming_doc_axioms this, of "[1, 2]"] show ?thesis by simp
qed

end
