(* ===== verification/Search_Filter.thy ===== *)
theory Search_Filter
  imports Lber_Parse
begin

text \<open>
  The search filter parser (\<open>src/filter.rs\<close>): every parser of the file, composed with the
  combinators of nom as in the source (the record \<open>nom_complete\<close> is the parameter), and the
  \<open>Unescaper\<close> automaton for \<open>\NN\<close> escapes. The parsers of the source call each other through
  \<open>many0\<close> and \<open>alt\<close>; the model tests, where a parser is handed to a combinator inside this
  recursion, that it is applied to no more input than its caller had, which makes the recursion
  well founded. The lemmas of the locale \<open>nom_complete_doc\<close> remove these tests.
\<close>

unbundle bit_operations_syntax

datatype Unescaper = WantFirst | WantSecond u8 | Value u8 | UnescError

record nom_complete =
  nc_tag :: "bytes \<Rightarrow> (bytes, bytes) parser"
  nc_take_while :: "(u8 \<Rightarrow> bool) \<Rightarrow> (bytes, bytes) parser"
  nc_take_while1 :: "(u8 \<Rightarrow> bool) \<Rightarrow> (bytes, bytes) parser"
  nc_digit1 :: "(bytes, bytes) parser"
  nc_be_u8 :: "(bytes, u8) parser"
  nc_is_alphabetic :: "u8 \<Rightarrow> bool"
  nc_is_alphanumeric :: "u8 \<Rightarrow> bool"
  nc_is_hex_digit :: "u8 \<Rightarrow> bool"
  nc_Tag :: "Tag comb"
  nc_Tags :: "Tag list comb"
  nc_bytes :: "bytes comb"
  nc_unit :: "unit comb"
  nc_u8 :: "u8 comb"
  nc_Tags_Tag :: "(Tag list, Tag) comb2"
  nc_Tag_Tag :: "(Tag, Tag) comb2"
  nc_parts :: "(bytes list, bytes list) comb2"
  nc_fold :: "(u8, Unescaper \<times> bytes) comb2"
  nc_unesc :: "(Unescaper \<times> bytes, bytes) comb2"

subsection \<open>Constants\<close>

definition AND_FILT :: u64 where [opsimps]: "AND_FILT = 0"
definition OR_FILT :: u64 where [opsimps]: "OR_FILT = 1"
definition NOT_FILT :: u64 where [opsimps]: "NOT_FILT = 2"
definition EQ_MATCH :: u64 where [opsimps]: "EQ_MATCH = 3"
definition SUBSTR_MATCH :: u64 where [opsimps]: "SUBSTR_MATCH = 4"
definition GTE_MATCH :: u64 where [opsimps]: "GTE_MATCH = 5"
definition LTE_MATCH :: u64 where [opsimps]: "LTE_MATCH = 6"
definition PRES_MATCH :: u64 where [opsimps]: "PRES_MATCH = 7"
definition APPROX_MATCH :: u64 where [opsimps]: "APPROX_MATCH = 8"
definition EXT_MATCH :: u64 where [opsimps]: "EXT_MATCH = 9"
definition SUB_INITIAL :: u64 where [opsimps]: "SUB_INITIAL = 0"
definition SUB_ANY :: u64 where [opsimps]: "SUB_ANY = 1"
definition SUB_FINAL :: u64 where [opsimps]: "SUB_FINAL = 2"

subsection \<open>Attribute descriptions\<close>

definition is_alnum_hyphen :: "nom_complete \<Rightarrow> u8 \<Rightarrow> bool" where
  "is_alnum_hyphen N c \<longleftrightarrow> nc_is_alphanumeric N c \<or> c = of_char (CHR ''-'')"

definition number :: "nom_complete \<Rightarrow> (bytes, bytes) parser" where
  "number N = c_verify (nc_bytes N) (nc_digit1 N) (\<lambda>d. length d = 1 \<or> hd d \<noteq> of_char (CHR ''0''))"

definition numericoid :: "nom_complete \<Rightarrow> (bytes, bytes) parser" where
  "numericoid N = c_recognize (nc_unit N) (\<lambda>i.
     and_then (number N i) (\<lambda>(i, _).
     and_then (c_many0 (nc_bytes N) (c_preceded (nc_bytes N) (nc_tag N (str ''.'')) (number N)) i) (\<lambda>(i, _).
       Ok (i, ()))))"

definition descr :: "nom_complete \<Rightarrow> (bytes, bytes) parser" where
  "descr N = c_recognize (nc_unit N) (\<lambda>i.
     and_then (c_verify (nc_u8 N) (nc_be_u8 N) (nc_is_alphabetic N) i) (\<lambda>(i, _).
     and_then (nc_take_while N (is_alnum_hyphen N) i) (\<lambda>(i, _).
       Ok (i, ()))))"

definition attributetype :: "nom_complete \<Rightarrow> (bytes, bytes) parser" where
  "attributetype N = c_alt (nc_bytes N) [numericoid N, descr N]"

definition attributedescription :: "nom_complete \<Rightarrow> (bytes, bytes) parser" where
  "attributedescription N = c_recognize (nc_unit N) (\<lambda>i.
     and_then (attributetype N i) (\<lambda>(i, _).
     and_then (c_many0 (nc_bytes N)
         (c_preceded (nc_bytes N) (nc_tag N (str '';'')) (nc_take_while1 N (is_alnum_hyphen N))) i) (\<lambda>(i, _).
       Ok (i, ()))))"

subsection \<open>Assertion values\<close>

definition hex_value :: "u8 \<Rightarrow> u8" where
  "hex_value c = c - (if c \<le> of_char (CHR ''9'') then of_char (CHR ''0'')
                      else (c AND 0x20) + of_char (CHR ''A'') - 10)"

fun feed :: "nom_complete \<Rightarrow> Unescaper \<Rightarrow> u8 \<Rightarrow> Unescaper" where
  "feed N UnescError c = UnescError"
| "feed N WantFirst c = (if nc_is_hex_digit N c then WantSecond (hex_value c) else UnescError)"
| "feed N (WantSecond partial) c =
     (if nc_is_hex_digit N c then Value (push_bit 4 partial + hex_value c) else UnescError)"
| "feed N (Value v) c = (if c \<noteq> 0x5C then Value c else WantFirst)"

definition is_value_char :: "u8 \<Rightarrow> bool" where
  "is_value_char c \<longleftrightarrow> c \<noteq> 0 \<and> c \<noteq> of_char (CHR ''('') \<and> c \<noteq> of_char (CHR '')'') \<and> c \<noteq> of_char (CHR ''*'')"

definition unescaped_step :: "nom_complete \<Rightarrow> Unescaper \<times> bytes \<Rightarrow> u8 \<Rightarrow> Unescaper \<times> bytes" where
  "unescaped_step N = (\<lambda>(u, vec) c.
     let u = feed N u c in (u, case u of Value c \<Rightarrow> vec @ [c] | _ \<Rightarrow> vec))"

definition unescaped_finish :: "Unescaper \<times> bytes \<Rightarrow> bytes option" where
  "unescaped_finish = (\<lambda>(u, vec). case u of Value _ \<Rightarrow> Some vec | _ \<Rightarrow> None)"

definition unescaped :: "nom_complete \<Rightarrow> (bytes, bytes) parser" where
  "unescaped N =
     c_map_res (nc_unesc N)
       (c_fold_many0 (nc_fold N) (c_verify (nc_u8 N) (nc_be_u8 N) is_value_char)
          (Value 0, []) (unescaped_step N))
       unescaped_finish"

subsection \<open>Items\<close>

definition filtertag :: "bytes \<Rightarrow> u64 panicking" where
  "filtertag filterop =
     (if filterop = str ''>='' then Some GTE_MATCH
      else if filterop = str ''<='' then Some LTE_MATCH
      else if filterop = str ''~='' then Some APPROX_MATCH
      else panic)"

definition non_eq :: "nom_complete \<Rightarrow> (bytes, Tag) parser" where
  "non_eq N i =
     and_then (attributedescription N i) (\<lambda>(i, attr).
     and_then (c_alt (nc_bytes N) [nc_tag N (str ''>=''), nc_tag N (str ''<=''), nc_tag N (str ''~='')] i) (\<lambda>(i, filterop).
     and_then (unescaped N i) (\<lambda>(i, val).
       case filtertag filterop of
         None \<Rightarrow> Err Panicked
       | Some ident \<Rightarrow> Ok (i, Tag_Sequence ident Context [OctetString attr, OctetString val]))))"

definition mid_final_check :: "bytes list \<Rightarrow> bytes list option" where
  "mid_final_check v =
     (if fold (\<lambda>(n, ve) acc. acc \<or> ve = [] \<and> n + 1 \<noteq> length v) (enumerate 0 v) False
      then None else Some v)"

fun substr_loop :: "nat \<Rightarrow> nat \<Rightarrow> bytes list \<Rightarrow> Tag list \<Rightarrow> Tag list" where
  "substr_loop n i [] inner = inner"
| "substr_loop n i (sub_elem # rest) inner =
     (if sub_elem = [] then inner
      else substr_loop n (i + 1) rest
             (inner @ [Tag_OctetString (if i + 1 \<noteq> n then SUB_ANY else SUB_FINAL) Context sub_elem]))"

definition eq_tag :: "bytes \<Rightarrow> bytes \<Rightarrow> bytes list \<Rightarrow> Tag" where
  "eq_tag attr initial mid_final =
     (if mid_final = [] then
        Tag_Sequence EQ_MATCH Context [OctetString attr, OctetString initial]
      else if initial = [] \<and> length mid_final = 1 \<and> mid_final ! 0 = [] then
        Tag_OctetString PRES_MATCH Context attr
      else
        let inner = (if initial \<noteq> [] then [Tag_OctetString SUB_INITIAL Context initial] else []);
            inner = substr_loop (length mid_final) 0 mid_final inner
        in Tag_Sequence SUBSTR_MATCH Context [OctetString attr, Sequence inner])"

definition eq_f :: "nom_complete \<Rightarrow> (bytes, Tag) parser" where
  "eq_f N i =
     and_then (attributedescription N i) (\<lambda>(i, attr).
     and_then (nc_tag N (str ''='') i) (\<lambda>(i, _).
     and_then (unescaped N i) (\<lambda>(i, initial).
     and_then (c_map_res (nc_parts N)
         (c_many0 (nc_bytes N) (c_preceded (nc_bytes N) (nc_tag N (str ''*'')) (unescaped N)))
         mid_final_check i) (\<lambda>(i, mid_final).
       Ok (i, eq_tag attr initial mid_final)))))"

definition extensible_tag :: "bytes option \<Rightarrow> bytes option \<Rightarrow> bytes \<Rightarrow> bool \<Rightarrow> Tag" where
  "extensible_tag mrule attr val dn =
     (let inner = [];
          inner = (case mrule of Some mrule \<Rightarrow> inner @ [Tag_OctetString 1 Context mrule] | None \<Rightarrow> inner);
          inner = (case attr of Some attr \<Rightarrow> inner @ [Tag_OctetString 2 Context attr] | None \<Rightarrow> inner);
          inner = inner @ [Tag_OctetString 3 Context val];
          inner = (if dn then inner @ [Tag_Boolean 4 Context dn] else inner)
      in Tag_Sequence EXT_MATCH Context inner)"

definition attr_dn_mrule :: "nom_complete \<Rightarrow> (bytes, Tag) parser" where
  "attr_dn_mrule N i =
     and_then (attributedescription N i) (\<lambda>(i, attr).
     and_then (c_opt (nc_bytes N) (nc_tag N (str '':dn'')) i) (\<lambda>(i, dn).
     and_then (c_opt (nc_bytes N) (c_preceded (nc_bytes N) (nc_tag N (str '':'')) (attributetype N)) i) (\<lambda>(i, mrule).
     and_then (nc_tag N (str '':='') i) (\<lambda>(i, _).
     and_then (unescaped N i) (\<lambda>(i, val).
       Ok (i, extensible_tag mrule (Some attr) val (dn \<noteq> None)))))))"

definition dn_mrule :: "nom_complete \<Rightarrow> (bytes, Tag) parser" where
  "dn_mrule N i =
     and_then (c_opt (nc_bytes N) (nc_tag N (str '':dn'')) i) (\<lambda>(i, dn).
     and_then (c_preceded (nc_bytes N) (nc_tag N (str '':'')) (attributetype N) i) (\<lambda>(i, mrule).
     and_then (nc_tag N (str '':='') i) (\<lambda>(i, _).
     and_then (unescaped N i) (\<lambda>(i, val).
       Ok (i, extensible_tag (Some mrule) None val (dn \<noteq> None))))))"

definition extensible :: "nom_complete \<Rightarrow> (bytes, Tag) parser" where
  "extensible N = c_alt (nc_Tag N) [attr_dn_mrule N, dn_mrule N]"

definition item :: "nom_complete \<Rightarrow> (bytes, Tag) parser" where
  "item N = c_alt (nc_Tag N) [eq_f N, non_eq N, extensible N]"

subsection \<open>Filters\<close>

function filter_f :: "nom_complete \<Rightarrow> (bytes, Tag) parser"
and filtercomp :: "nom_complete \<Rightarrow> (bytes, Tag) parser"
and filterlist :: "nom_complete \<Rightarrow> (bytes, Tag list) parser"
and and_f :: "nom_complete \<Rightarrow> (bytes, Tag) parser"
and or_f :: "nom_complete \<Rightarrow> (bytes, Tag) parser"
and not_f :: "nom_complete \<Rightarrow> (bytes, Tag) parser" where
  "filter_f N i = c_delimited (nc_Tag N) (nc_tag N (str ''(''))
     (\<lambda>j. if length j < length i then filtercomp N j else Err Failure) (nc_tag N (str '')'')) i"
| "filtercomp N i = c_alt (nc_Tag N)
     [\<lambda>j. if length j \<le> length i then and_f N j else Err Failure,
      \<lambda>j. if length j \<le> length i then or_f N j else Err Failure,
      \<lambda>j. if length j \<le> length i then not_f N j else Err Failure,
      item N] i"
| "filterlist N i = c_many0 (nc_Tag N)
     (\<lambda>j. if length j \<le> length i then filter_f N j else Err Failure) i"
| "and_f N i = c_map (nc_Tags_Tag N)
     (c_preceded (nc_Tags N) (nc_tag N (str ''&''))
        (\<lambda>j. if length j \<le> length i then filterlist N j else Err Failure))
     (\<lambda>tagv. Tag_Sequence AND_FILT Context tagv) i"
| "or_f N i = c_map (nc_Tags_Tag N)
     (c_preceded (nc_Tags N) (nc_tag N (str ''|''))
        (\<lambda>j. if length j \<le> length i then filterlist N j else Err Failure))
     (\<lambda>tagv. Tag_Sequence OR_FILT Context tagv) i"
| "not_f N i = c_map (nc_Tag_Tag N)
     (c_preceded (nc_Tag N) (nc_tag N (str ''!''))
        (\<lambda>j. if length j \<le> length i then filter_f N j else Err Failure))
     (\<lambda>tag. Tag_ExplicitTag NOT_FILT Context tag) i"
  by pat_completeness auto
termination
  by (relation "measures
      [\<lambda>x. case x of Inl (Inl (_, i)) \<Rightarrow> length i | Inl (Inr (Inl (_, i))) \<Rightarrow> length i
         | Inl (Inr (Inr (_, i))) \<Rightarrow> length i | Inr (Inl (_, i)) \<Rightarrow> length i
         | Inr (Inr (Inl (_, i))) \<Rightarrow> length i | Inr (Inr (Inr (_, i))) \<Rightarrow> length i,
       \<lambda>x. case x of Inl (Inl _) \<Rightarrow> 0 | Inl (Inr (Inl _)) \<Rightarrow> 3
         | Inl (Inr (Inr _)) \<Rightarrow> 1 | Inr _ \<Rightarrow> 2]") (auto simp: less_Suc_eq_le le_less)

declare filter_f.simps [simp del] filtercomp.simps [simp del] filterlist.simps [simp del]
  and_f.simps [simp del] or_f.simps [simp del] not_f.simps [simp del]

definition filtexpr :: "nom_complete \<Rightarrow> (bytes, Tag) parser" where
  "filtexpr N = c_alt (nc_Tag N) [filter_f N, item N]"

definition mv_filteritems :: "nom_complete \<Rightarrow> (bytes, Tag list) parser" where
  "mv_filteritems N = c_many1 (nc_Tag N)
     (c_delimited (nc_Tag N) (nc_tag N (str ''('')) (item N) (nc_tag N (str '')'')))"

definition mv_filterlist :: "nom_complete \<Rightarrow> (bytes, Tag) parser" where
  "mv_filterlist N = c_map (nc_Tags_Tag N) (mv_filteritems N) (\<lambda>tagv. Sequence tagv)"

definition mv_filtexpr :: "nom_complete \<Rightarrow> (bytes, Tag) parser" where
  "mv_filtexpr N = c_delimited (nc_Tag N) (nc_tag N (str ''('')) (mv_filterlist N) (nc_tag N (str '')''))"

text \<open>\<open>parse\<close> and \<open>parse_matched_values\<close>: the whole input must be a filter.\<close>

fun parse_all :: "(bytes, Tag) IResult \<Rightarrow> (Tag, unit) result panicking" where
  "parse_all (Ok (r, t)) = (if r = [] then Some (Ok t) else Some (Err ()))"
| "parse_all (Err Panicked) = panic"
| "parse_all (Err _) = Some (Err ())"

definition parse :: "nom_complete \<Rightarrow> bytes \<Rightarrow> (Tag, unit) result panicking" where
  "parse N input = parse_all (filtexpr N input)"

definition parse_matched_values :: "nom_complete \<Rightarrow> bytes \<Rightarrow> (Tag, unit) result panicking" where
  "parse_matched_values N input = parse_all (mv_filtexpr N input)"

subsection \<open>What the library documents\<close>

definition tag_doc :: "bytes \<Rightarrow> (bytes, bytes) parser" where
  "tag_doc t i = (if take (length t) i = t then Ok (drop (length t) i, t) else Err Error)"

definition take_while_doc :: "(u8 \<Rightarrow> bool) \<Rightarrow> (bytes, bytes) parser" where
  "take_while_doc f i = Ok (dropWhile f i, takeWhile f i)"

definition take_while1_doc :: "(u8 \<Rightarrow> bool) \<Rightarrow> (bytes, bytes) parser" where
  "take_while1_doc f i = (if takeWhile f i = [] then Err Error else Ok (dropWhile f i, takeWhile f i))"

definition number_doc :: "(bytes, u8) parser" where
  "number_doc i = (case i of [] \<Rightarrow> Err Error | b # r \<Rightarrow> Ok (r, b))"

definition ascii_digit :: "u8 \<Rightarrow> bool" where "ascii_digit = in_range 0x30 0x39"

definition ascii_alpha :: "u8 \<Rightarrow> bool" where
  "ascii_alpha c \<longleftrightarrow> in_range 0x41 0x5A c \<or> in_range 0x61 0x7A c"

definition ascii_hex :: "u8 \<Rightarrow> bool" where
  "ascii_hex c \<longleftrightarrow> ascii_digit c \<or> in_range 0x41 0x46 c \<or> in_range 0x61 0x66 c"

definition nom_complete_ref :: nom_complete where
  "nom_complete_ref = \<lparr> nc_tag = tag_doc, nc_take_while = take_while_doc,
     nc_take_while1 = take_while1_doc, nc_digit1 = take_while1_doc ascii_digit,
     nc_be_u8 = number_doc, nc_is_alphabetic = ascii_alpha,
     nc_is_alphanumeric = (\<lambda>c. ascii_alpha c \<or> ascii_digit c), nc_is_hex_digit = ascii_hex,
     nc_Tag = comb_ref, nc_Tags = comb_ref, nc_bytes = comb_ref, nc_unit = comb_ref, nc_u8 = comb_ref,
     nc_Tags_Tag = comb2_ref, nc_Tag_Tag = comb2_ref, nc_parts = comb2_ref, nc_fold = comb2_ref,
     nc_unesc = comb2_ref \<rparr>"

locale nom_complete_doc =
  fixes N :: nom_complete
  assumes tag: "nc_tag N = tag_doc"
    and take_while: "nc_take_while N = take_while_doc"
    and take_while1: "nc_take_while1 N = take_while1_doc"
    and digit1: "nc_digit1 N = take_while1_doc ascii_digit"
    and be_u8: "nc_be_u8 N = number_doc"
    and is_alphabetic: "nc_is_alphabetic N = ascii_alpha"
    and is_alphanumeric: "nc_is_alphanumeric N = (\<lambda>c. ascii_alpha c \<or> ascii_digit c)"
    and is_hex_digit: "nc_is_hex_digit N = ascii_hex"
    and comb_Tag: "comb_doc (nc_Tag N)" and comb_Tags: "comb_doc (nc_Tags N)"
    and comb_bytes: "comb_doc (nc_bytes N)" and comb_unit: "comb_doc (nc_unit N)"
    and comb_u8: "comb_doc (nc_u8 N)"
    and comb_Tags_Tag: "comb2_doc (nc_Tags_Tag N)" and comb_Tag_Tag: "comb2_doc (nc_Tag_Tag N)"
    and comb_parts: "comb2_doc (nc_parts N)" and comb_fold: "comb2_doc (nc_fold N)"
    and comb_unesc: "comb2_doc (nc_unesc N)"

interpretation ncr: nom_complete_doc nom_complete_ref
  by unfold_locales (simp_all add: nom_complete_ref_def comb_ref_doc comb2_ref_doc)

subsection \<open>Shrinking input\<close>

lemmas parser_splits = result.splits NomErr.splits option.splits prod.splits if_splits

lemma nonincreasingI: "(\<And>i r x. p i = Ok (r, x) \<Longrightarrow> length r \<le> length i) \<Longrightarrow> nonincreasing p"
  by (simp add: nonincreasing_def)

lemma nonincreasingD: "nonincreasing p \<Longrightarrow> p i = Ok (r, x) \<Longrightarrow> length r \<le> length i"
  by (simp add: nonincreasing_def)

named_theorems shrink \<open>parsers that return at most their input\<close>

lemma shrink_tag_doc [shrink]: "nonincreasing (tag_doc t)"
  by (auto simp: nonincreasing_def tag_doc_def split: if_splits)

lemma shrink_take_while_doc [shrink]: "nonincreasing (take_while_doc f)" "nonincreasing (take_while1_doc f)"
  by (auto simp: nonincreasing_def take_while_doc_def take_while1_doc_def length_dropWhile_le split: if_splits)

lemma shrink_number_doc [shrink]: "nonincreasing number_doc"
  by (auto simp: nonincreasing_def number_doc_def split: list.splits)

lemma shrink_preceded_doc [shrink]:
  "nonincreasing p \<Longrightarrow> nonincreasing q \<Longrightarrow> nonincreasing (preceded_doc p q)"
  by (fastforce simp: nonincreasing_def preceded_doc_def and_then_eq_Ok_iff intro: order_trans)

lemma shrink_delimited_doc [shrink]:
  "nonincreasing p \<Longrightarrow> nonincreasing q \<Longrightarrow> nonincreasing s \<Longrightarrow> nonincreasing (delimited_doc p q s)"
  by (fastforce simp: nonincreasing_def delimited_doc_def and_then_eq_Ok_iff intro: order_trans)

lemma shrink_verify_doc [shrink]: "nonincreasing p \<Longrightarrow> nonincreasing (verify_doc p f)"
  by (auto simp: nonincreasing_def verify_doc_def and_then_eq_Ok_iff split: if_splits)

lemma shrink_map_doc [shrink]:
  "nonincreasing p \<Longrightarrow> nonincreasing (map_doc p f)"
  "nonincreasing p \<Longrightarrow> nonincreasing (map_res_doc p h)"
  by (auto simp: nonincreasing_def map_doc_def map_res_doc_def and_then_eq_Ok_iff split: option.splits)

lemma shrink_opt_doc [shrink]: "nonincreasing p \<Longrightarrow> nonincreasing (opt_doc p)"
  by (auto simp: nonincreasing_def opt_doc_def split: parser_splits)

lemma shrink_recognize_doc [shrink]: "nonincreasing p \<Longrightarrow> nonincreasing (recognize_doc p)"
  by (auto simp: nonincreasing_def recognize_doc_def and_then_eq_Ok_iff)

lemma alt_doc_step:
  "alt_doc (p # q # ps) i = (if p i = Err Error then alt_doc (q # ps) i else p i)"
  by (simp split: result.split NomErr.split)

lemma alt_doc_Ok: "alt_doc ps i = Ok y \<Longrightarrow> \<exists>p \<in> set ps. p i = Ok y"
  by (induction ps rule: induct_list012) (auto simp: alt_doc_step simp del: alt_doc.simps(3) split: if_splits)

lemma alt_doc_Err: "alt_doc ps i = Err e \<Longrightarrow> e = Error \<or> (\<exists>p \<in> set ps. p i = Err e)"
  by (induction ps rule: induct_list012) (auto simp: alt_doc_step simp del: alt_doc.simps(3) split: if_splits)

lemma shrink_alt_doc [shrink]: "list_all nonincreasing ps \<Longrightarrow> nonincreasing (alt_doc ps)"
  by (auto intro!: nonincreasingI dest!: alt_doc_Ok dest: nonincreasingD simp: list_all_iff)

lemma many0_ref_length: "many0_ref p i = Ok (r, x) \<Longrightarrow> length r \<le> length i"
proof (induction p i arbitrary: r x rule: many0_ref.induct)
  case (1 p i)
  show ?case
  proof (cases "p i")
    case (Err e)
    with "1.prems" show ?thesis by (cases e) (simp_all add: many0_ref.simps [of p i])
  next
    case (Ok z)
    obtain r' y where z: "z = (r', y)" by (cases z)
    with Ok "1.prems" have lt: "length r' < length i" and "\<exists>xs. many0_ref p r' = Ok (r, xs)"
      by (auto simp: many0_ref.simps [of p i] and_then_eq_Ok_iff split: if_splits)
    with "1.IH" [OF Ok z [symmetric] lt] show ?thesis by fastforce
  qed
qed

lemma fold_many0_ref_length: "fold_many0_ref p acc g i = Ok (r, x) \<Longrightarrow> length r \<le> length i"
proof (induction p acc g i arbitrary: r x rule: fold_many0_ref.induct)
  case (1 p acc g i)
  show ?case
  proof (cases "p i")
    case (Err e)
    with "1.prems" show ?thesis by (cases e) (simp_all add: fold_many0_ref.simps [of p acc g i])
  next
    case (Ok z)
    obtain r' y where z: "z = (r', y)" by (cases z)
    with Ok "1.prems" have lt: "length r' < length i" and "fold_many0_ref p (g acc y) g r' = Ok (r, x)"
      by (auto simp: fold_many0_ref.simps [of p acc g i] split: if_splits)
    with "1.IH" [OF Ok z [symmetric] lt] show ?thesis by fastforce
  qed
qed

lemma shrink_many0_ref [shrink]: "nonincreasing (many0_ref p)"
  by (rule nonincreasingI) (rule many0_ref_length)

lemma shrink_fold_many0_ref [shrink]: "nonincreasing (fold_many0_ref p acc g)"
  by (rule nonincreasingI) (rule fold_many0_ref_length)

lemma shrink_and_then [shrink]:
  "nonincreasing p \<Longrightarrow> (\<And>x. nonincreasing (q x)) \<Longrightarrow> nonincreasing (\<lambda>i. and_then (p i) (\<lambda>(r, x). q x r))"
  by (fastforce simp: nonincreasing_def and_then_eq_Ok_iff intro: order_trans)

lemma shrink_Ok [shrink]: "nonincreasing (\<lambda>i. Ok (i, x))"
  by (simp add: nonincreasing_def)

subsection \<open>Escapes\<close>

text \<open>
  RFC 4515 escapes, read directly: a backslash and two hexadecimal digits stand for one byte,
  every other byte for itself. \<open>esc\<close> writes them for the bytes that must be escaped.
\<close>

definition hex_digit_value :: "u8 \<Rightarrow> u8" where
  "hex_digit_value c = (if ascii_digit c then c - 0x30 else if in_range 0x41 0x46 c then c - 0x37 else c - 0x57)"

fun unesc :: "bytes \<Rightarrow> bytes option" where
  "unesc [] = Some []"
| "unesc (c # r) =
     (if c \<noteq> 0x5C then map_option (\<lambda>v. c # v) (unesc r)
      else case r of
        a # b # r' \<Rightarrow>
          if ascii_hex a \<and> ascii_hex b
          then map_option (\<lambda>v. (16 * hex_digit_value a + hex_digit_value b) # v) (unesc r') else None
      | _ \<Rightarrow> None)"

definition hex_char :: "u8 \<Rightarrow> u8" where
  "hex_char n = (if n < 10 then 0x30 + n else 0x57 + n)"

definition must_escape :: "u8 \<Rightarrow> bool" where
  "must_escape c \<longleftrightarrow> c = 0 \<or> c = 0x28 \<or> c = 0x29 \<or> c = 0x2A \<or> c = 0x5C"

definition esc_byte :: "u8 \<Rightarrow> bytes" where
  "esc_byte c = (if must_escape c then [0x5C, hex_char (c div 16), hex_char (c mod 16)] else [c])"

definition esc :: "bytes \<Rightarrow> bytes" where
  "esc v = concat (map esc_byte v)"

lemma esc_simps [simp]: "esc [] = []" "esc (c # v) = esc_byte c @ esc v"
  by (simp_all add: esc_def)

lemma in_range_enum: "in_range lo hi c \<Longrightarrow> c \<in> set (map of_nat [unat lo..<Suc (unat hi)])"
proof -
  assume "in_range lo hi c"
  then have "unat c \<in> {unat lo..unat hi}" by (simp add: in_range_def word_le_nat_alt)
  then have "unat c \<in> set [unat lo..<Suc (unat hi)]" by auto
  moreover have "c = of_nat (unat c)" by simp
  ultimately show ?thesis unfolding set_map by (rule image_eqI [rotated])
qed

lemma ascii_hex_cases:
  assumes "ascii_hex c"
  shows "c \<in> {0x30, 0x31, 0x32, 0x33, 0x34, 0x35, 0x36, 0x37, 0x38, 0x39} \<or>
     c \<in> {0x41, 0x42, 0x43, 0x44, 0x45, 0x46} \<or> c \<in> {0x61, 0x62, 0x63, 0x64, 0x65, 0x66}"
  using assms unfolding ascii_hex_def ascii_digit_def
  by (elim disjE) (drule in_range_enum; simp add: upt_rec)+

lemma hex_value_eq:
  assumes "ascii_hex c"
  shows "hex_value c = hex_digit_value c" and "hex_value c \<le> 15"
  using ascii_hex_cases [OF assms]
  by (auto simp: hex_value_def hex_digit_value_def ascii_digit_def in_range_def)

lemma unesc_esc_byte: "unesc (esc_byte c @ r) = map_option (\<lambda>v. c # v) (unesc r)"
  by (auto simp: esc_byte_def must_escape_def hex_char_def ascii_hex_def ascii_digit_def in_range_def hex_digit_value_def)

lemma unesc_esc: "unesc (esc v @ r) = map_option (\<lambda>w. v @ w) (unesc r)"
  by (induction v) (simp_all add: unesc_esc_byte option.map_comp comp_def option.map_ident)

lemma esc_value_chars: "list_all is_value_char (esc v)"
  by (induction v)
    (auto simp: esc_byte_def must_escape_def hex_char_def is_value_char_def)

context nom_complete_doc
begin

lemma comb_simps [nomsimps]:
  "c_alt (nc_Tag N) = alt_doc" "c_delimited (nc_Tag N) = delimited_doc" "c_preceded (nc_Tag N) = preceded_doc"
  "c_preceded (nc_Tags N) = preceded_doc"
  "c_alt (nc_bytes N) = alt_doc" "c_preceded (nc_bytes N) = preceded_doc" "c_opt (nc_bytes N) = opt_doc"
  "c_verify (nc_bytes N) = verify_doc" "c_recognize (nc_unit N) = recognize_doc" "c_verify (nc_u8 N) = verify_doc"
  "c_map (nc_Tags_Tag N) = map_doc" "c_map (nc_Tag_Tag N) = map_doc"
  "c_map_res (nc_parts N) = map_res_doc" "c_map_res (nc_unesc N) = map_res_doc"
  using comb_Tag comb_Tags comb_bytes comb_unit comb_u8 comb_Tags_Tag comb_Tag_Tag comb_parts comb_unesc
  by (simp_all add: comb_doc_def comb2_doc_def)

lemmas lib_simps = comb_simps tag take_while take_while1 digit1 be_u8 is_alphabetic is_alphanumeric is_hex_digit

lemmas many0_bytes = comb_doc_many0 [OF comb_bytes]
lemmas many0_Tag = comb_doc_many0 [OF comb_Tag]
lemmas fold_many0 = comb2_doc_fold_many0 [OF comb_fold]

lemma shrink_value_char [shrink]: "nonincreasing (verify_doc number_doc is_value_char)"
  by (intro shrink)

lemma fold_value_chars:
  "fold_many0_ref (verify_doc number_doc f) acc g i = Ok (dropWhile f i, foldl g acc (takeWhile f i))"
  by (induction i arbitrary: acc)
    (subst fold_many0_ref.simps; simp add: verify_doc_def number_doc_def)+

lemma step_error: "foldl (unescaped_step N) (UnescError, vec) w = (UnescError, vec)"
  by (induction w) (simp_all add: unescaped_step_def)

lemma step_fold:
  "unescaped_finish (foldl (unescaped_step N) (Value x, vec) w) = map_option (\<lambda>v. vec @ v) (unesc w)"
proof (induction w arbitrary: x vec rule: unesc.induct)
  case 1
  show ?case by (simp add: unescaped_finish_def)
next
  case (2 c r)
  show ?case
  proof (cases "c = 0x5C")
    case False
    with "2.IH"(1) [OF False] show ?thesis
      by (simp add: unescaped_step_def option.map_comp comp_def)
  next
    case True
    show ?thesis
    proof (cases r)
      case Nil
      with True show ?thesis by (simp add: unescaped_step_def unescaped_finish_def)
    next
      case (Cons a r1)
      show ?thesis
      proof (cases r1)
        case Nil
        with True Cons show ?thesis by (simp add: unescaped_step_def unescaped_finish_def)
      next
        case (Cons b r2)
        have m: "push_bit 4 w = 16 * w" for w :: u8 by (simp add: push_bit_eq_mult)
        have a: "(@) (vec @ [y]) = (\<lambda>x. vec @ y # x)" for y :: u8 by auto
        show ?thesis
          using "2.IH"(2) [of a r1 b r2] True \<open>r = a # r1\<close> Cons step_error
          by (simp add: unescaped_step_def unescaped_finish_def is_hex_digit hex_value_eq m a option.map_comp comp_def)
      qed
    qed
  qed
qed

text \<open>\<open>unescaped\<close> reads the value up to the first byte that must be escaped.\<close>

lemma unescaped_eq:
  "unescaped N i = (case unesc (takeWhile is_value_char i) of
     None \<Rightarrow> Err Error | Some v \<Rightarrow> Ok (dropWhile is_value_char i, v))"
  using step_fold [of 0 "[]"]
  by (simp add: unescaped_def lib_simps fold_many0 shrink_value_char fold_value_chars map_res_doc_def option.map_ident)

lemma shrink_unescaped [shrink]: "nonincreasing (unescaped N)"
  by (rule nonincreasingI) (auto simp: unescaped_eq length_dropWhile_le split: option.splits)

lemma unescaped_esc:
  assumes "r = [] \<or> \<not> is_value_char (hd r)"
  shows "unescaped N (esc v @ r) = Ok (r, v)"
proof -
  have "takeWhile is_value_char (esc v @ r) = esc v" "dropWhile is_value_char (esc v @ r) = r"
    using assms esc_value_chars [of v] by (cases r; auto simp: list_all_iff takeWhile_append dropWhile_append)+
  then show ?thesis using unesc_esc [of v "[]"] by (simp add: unescaped_eq)
qed

end

end
