(* ===== verification/Filter_Grammar.thy ===== *)
theory Filter_Grammar
  imports Search_Filter
begin

text \<open>
  Correctness of the filter parser against an abstract syntax of RFC 4515: a datatype of
  filters, its text form, the RFC 4511 tag it denotes. For any combinator library with the
  documented behaviour (\<open>nom_complete_doc\<close>) the parser accepts every text of a well-formed
  filter, matching rules that begin with \<open>dn\<close> apart, and returns its tag (completeness), whatever it
  accepts is a text of a well-formed filter, whose tag it returns (soundness), and it never panics. The lemmas go through the grammar bottom up: tokens,
  attribute descriptions, items, filters; the collections \<open>shrink\<close> and \<open>calm\<close> discharge the
  side conditions that a parser returns at most its input and does not panic.
\<close>

unbundle bit_operations_syntax

subsection \<open>The language of filters\<close>

text \<open>
  An abstract syntax for the filters of RFC 4515, its text form, and the \<open>Filter\<close> value of
  RFC 4511 (as ASN.1 tags) that it denotes.
\<close>

datatype attr_type = Descr bytes | NumericOid bytes "bytes list"
datatype attr_desc = AttrDesc attr_type "bytes list"

datatype item_spec =
    Equality attr_desc bytes
  | Substrings attr_desc bytes "bytes list" bytes
  | GreaterOrEqual attr_desc bytes
  | LessOrEqual attr_desc bytes
  | ApproxMatch attr_desc bytes
  | Present attr_desc
  | ExtensibleMatch "attr_desc option" "attr_type option" bytes bool

datatype filter_spec = FAnd "filter_spec list" | FOr "filter_spec list" | FNot filter_spec | FItem item_spec

definition alnum_hyphen :: "u8 \<Rightarrow> bool" where
  "alnum_hyphen c \<longleftrightarrow> ascii_alpha c \<or> ascii_digit c \<or> c = 0x2D"

definition wf_number :: "bytes \<Rightarrow> bool" where
  "wf_number d \<longleftrightarrow> d \<noteq> [] \<and> list_all ascii_digit d \<and> (length d = 1 \<or> hd d \<noteq> 0x30)"

definition wf_option :: "bytes \<Rightarrow> bool" where
  "wf_option d \<longleftrightarrow> d \<noteq> [] \<and> list_all alnum_hyphen d"

fun wf_type :: "attr_type \<Rightarrow> bool" where
  "wf_type (Descr d) = (d \<noteq> [] \<and> ascii_alpha (hd d) \<and> list_all alnum_hyphen (tl d))"
| "wf_type (NumericOid n ns) = (wf_number n \<and> list_all wf_number ns)"

fun wf_attr :: "attr_desc \<Rightarrow> bool" where
  "wf_attr (AttrDesc t opts) = (wf_type t \<and> list_all wf_option opts)"

fun print_type :: "attr_type \<Rightarrow> bytes" where
  "print_type (Descr d) = d"
| "print_type (NumericOid n ns) = n @ concat (map (\<lambda>d. 0x2E # d) ns)"

fun print_attr :: "attr_desc \<Rightarrow> bytes" where
  "print_attr (AttrDesc t opts) = print_type t @ concat (map (\<lambda>d. 0x3B # d) opts)"

text \<open>
  The grammar of the parser takes a single number as an OID as well, where RFC 4512 asks for a dot, and
  the empty lists of RFC 4526.
\<close>

fun wf_item :: "item_spec \<Rightarrow> bool" where
  "wf_item (Substrings a ini anys fin) =
     (wf_attr a \<and> list_all (\<lambda>v. v \<noteq> []) anys \<and> \<not> (ini = [] \<and> anys = [] \<and> fin = []))"
| "wf_item (ExtensibleMatch a m v dn) =
     (pred_option wf_attr a \<and> pred_option wf_type m \<and> (a = None \<longrightarrow> m \<noteq> None))"
| "wf_item (Equality a v) = wf_attr a"
| "wf_item (GreaterOrEqual a v) = wf_attr a"
| "wf_item (LessOrEqual a v) = wf_attr a"
| "wf_item (ApproxMatch a v) = wf_attr a"
| "wf_item (Present a) = wf_attr a"

fun wf_filter :: "filter_spec \<Rightarrow> bool" where
  "wf_filter (FAnd fs) = list_all wf_filter fs"
| "wf_filter (FOr fs) = list_all wf_filter fs"
| "wf_filter (FNot f) = wf_filter f"
| "wf_filter (FItem i) = wf_item i"

text \<open>
  The filters without a matching rule that begins with \<open>dn\<close> and does not follow the \<open>:dn\<close> flag. RFC 4515
  allows such rules, and the parser loses them (\<open>dn_rule_lost\<close> below).
\<close>

fun no_dn_item :: "item_spec \<Rightarrow> bool" where
  "no_dn_item (ExtensibleMatch a m v dn) = (dn \<or> pred_option (\<lambda>m. take 2 (print_type m) \<noteq> str ''dn'') m)"
| "no_dn_item (Equality a v) = True"
| "no_dn_item (Substrings a ini anys fin) = True"
| "no_dn_item (GreaterOrEqual a v) = True"
| "no_dn_item (LessOrEqual a v) = True"
| "no_dn_item (ApproxMatch a v) = True"
| "no_dn_item (Present a) = True"

fun no_dn_rule :: "filter_spec \<Rightarrow> bool" where
  "no_dn_rule (FAnd fs) = list_all no_dn_rule fs"
| "no_dn_rule (FOr fs) = list_all no_dn_rule fs"
| "no_dn_rule (FNot f) = no_dn_rule f"
| "no_dn_rule (FItem i) = no_dn_item i"

text \<open>
  The texts of a filter, by the productions of the grammar. An assertion value has many texts, since any
  byte can be written as a backslash (\<open>0x5C\<close>) and two hexadecimal digits, in upper or lower case. The parts of
  a substring match follow an asterisk (\<open>0x2A\<close>) each.
\<close>

inductive value_text :: "bytes \<Rightarrow> bytes \<Rightarrow> bool" where
  Value_End: "value_text [] []"
| Value_Plain: "\<not> must_escape c \<Longrightarrow> value_text v w \<Longrightarrow> value_text (c # v) (c # w)"
| Value_Escape: "ascii_hex a \<Longrightarrow> ascii_hex b \<Longrightarrow> value_text v w \<Longrightarrow>
    value_text ((16 * hex_digit_value a + hex_digit_value b) # v) (0x5C # a # b # w)"

inductive item_text :: "item_spec \<Rightarrow> bytes \<Rightarrow> bool" where
  Equality_Text: "value_text v w \<Longrightarrow> item_text (Equality a v) (print_attr a @ str ''='' @ w)"
| Substrings_Text: "value_text ini w \<Longrightarrow> list_all2 value_text (anys @ [fin]) ws \<Longrightarrow>
    item_text (Substrings a ini anys fin) (print_attr a @ str ''='' @ w @ concat (map (\<lambda>w. 0x2A # w) ws))"
| GreaterOrEqual_Text: "value_text v w \<Longrightarrow> item_text (GreaterOrEqual a v) (print_attr a @ str ''>='' @ w)"
| LessOrEqual_Text: "value_text v w \<Longrightarrow> item_text (LessOrEqual a v) (print_attr a @ str ''<='' @ w)"
| ApproxMatch_Text: "value_text v w \<Longrightarrow> item_text (ApproxMatch a v) (print_attr a @ str ''~='' @ w)"
| Present_Text: "item_text (Present a) (print_attr a @ str ''=*'')"
| ExtensibleMatch_Text: "value_text v w \<Longrightarrow> item_text (ExtensibleMatch a m v dn)
    ((case a of None \<Rightarrow> [] | Some a \<Rightarrow> print_attr a) @ (if dn then str '':dn'' else []) @
     (case m of None \<Rightarrow> [] | Some m \<Rightarrow> str '':'' @ print_type m) @ str '':='' @ w)"

inductive filter_text :: "filter_spec \<Rightarrow> bytes \<Rightarrow> bool" where
  And_Text: "list_all2 filter_text fs ws \<Longrightarrow> filter_text (FAnd fs) (str ''(&'' @ concat ws @ str '')'')"
| Or_Text: "list_all2 filter_text fs ws \<Longrightarrow> filter_text (FOr fs) (str ''(|'' @ concat ws @ str '')'')"
| Not_Text: "filter_text f w \<Longrightarrow> filter_text (FNot f) (str ''(!'' @ w @ str '')'')"
| Item_Text: "item_text i w \<Longrightarrow> filter_text (FItem i) (str ''('' @ w @ str '')'')"

text \<open>The library also takes a single item without its parentheses.\<close>

definition filter_string :: "filter_spec \<Rightarrow> bytes \<Rightarrow> bool" where
  "filter_string f s \<longleftrightarrow> filter_text f s \<or> (\<exists>i. f = FItem i \<and> item_text i s)"

text \<open>One text of every filter, in which only the bytes are escaped that must be.\<close>

fun print_item :: "item_spec \<Rightarrow> bytes" where
  "print_item (Equality a v) = print_attr a @ str ''='' @ esc v"
| "print_item (Substrings a ini anys fin) =
     print_attr a @ str ''='' @ esc ini @ concat (map (\<lambda>v. str ''*'' @ esc v) (anys @ [fin]))"
| "print_item (GreaterOrEqual a v) = print_attr a @ str ''>='' @ esc v"
| "print_item (LessOrEqual a v) = print_attr a @ str ''<='' @ esc v"
| "print_item (ApproxMatch a v) = print_attr a @ str ''~='' @ esc v"
| "print_item (Present a) = print_attr a @ str ''=*''"
| "print_item (ExtensibleMatch a m v dn) =
     (case a of None \<Rightarrow> [] | Some a \<Rightarrow> print_attr a) @ (if dn then str '':dn'' else []) @
     (case m of None \<Rightarrow> [] | Some m \<Rightarrow> str '':'' @ print_type m) @ str '':='' @ esc v"

fun print_filter :: "filter_spec \<Rightarrow> bytes" where
  "print_filter (FAnd fs) = str ''(&'' @ concat (map print_filter fs) @ str '')''"
| "print_filter (FOr fs) = str ''(|'' @ concat (map print_filter fs) @ str '')''"
| "print_filter (FNot f) = str ''(!'' @ print_filter f @ str '')''"
| "print_filter (FItem i) = str ''('' @ print_item i @ str '')''"

fun tag_of_item :: "item_spec \<Rightarrow> Tag" where
  "tag_of_item (Equality a v) = Tag_Sequence 3 Context [OctetString (print_attr a), OctetString v]"
| "tag_of_item (Substrings a ini anys fin) = Tag_Sequence 4 Context [OctetString (print_attr a), Sequence
     ((if ini = [] then [] else [Tag_OctetString 0 Context ini]) @ map (Tag_OctetString 1 Context) anys @
      (if fin = [] then [] else [Tag_OctetString 2 Context fin]))]"
| "tag_of_item (GreaterOrEqual a v) = Tag_Sequence 5 Context [OctetString (print_attr a), OctetString v]"
| "tag_of_item (LessOrEqual a v) = Tag_Sequence 6 Context [OctetString (print_attr a), OctetString v]"
| "tag_of_item (Present a) = Tag_OctetString 7 Context (print_attr a)"
| "tag_of_item (ApproxMatch a v) = Tag_Sequence 8 Context [OctetString (print_attr a), OctetString v]"
| "tag_of_item (ExtensibleMatch a m v dn) = Tag_Sequence 9 Context
     ((case m of None \<Rightarrow> [] | Some m \<Rightarrow> [Tag_OctetString 1 Context (print_type m)]) @
      (case a of None \<Rightarrow> [] | Some a \<Rightarrow> [Tag_OctetString 2 Context (print_attr a)]) @
      [Tag_OctetString 3 Context v] @ (if dn then [Tag_Boolean 4 Context True] else []))"

fun tag_of :: "filter_spec \<Rightarrow> Tag" where
  "tag_of (FAnd fs) = Tag_Sequence 0 Context (map tag_of fs)"
| "tag_of (FOr fs) = Tag_Sequence 1 Context (map tag_of fs)"
| "tag_of (FNot f) = Tag_ExplicitTag 2 Context (tag_of f)"
| "tag_of (FItem i) = tag_of_item i"

subsection \<open>Attributes\<close>

lemma many0_ref_spelled:
  assumes "\<And>x w r. R x w \<Longrightarrow> ok r \<Longrightarrow> p (w @ r) = Ok (r, x)"
    and "\<And>x w r. R x w \<Longrightarrow> w \<noteq> [] \<and> ok (w @ r)"
    and "list_all2 R xs ws" and "ok r" and "p r = Err Error"
  shows "many0_ref p (concat ws @ r) = Ok (r, xs)"
  using assms(3)
proof (induction xs ws rule: list_all2_induct)
  case Nil
  show ?case using assms(5) by (simp add: many0_ref.simps)
next
  case (Cons x xs w ws)
  let ?r = "concat ws @ r"
  have "ok ?r"
    using assms(2,4) Cons(2) by (cases ws) (auto simp: list_all2_Cons2)
  then have "p (w @ ?r) = Ok (?r, x)" using assms(1) Cons(1) by simp
  moreover have "w \<noteq> []" using assms(2) Cons(1) by blast
  ultimately show ?case using Cons(3) by (subst many0_ref.simps) simp
qed

lemma many0_ref_items:
  assumes "\<And>x r. x \<in> set xs \<Longrightarrow> ok r \<Longrightarrow> p (pr x @ r) = Ok (r, f x)"
    and "\<And>x r. x \<in> set xs \<Longrightarrow> pr x \<noteq> [] \<and> ok (pr x @ r)"
    and "ok r" and "p r = Err Error"
  shows "many0_ref p (concat (map pr xs) @ r) = Ok (r, map f xs)"
  using assms
  by (intro many0_ref_spelled [where R = "\<lambda>y w. \<exists>x \<in> set xs. y = f x \<and> w = pr x" and ok = ok])
    (auto simp: list_all2_conv_all_nth)

text \<open>The byte after a token.\<close>

definition stops :: "(u8 \<Rightarrow> bool) \<Rightarrow> bytes \<Rightarrow> bool" where
  "stops f r \<longleftrightarrow> r = [] \<or> \<not> f (hd r)"

lemma stops_simps [simp]: "stops f []" "stops f (c # r) \<longleftrightarrow> \<not> f c"
  by (simp_all add: stops_def)

lemma take_while_stops:
  "list_all f d \<Longrightarrow> stops f r \<Longrightarrow> takeWhile f (d @ r) = d \<and> dropWhile f (d @ r) = r"
  by (cases r) (auto simp: list_all_iff takeWhile_append dropWhile_append)

lemma tag_doc_Cons [simp]:
  "tag_doc [] i = Ok (i, [])"
  "tag_doc (c # t) [] = Err Error"
  "tag_doc (c # t) (d # i) = (if c = d then and_then (tag_doc t i) (\<lambda>(r, _). Ok (r, c # t)) else Err Error)"
  by (auto simp: tag_doc_def)

definition attr_char :: "u8 \<Rightarrow> bool" where
  "attr_char c \<longleftrightarrow> alnum_hyphen c \<or> c = 0x2E \<or> c = 0x3B"

lemma class_facts:
  "ascii_alpha c \<Longrightarrow> \<not> ascii_digit c"
  "ascii_digit c \<Longrightarrow> alnum_hyphen c" "ascii_alpha c \<Longrightarrow> alnum_hyphen c"
  "\<not> ascii_digit 0x2E" "\<not> ascii_digit 0x3B" "\<not> alnum_hyphen 0x3B" "\<not> alnum_hyphen 0x2E"
  by (auto simp: ascii_alpha_def ascii_digit_def alnum_hyphen_def in_range_def word_le_nat_alt)

lemma stops_weaken: "stops f r \<Longrightarrow> (\<And>c. g c \<Longrightarrow> f c) \<Longrightarrow> stops g r"
  by (cases r) auto

lemma wf_number_ne: "wf_number d \<Longrightarrow> d \<noteq> []" "wf_option d \<Longrightarrow> d \<noteq> []"
  by (simp_all add: wf_number_def wf_option_def)

context nom_complete_doc
begin

lemma is_alnum_hyphen_eq: "is_alnum_hyphen N = alnum_hyphen"
  by (rule ext) (auto simp: is_alnum_hyphen_def alnum_hyphen_def is_alphanumeric)

lemma shrink_number [shrink]: "nonincreasing (number N)"
  unfolding number_def lib_simps by (intro shrink)

lemma shrink_dot: "nonincreasing (preceded_doc (tag_doc t) (number N))"
  by (intro shrink)

lemma shrink_opts: "nonincreasing (preceded_doc (tag_doc t) (take_while1_doc f))"
  by (intro shrink)

lemma shrink_star: "nonincreasing (preceded_doc (tag_doc t) (unescaped N))"
  by (intro shrink)

lemmas many0_eqs = many0_bytes [OF shrink_dot] many0_bytes [OF shrink_opts] many0_bytes [OF shrink_star]

lemma number_print:
  assumes "wf_number d" and "stops ascii_digit r"
  shows "number N (d @ r) = Ok (r, d)"
  using take_while_stops [of ascii_digit d r] assms
  by (simp add: number_def lib_simps verify_doc_def take_while1_doc_def wf_number_def)

lemma number_stop: "stops ascii_digit r \<Longrightarrow> number N r = Err Error"
  by (cases r) (simp_all add: number_def lib_simps verify_doc_def take_while1_doc_def)

lemma numericoid_print:
  assumes "wf_type (NumericOid n ns)" and "stops attr_char r \<or> (\<exists>q. r = 0x3B # q)"
  shows "numericoid N (print_type (NumericOid n ns) @ r) = Ok (r, print_type (NumericOid n ns))"
proof -
  have r: "stops (\<lambda>c. ascii_digit c \<or> c = 0x2E) r"
    using assms(2) by (auto simp: attr_char_def class_facts intro: stops_weaken)
  have "many0_ref (preceded_doc (tag_doc [0x2E]) (number N)) (concat (map (\<lambda>d. 0x2E # d) ns) @ r) = Ok (r, map (\<lambda>d. d) ns)"
  proof (rule many0_ref_items [where ok = "stops ascii_digit"])
    fix d r' assume "d \<in> set ns" and r': "stops ascii_digit r'"
    with assms(1) have "wf_number d" by (simp add: list_all_iff)
    then show "preceded_doc (tag_doc [0x2E]) (number N) ((0x2E # d) @ r') = Ok (r', d)"
      using number_print r' by (simp add: preceded_doc_def)
  next
    show "stops ascii_digit r" using r by (cases r) auto
    show "preceded_doc (tag_doc [0x2E]) (number N) r = Err Error"
      using r by (cases r) (auto simp: preceded_doc_def)
  qed (simp add: class_facts)
  moreover have "stops ascii_digit (concat (map (\<lambda>d. 0x2E # d) ns) @ r)"
    using r by (cases ns; cases r) (auto simp: class_facts)
  ultimately show ?thesis
    using number_print [of n "concat (map (\<lambda>d. 0x2E # d) ns) @ r"] assms(1)
    by (simp add: numericoid_def lib_simps many0_eqs recognize_doc_def)
qed

lemma descr_print:
  assumes "wf_type (Descr d)" and "stops alnum_hyphen r"
  shows "descr N (d @ r) = Ok (r, d)"
proof -
  obtain c e where d: "d = c # e" and "ascii_alpha c" "list_all alnum_hyphen e"
    using assms(1) by (cases d) auto
  with take_while_stops [of alnum_hyphen e r] assms(2) show ?thesis
    by (simp add: descr_def recognize_doc_def lib_simps is_alnum_hyphen_eq verify_doc_def number_doc_def take_while_doc_def)
qed

lemma numericoid_alpha: "stops ascii_digit r \<Longrightarrow> numericoid N r = Err Error"
  using number_stop [of r] by (simp add: numericoid_def lib_simps recognize_doc_def)

lemma descr_stop: "stops ascii_alpha r \<Longrightarrow> descr N r = Err Error"
  by (cases r) (simp_all add: descr_def lib_simps recognize_doc_def verify_doc_def number_doc_def)

lemma attributetype_print:
  assumes "wf_type t" and "stops attr_char r \<or> (\<exists>q. r = 0x3B # q)"
  shows "attributetype N (print_type t @ r) = Ok (r, print_type t)"
proof (cases t)
  case (NumericOid n ns)
  then show ?thesis using numericoid_print [of n ns r] assms by (simp add: attributetype_def lib_simps)
next
  case (Descr d)
  have "stops alnum_hyphen r"
    using assms(2) by (auto simp: attr_char_def class_facts intro: stops_weaken)
  moreover have "numericoid N (d @ r) = Err Error"
    using assms(1) Descr by (intro numericoid_alpha) (cases d; auto simp: class_facts)
  ultimately show ?thesis
    using descr_print [of d r] assms(1) Descr by (simp add: attributetype_def lib_simps)
qed

lemma attributetype_stop: "stops alnum_hyphen r \<Longrightarrow> attributetype N r = Err Error"
  by (simp add: attributetype_def lib_simps numericoid_alpha descr_stop stops_weaken class_facts)

lemma attributedescription_print:
  assumes "wf_attr a" and "stops attr_char r"
  shows "attributedescription N (print_attr a @ r) = Ok (r, print_attr a)"
proof -
  obtain t opts where a: "a = AttrDesc t opts" by (cases a)
  let ?p = "preceded_doc (tag_doc [0x3B]) (take_while1_doc alnum_hyphen)"
  have "many0_ref ?p (concat (map (\<lambda>d. 0x3B # d) opts) @ r) = Ok (r, map (\<lambda>d. d) opts)"
  proof (rule many0_ref_items [where ok = "stops alnum_hyphen"])
    fix d r' assume "d \<in> set opts" and r': "stops alnum_hyphen r'"
    with assms(1) a have "wf_option d" by (simp add: list_all_iff)
    then show "?p ((0x3B # d) @ r') = Ok (r', d)"
      using take_while_stops [of alnum_hyphen d r'] r'
      by (simp add: preceded_doc_def take_while1_doc_def wf_option_def)
  next
    show "stops alnum_hyphen r" using assms(2) by (rule stops_weaken) (simp add: attr_char_def)
    show "?p r = Err Error"
      using assms(2) by (cases r) (auto simp: preceded_doc_def attr_char_def)
  qed (simp add: class_facts)
  moreover have "attributetype N (print_type t @ concat (map (\<lambda>d. 0x3B # d) opts) @ r) =
      Ok (concat (map (\<lambda>d. 0x3B # d) opts) @ r, print_type t)"
    using assms a by (intro attributetype_print) (cases opts; auto)+
  ultimately show ?thesis
    using a by (simp add: attributedescription_def recognize_doc_def lib_simps many0_eqs is_alnum_hyphen_eq)
qed

lemma attributedescription_stop: "stops alnum_hyphen r \<Longrightarrow> attributedescription N r = Err Error"
  by (simp add: attributedescription_def lib_simps recognize_doc_def attributetype_stop)

end

subsection \<open>Values\<close>

lemma must_escape_chars: "\<not> must_escape c \<longleftrightarrow> is_value_char c \<and> c \<noteq> 0x5C"
  by (auto simp: must_escape_def is_value_char_def)

lemma hex_value_char: "ascii_hex c \<Longrightarrow> is_value_char c"
  by (drule ascii_hex_cases) (auto simp: is_value_char_def)

lemma value_text_iff: "value_text v w \<longleftrightarrow> list_all is_value_char w \<and> unesc w = Some v"
proof
  assume "value_text v w"
  moreover have "is_value_char 0x5C" by (simp add: is_value_char_def)
  ultimately show "list_all is_value_char w \<and> unesc w = Some v"
    by (induction rule: value_text.induct) (simp_all add: must_escape_chars hex_value_char)
next
  assume "list_all is_value_char w \<and> unesc w = Some v"
  then show "value_text v w"
  proof (induction w arbitrary: v rule: unesc.induct)
    case (2 c r)
    show ?case
    proof (cases "c = 0x5C")
      case False
      with 2 obtain v' where "v = c # v'" "value_text v' r" by auto
      with 2(3) False show ?thesis using Value_Plain [of c v' r] by (simp add: must_escape_chars)
    next
      case True
      with 2(3) obtain a b r' where r: "r = a # b # r'" by (auto split: list.splits)
      with 2(3) True obtain v' where v: "ascii_hex a" "ascii_hex b" "unesc r' = Some v'" "list_all is_value_char r'"
        "v = (16 * hex_digit_value a + hex_digit_value b) # v'"
        by (auto split: if_splits)
      then have "value_text v' r'" using 2(2) True r by simp
      with v True r show ?thesis by (auto intro: Value_Escape)
    qed
  qed (auto intro: Value_End)
qed

lemma value_text_Nil [simp]: "value_text [] w \<longleftrightarrow> w = []"
  by (auto elim: value_text.cases intro: value_text.intros)

lemma esc_text: "value_text v (esc v)"
  using unesc_esc [of v "[]"] esc_value_chars [of v] by (simp add: value_text_iff)

lemma print_item_text: "item_text f (print_item f)"
proof (cases f)
  case (Substrings a ini anys fin)
  have "list_all2 value_text (anys @ [fin]) (map esc (anys @ [fin]))"
    unfolding list.rel_map(2) by (rule list.rel_refl) (rule esc_text)
  from Substrings_Text [OF esc_text this, of a ini] Substrings show ?thesis by (simp add: comp_def)
next
  case (ExtensibleMatch a m v dn)
  from ExtensibleMatch_Text [OF esc_text, of a m v dn] ExtensibleMatch show ?thesis by simp
qed (auto simp del: str_simps intro: item_text.intros esc_text)

lemma print_filter_text: "filter_text f (print_filter f)"
proof (induction f)
  case (FAnd fs)
  then have "list_all2 filter_text fs (map print_filter fs)" by (simp add: list_all2_conv_all_nth)
  from And_Text [OF this] show ?case by simp
next
  case (FOr fs)
  then have "list_all2 filter_text fs (map print_filter fs)" by (simp add: list_all2_conv_all_nth)
  from Or_Text [OF this] show ?case by simp
next
  case (FNot f)
  from Not_Text [OF this] show ?case by simp
next
  case (FItem i)
  from Item_Text [OF print_item_text, of i] show ?case by simp
qed

subsection \<open>Items\<close>

lemma mid_final_check_eq:
  "mid_final_check v = (if list_all (\<lambda>x. x \<noteq> []) (butlast v) then Some v else None)"
proof -
  have "fold (\<lambda>(n, ve) acc. acc \<or> ve = [] \<and> n + 1 \<noteq> length v) (enumerate k w) b
      \<longleftrightarrow> b \<or> \<not> list_all (\<lambda>x. x \<noteq> []) (butlast w)" if "k + length w = length v" for k w b
    using that
  proof (induction w arbitrary: k b)
    case (Cons x w)
    then have "fold (\<lambda>(n, ve) acc. acc \<or> ve = [] \<and> n + 1 \<noteq> length v) (enumerate (Suc k) w) (b \<or> x = [] \<and> w \<noteq> [])
        \<longleftrightarrow> (b \<or> x = [] \<and> w \<noteq> []) \<or> \<not> list_all (\<lambda>x. x \<noteq> []) (butlast w)"
      by simp
    moreover have "k + 1 \<noteq> length v \<longleftrightarrow> w \<noteq> []" using Cons.prems by (cases w) auto
    ultimately show ?case by auto
  qed simp
  from this [of 0 v False] show ?thesis by (simp add: mid_final_check_def)
qed

lemma substr_loop_eq:
  assumes "list_all (\<lambda>v. v \<noteq> []) anys" and "n = i + length anys + 1"
  shows "substr_loop n i (anys @ [fin]) inner = inner @ map (Tag_OctetString 1 Context) anys @
     (if fin = [] then [] else [Tag_OctetString 2 Context fin])"
  using assms by (induction anys arbitrary: i inner) (auto simp: opsimps)

lemma eq_tag_substrings:
  assumes "wf_item (Substrings a ini anys fin)"
  shows "eq_tag (print_attr a) ini (anys @ [fin]) = tag_of_item (Substrings a ini anys fin)"
proof -
  have "\<not> (ini = [] \<and> length (anys @ [fin]) = 1 \<and> (anys @ [fin]) ! 0 = [])"
    using assms by auto
  moreover have "list_all (\<lambda>v. v \<noteq> []) anys" using assms by simp
  ultimately show ?thesis
    using substr_loop_eq [of anys "length anys + 1" 0 fin]
    by (cases anys) (auto simp: eq_tag_def opsimps Let_def)
qed

text \<open>The end of an assertion value: nothing more, or a closing parenthesis.\<close>

definition ends :: "bytes \<Rightarrow> bool" where
  "ends r \<longleftrightarrow> r = [] \<or> hd r = 0x29"

lemma ends_stop: "ends r \<Longrightarrow> r = [] \<or> \<not> is_value_char (hd r)"
  by (auto simp: ends_def is_value_char_def)

lemma stops_op [simp]:
  "\<not> attr_char 0x3D" "\<not> attr_char 0x3E" "\<not> attr_char 0x3C" "\<not> attr_char 0x7E" "\<not> attr_char 0x3A"
  "\<not> alnum_hyphen 0x3D" "\<not> alnum_hyphen 0x3A"
  by (simp_all add: attr_char_def alnum_hyphen_def ascii_alpha_def ascii_digit_def in_range_def)

context nom_complete_doc
begin

lemma unescaped_text:
  assumes "value_text v w" and "r = [] \<or> \<not> is_value_char (hd r)"
  shows "unescaped N (w @ r) = Ok (r, v)"
proof -
  have "takeWhile is_value_char (w @ r) = w" "dropWhile is_value_char (w @ r) = r"
    using assms by (cases r; auto simp: value_text_iff list_all_iff takeWhile_append dropWhile_append)+
  then show ?thesis using assms(1) by (simp add: unescaped_eq value_text_iff)
qed

lemma eq_f_parts:
  assumes "wf_attr a" and "ends r" and "list_all (\<lambda>v. v \<noteq> []) (butlast parts)"
    and "value_text ini w" and "list_all2 value_text parts ws"
  shows "eq_f N (print_attr a @ 0x3D # w @ concat (map (\<lambda>w. 0x2A # w) ws) @ r) =
     Ok (r, eq_tag (print_attr a) ini parts)"
proof -
  let ?q = "concat (map (\<lambda>w. 0x2A # w) ws) @ r"
  let ?ok = "\<lambda>r. r = [] \<or> \<not> is_value_char (hd r)"
  have ok: "?ok ?q"
    using ends_stop [OF assms(2)] by (cases ws) (auto simp: is_value_char_def)
  have "many0_ref (preceded_doc (tag_doc [0x2A]) (unescaped N)) ?q = Ok (r, parts)"
  proof (rule many0_ref_spelled [where ok = ?ok and R = "\<lambda>v u. \<exists>w. value_text v w \<and> u = 0x2A # w"])
    show "preceded_doc (tag_doc [0x2A]) (unescaped N) (u @ r') = Ok (r', v)"
      if "\<exists>w. value_text v w \<and> u = 0x2A # w" and "?ok r'" for v u r'
      using that unescaped_text [of v _ r'] by (auto simp: preceded_doc_def)
    show "preceded_doc (tag_doc [0x2A]) (unescaped N) r = Err Error"
      using assms(2) by (cases r) (auto simp: preceded_doc_def ends_def)
    show "list_all2 (\<lambda>v u. \<exists>w. value_text v w \<and> u = 0x2A # w) parts (map (\<lambda>w. 0x2A # w) ws)"
      using assms(5) by (auto simp: list.rel_map elim: list_all2_mono)
    show "?ok r" using assms(2) by (rule ends_stop)
  qed (auto simp: is_value_char_def)
  then show ?thesis
    using attributedescription_print [OF assms(1), of "0x3D # w @ ?q"] unescaped_text [OF assms(4) ok]
    by (simp add: eq_f_def lib_simps many0_eqs map_res_doc_def mid_final_check_eq assms(3))
qed

lemma eq_f_other:
  assumes "wf_attr a" and "stops attr_char r" and "stops (\<lambda>c. c = 0x3D) r"
  shows "eq_f N (print_attr a @ r) = Err Error"
  using attributedescription_print [OF assms(1,2)] assms(3)
  by (cases r) (auto simp: eq_f_def lib_simps)

lemma non_eq_print:
  assumes "wf_attr a" and "ends r" and "value_text v w"
  shows "non_eq N (print_attr a @ 0x3E # 0x3D # w @ r) = Ok (r, tag_of_item (GreaterOrEqual a v))"
    and "non_eq N (print_attr a @ 0x3C # 0x3D # w @ r) = Ok (r, tag_of_item (LessOrEqual a v))"
    and "non_eq N (print_attr a @ 0x7E # 0x3D # w @ r) = Ok (r, tag_of_item (ApproxMatch a v))"
  using attributedescription_print [OF assms(1)] unescaped_text [OF assms(3) ends_stop [OF assms(2)]]
  by (simp_all add: non_eq_def lib_simps filtertag_def opsimps)

lemma non_eq_colon: "wf_attr a \<Longrightarrow> non_eq N (print_attr a @ 0x3A # r) = Err Error"
  using attributedescription_print by (simp add: non_eq_def lib_simps)

lemma mrule_print:
  assumes "pred_option wf_type m"
  shows "opt_doc (preceded_doc (tag_doc [0x3A]) (attributetype N))
      ((case m of None \<Rightarrow> [] | Some m \<Rightarrow> 0x3A # print_type m) @ 0x3A # 0x3D # r) =
    Ok (0x3A # 0x3D # r, map_option print_type m)"
  using assms attributetype_print [of _ "0x3A # 0x3D # r"]
  by (cases m) (simp_all add: opt_doc_def preceded_doc_def attributetype_stop)

lemma dn_print:
  assumes "dn \<or> pred_option (\<lambda>m. take 2 (print_type m) \<noteq> str ''dn'') m"
  shows "opt_doc (tag_doc [0x3A, 0x64, 0x6E]) ((if dn then [0x3A, 0x64, 0x6E] else []) @
      (case m of None \<Rightarrow> [] | Some m \<Rightarrow> 0x3A # print_type m) @ 0x3A # 0x3D # r) =
    Ok ((case m of None \<Rightarrow> [] | Some m \<Rightarrow> 0x3A # print_type m) @ 0x3A # 0x3D # r, if dn then Some [0x3A, 0x64, 0x6E] else None)"
proof (cases dn)
  case True
  then show ?thesis by (simp add: opt_doc_def)
next
  case False
  have "tag_doc [0x64, 0x6E] (print_type m' @ 0x3A # 0x3D # r) = Err Error" if "m = Some m'" for m'
    using assms False that by (cases "print_type m'"; cases "tl (print_type m')") auto
  with False show ?thesis by (cases m) (simp_all add: opt_doc_def)
qed

lemma extensible_print:
  assumes "wf_item (ExtensibleMatch a m v dn)" and "no_dn_item (ExtensibleMatch a m v dn)"
    and "value_text v w" and "ends r"
    and "i = (case a of None \<Rightarrow> [] | Some a \<Rightarrow> print_attr a) @ (if dn then str '':dn'' else []) @
      (case m of None \<Rightarrow> [] | Some m \<Rightarrow> str '':'' @ print_type m) @ str '':='' @ w @ r"
  shows "item N i = Ok (r, tag_of_item (ExtensibleMatch a m v dn))"
proof -
  define s where "s = (case m of None \<Rightarrow> [] | Some m \<Rightarrow> 0x3A # print_type m) @ 0x3A # 0x3D # w @ r"
  define d where "d = (if dn then [0x3A, 0x64, 0x6E] else []) @ s"
  have dn: "opt_doc (tag_doc [0x3A, 0x64, 0x6E]) d = Ok (s, if dn then Some [0x3A, 0x64, 0x6E] else None)"
    using dn_print [of dn m "w @ r"] assms(2) by (simp add: d_def s_def)
  have m: "opt_doc (preceded_doc (tag_doc [0x3A]) (attributetype N)) s = Ok (0x3A # 0x3D # w @ r, map_option print_type m)"
    using mrule_print [of m "w @ r"] assms(1) by (simp add: s_def)
  have v: "unescaped N (w @ r) = Ok (r, v)" using unescaped_text [OF assms(3) ends_stop [OF assms(4)]] .
  obtain q where q: "d = 0x3A # q" by (cases dn; cases m) (auto simp: d_def s_def)
  have i: "i = (case a of None \<Rightarrow> [] | Some a \<Rightarrow> print_attr a) @ d"
    by (cases m) (simp_all add: assms(5) d_def s_def)
  show ?thesis
  proof (cases a)
    case None
    then obtain m' where m': "m = Some m'" using assms(1) by (cases m) auto
    have "preceded_doc (tag_doc [0x3A]) (attributetype N) s = Ok (0x3A # 0x3D # w @ r, print_type m')"
      using attributetype_print [of m' "0x3A # 0x3D # w @ r"] assms(1) m' by (simp add: preceded_doc_def s_def)
    moreover have "attributedescription N d = Err Error"
      unfolding q by (rule attributedescription_stop) simp
    ultimately show ?thesis
      unfolding i using dn v None m'
      by (simp add: item_def extensible_def eq_f_def non_eq_def attr_dn_mrule_def dn_mrule_def lib_simps
          extensible_tag_def opsimps)
  next
    case (Some a')
    have "attributedescription N (print_attr a' @ d) = Ok (d, print_attr a')"
      using assms(1) Some by (intro attributedescription_print) (simp_all add: q)
    moreover have "eq_f N (print_attr a' @ d) = Err Error" "non_eq N (print_attr a' @ d) = Err Error"
      unfolding q using assms(1) Some by (simp_all add: eq_f_other non_eq_colon)
    ultimately show ?thesis
      unfolding i using dn m v Some
      by (cases m) (simp_all add: item_def extensible_def attr_dn_mrule_def lib_simps extensible_tag_def opsimps)
  qed
qed

lemma item_print:
  assumes "item_text f s" and "wf_item f" and "no_dn_item f" and "ends r"
  shows "item N (s @ r) = Ok (r, tag_of_item f)"
  using assms(1)
proof cases
  case (Equality_Text v w a)
  then show ?thesis using eq_f_parts [of a r "[]" v w "[]"] assms by (simp add: item_def lib_simps eq_tag_def opsimps)
next
  case (Substrings_Text ini w anys fin ws a)
  then show ?thesis
    using eq_f_parts [of a r "anys @ [fin]" ini w ws] eq_tag_substrings [of a ini anys fin] assms
    by (simp add: item_def lib_simps)
next
  case (Present_Text a)
  then show ?thesis using eq_f_parts [of a r "[[]]" "[]" "[]" "[[]]"] assms
    by (simp add: item_def lib_simps eq_tag_def opsimps)
next
  case (ExtensibleMatch_Text v w a m dn)
  then show ?thesis using extensible_print [of a m v dn w r "s @ r"] assms by simp
qed (use assms in \<open>simp_all add: item_def lib_simps eq_f_other non_eq_print\<close>)

end

subsection \<open>Filters\<close>

text \<open>Parsers that never reach the \<open>unimplemented!()\<close> of \<open>filtertag\<close>.\<close>

definition no_panic :: "(bytes, 'o) parser \<Rightarrow> bool" where
  "no_panic p \<longleftrightarrow> (\<forall>i. p i \<noteq> Err Panicked)"

named_theorems calm \<open>parsers that do not panic\<close>

lemma no_panic_tag [calm]: "no_panic (tag_doc t)"
  by (simp add: no_panic_def tag_doc_def)

lemma no_panic_take_while [calm]: "no_panic (take_while_doc f)" "no_panic (take_while1_doc f)" "no_panic number_doc"
  by (simp_all add: no_panic_def take_while_doc_def take_while1_doc_def number_doc_def split: list.split)

lemma no_panic_and_then [calm]:
  "no_panic p \<Longrightarrow> (\<And>x. no_panic (q x)) \<Longrightarrow> no_panic (\<lambda>i. and_then (p i) (\<lambda>(r, x). q x r))"
  by (auto simp: no_panic_def and_then_eq_Err_iff)

lemma no_panic_Ok [calm]: "no_panic (\<lambda>i. Ok (i, x))"
  by (simp add: no_panic_def)

lemma no_panic_comb [calm]:
  "no_panic p \<Longrightarrow> no_panic q \<Longrightarrow> no_panic (preceded_doc p q)"
  "no_panic p \<Longrightarrow> no_panic q \<Longrightarrow> no_panic s \<Longrightarrow> no_panic (delimited_doc p q s)"
  "no_panic p \<Longrightarrow> no_panic (verify_doc p f)"
  "no_panic p \<Longrightarrow> no_panic (recognize_doc p)"
  by (auto simp: no_panic_def preceded_doc_def delimited_doc_def verify_doc_def recognize_doc_def
      and_then_eq_Err_iff split: if_splits)

lemma no_panic_map [calm]:
  "no_panic p \<Longrightarrow> no_panic (map_doc p f)"
  "no_panic p \<Longrightarrow> no_panic (map_res_doc p h)"
  by (auto simp: no_panic_def map_doc_def map_res_doc_def and_then_eq_Err_iff split: option.splits)

lemma no_panic_opt [calm]: "no_panic p \<Longrightarrow> no_panic (opt_doc p)"
  by (auto simp: no_panic_def opt_doc_def split: result.split NomErr.split)

lemma no_panic_alt [calm]: "list_all no_panic ps \<Longrightarrow> no_panic (alt_doc ps)"
  by (auto simp: no_panic_def list_all_iff dest!: alt_doc_Err)

lemma many0_ref_Err: "many0_ref p i = Err Panicked \<Longrightarrow> \<exists>j. length j \<le> length i \<and> p j = Err Panicked"
proof (induction p i rule: many0_ref.induct)
  case (1 p i)
  show ?case
  proof (cases "p i")
    case (Err e)
    with "1.prems" show ?thesis by (cases e) (auto simp: many0_ref.simps [of p i])
  next
    case (Ok z)
    obtain r y where z: "z = (r, y)" by (cases z)
    with Ok "1.prems" have lt: "length r < length i" and "many0_ref p r = Err Panicked"
      by (auto simp: many0_ref.simps [of p i] and_then_eq_Err_iff split: if_splits)
    with "1.IH" [OF Ok z [symmetric] lt] show ?thesis by (meson less_imp_le_nat order_trans)
  qed
qed

lemma no_panic_many0_ref [calm]: "no_panic p \<Longrightarrow> no_panic (many0_ref p)"
  unfolding no_panic_def using many0_ref_Err by blast

text \<open>What a loop of \<open>many0\<close> has consumed.\<close>

lemma many0_ref_spelling:
  assumes "\<And>j r x. length j \<le> length i \<Longrightarrow> p j = Ok (r, x) \<Longrightarrow> \<exists>w. j = w @ r \<and> R x w"
  shows "many0_ref p i = Ok (r, xs) \<Longrightarrow> \<exists>ws. i = concat ws @ r \<and> list_all2 R xs ws"
  using assms
proof (induction p i arbitrary: r xs rule: many0_ref.induct)
  case (1 p i)
  show ?case
  proof (cases "p i")
    case (Err e)
    with "1.prems" show ?thesis by (cases e) (auto simp: many0_ref.simps [of p i] intro: exI [of _ "[]"])
  next
    case (Ok z)
    obtain r' y where z: "z = (r', y)" by (cases z)
    with Ok "1.prems"(1) obtain ys where lt: "length r' < length i" and ys: "many0_ref p r' = Ok (r, ys)" "xs = y # ys"
      by (auto simp: many0_ref.simps [of p i] and_then_eq_Ok_iff split: if_splits)
    have "\<exists>ws. r' = concat ws @ r \<and> list_all2 R ys ws"
      using lt by (intro "1.IH" [OF Ok z [symmetric] lt ys(1)]) (rule "1.prems"(2); simp)
    then obtain ws where "r' = concat ws @ r" "list_all2 R ys ws" by blast
    moreover obtain w where "i = w @ r'" "R y w" using "1.prems"(2) [of i r' y] Ok z by auto
    ultimately show ?thesis using ys(2) by (intro exI [of _ "w # ws"]) simp
  qed
qed

lemma many0_ref_consumed:
  assumes "\<And>j r x. length j \<le> length i \<Longrightarrow> p j = Ok (r, x) \<Longrightarrow> j = pr x @ r \<and> Q x"
    and "many0_ref p i = Ok (r, xs)"
  shows "i = concat (map pr xs) @ r \<and> list_all Q xs"
proof -
  obtain ws where "i = concat ws @ r" "list_all2 (\<lambda>x w. w = pr x \<and> Q x) xs ws"
    using many0_ref_spelling [OF _ assms(2), of "\<lambda>x w. w = pr x \<and> Q x"] assms(1) by blast
  moreover from this(2) have "ws = map pr xs \<and> list_all Q xs" by induction auto
  ultimately show ?thesis by simp
qed

lemma many0_ref_cong:
  assumes "\<And>j. length j \<le> length i \<Longrightarrow> p j = q j"
  shows "many0_ref p i = many0_ref q i"
  using assms
proof (induction p i rule: many0_ref.induct)
  case (1 p i)
  have "many0_ref p r = many0_ref q r" if "p i = Ok (r, x)" and "length r < length i" for r x
    using "1.IH" [OF that(1) refl that(2)] "1.prems" that(2) by simp
  with "1.prems" [of i] show ?case
    by (simp add: many0_ref.simps [of p i] many0_ref.simps [of q i] split: result.split NomErr.split)
qed

lemma and_then_cong: "(\<And>x. r = Ok x \<Longrightarrow> f x = g x) \<Longrightarrow> and_then r f = and_then r g"
  by (cases r) simp_all

context nom_complete_doc
begin

lemma shrink_attributetype [shrink]: "nonincreasing (attributetype N)"
  unfolding attributetype_def numericoid_def descr_def lib_simps many0_eqs by (intro shrink, simp) (intro shrink conjI)

lemma shrink_attributedescription [shrink]: "nonincreasing (attributedescription N)"
  unfolding attributedescription_def lib_simps many0_eqs by (intro shrink)

lemma calm_attributetype [calm]: "no_panic (attributetype N)"
  unfolding attributetype_def numericoid_def descr_def number_def lib_simps
  by (subst many0_eqs(1) [unfolded number_def lib_simps]) (intro calm, simp, intro calm conjI)


lemma calm_attributedescription [calm]: "no_panic (attributedescription N)"
  unfolding attributedescription_def lib_simps many0_eqs by (intro calm)

lemma calm_unescaped [calm]: "no_panic (unescaped N)"
  by (simp add: no_panic_def unescaped_eq split: option.split)

lemma filterop_cases:
  "alt_doc [tag_doc (str ''>=''), tag_doc (str ''<=''), tag_doc (str ''~='')] i = Ok (r, s) \<Longrightarrow>
     s \<in> {str ''>='', str ''<='', str ''~=''}"
  by (drule alt_doc_Ok) (auto simp: tag_doc_def split: if_splits)

lemma filterop_parser:
  "nonincreasing (alt_doc [tag_doc (str ''>=''), tag_doc (str ''<=''), tag_doc (str ''~='')])"
  "no_panic (alt_doc [tag_doc (str ''>=''), tag_doc (str ''<=''), tag_doc (str ''~='')])"
  by (intro shrink calm; simp; intro shrink calm conjI)+

lemma non_eq_Ok:
  assumes "non_eq N i = Ok (r, t)"
  obtains j k attr op v n where "attributedescription N i = Ok (j, attr)"
    and "alt_doc [tag_doc (str ''>=''), tag_doc (str ''<=''), tag_doc (str ''~='')] j = Ok (k, op)"
    and "unescaped N k = Ok (r, v)" and "filtertag op = Some n"
    and "t = Tag_Sequence n Context [OctetString attr, OctetString v]"
  using assms unfolding non_eq_def lib_simps
  by (auto simp: and_then_eq_Ok_iff simp del: str_simps alt_doc.simps split: option.splits)

lemma shrink_non_eq [shrink]: "nonincreasing (non_eq N)"
  by (rule nonincreasingI, erule non_eq_Ok)
    (meson nonincreasingD shrink_attributedescription filterop_parser(1) shrink_unescaped order_trans)

text \<open>The \<open>unimplemented!()\<close> branch of \<open>filtertag\<close> is not reached.\<close>

lemma calm_non_eq [calm]: "no_panic (non_eq N)"
proof -
  have False
    if "alt_doc [tag_doc (str ''>=''), tag_doc (str ''<=''), tag_doc (str ''~='')] j = Ok (k, op)"
      and "filtertag op = None" for j k op
    using filterop_cases [OF that(1)] that(2) by (auto simp: filtertag_def)
  then show ?thesis
    using calm_attributedescription filterop_parser(2) calm_unescaped
    unfolding no_panic_def non_eq_def lib_simps
    by (auto simp: and_then_eq_Err_iff simp del: str_simps alt_doc.simps split: option.splits)
qed

lemma shrink_eq_f [shrink]: "nonincreasing (eq_f N)"
  unfolding eq_f_def lib_simps many0_eqs by (intro shrink)

lemma calm_eq_f [calm]: "no_panic (eq_f N)"
  unfolding eq_f_def lib_simps many0_eqs by (intro calm)

lemma shrink_extensible [shrink]: "nonincreasing (extensible N)"
  unfolding extensible_def attr_dn_mrule_def dn_mrule_def lib_simps
  by (intro shrink, simp) (intro shrink conjI)

lemma calm_extensible [calm]: "no_panic (extensible N)"
  unfolding extensible_def attr_dn_mrule_def dn_mrule_def lib_simps
  by (intro calm, simp) (intro calm conjI)

lemma shrink_item [shrink]: "nonincreasing (item N)"
  unfolding item_def lib_simps by (intro shrink, simp) (intro shrink conjI)

lemma calm_item [calm]: "no_panic (item N)"
  unfolding item_def lib_simps by (intro calm, simp) (intro calm conjI)

end

text \<open>The recursion between the parsers: each returns at most its input and does not panic.\<close>

definition tame_at :: "(bytes, 'o) parser \<Rightarrow> bytes \<Rightarrow> bool" where
  "tame_at p i \<longleftrightarrow> (\<forall>r x. p i = Ok (r, x) \<longrightarrow> length r \<le> length i) \<and> p i \<noteq> Err Panicked"

lemma tame_at_iff: "(\<forall>i. tame_at p i) \<longleftrightarrow> nonincreasing p \<and> no_panic p"
  by (auto simp: tame_at_def nonincreasing_def no_panic_def)

lemma tame_guard:
  assumes "\<And>j. c j \<Longrightarrow> tame_at p j"
  shows "nonincreasing (\<lambda>j. if c j then p j else Err Failure)" and "no_panic (\<lambda>j. if c j then p j else Err Failure)"
  using assms by (auto simp: nonincreasing_def no_panic_def tame_at_def)

lemma tame_atI: "nonincreasing q \<Longrightarrow> no_panic q \<Longrightarrow> p i = q i \<Longrightarrow> tame_at p i"
  by (auto simp: nonincreasing_def no_panic_def tame_at_def)

context nom_complete_doc
begin

lemma tame_filter_f:
  assumes "\<And>j. length j < length i \<Longrightarrow> tame_at (filtercomp N) j"
  shows "tame_at (filter_f N) i"
proof -
  let ?q = "delimited_doc (tag_doc (str ''('')) (\<lambda>j. if length j < length i then filtercomp N j else Err Failure)
    (tag_doc (str '')''))"
  have "nonincreasing ?q" "no_panic ?q" by (intro shrink calm tame_guard assms; assumption)+
  then show ?thesis by (rule tame_atI) (simp only: filter_f.simps [of N i] lib_simps)
qed

lemma tame_filtercomp:
  assumes "\<And>j. length j \<le> length i \<Longrightarrow> tame_at (and_f N) j"
    and "\<And>j. length j \<le> length i \<Longrightarrow> tame_at (or_f N) j"
    and "\<And>j. length j \<le> length i \<Longrightarrow> tame_at (not_f N) j"
  shows "tame_at (filtercomp N) i"
proof -
  let ?g = "\<lambda>p j. if length j \<le> length i then p N j else Err Failure"
  let ?q = "alt_doc [?g and_f, ?g or_f, ?g not_f, item N]"
  have "list_all nonincreasing [?g and_f, ?g or_f, ?g not_f, item N]"
    by (unfold list.pred_inject) (intro conjI list.pred_inject(1) shrink tame_guard assms; assumption)
  moreover have "list_all no_panic [?g and_f, ?g or_f, ?g not_f, item N]"
    by (unfold list.pred_inject) (intro conjI list.pred_inject(1) calm tame_guard assms; assumption)
  ultimately have "nonincreasing ?q" "no_panic ?q"
    by (blast intro: shrink_alt_doc no_panic_alt)+
  then show ?thesis by (rule tame_atI) (simp only: filtercomp.simps [of N i] lib_simps)
qed

lemma tame_filterlist:
  assumes "\<And>j. length j \<le> length i \<Longrightarrow> tame_at (filter_f N) j"
  shows "tame_at (filterlist N) i"
proof -
  let ?g = "\<lambda>j. if length j \<le> length i then filter_f N j else Err Failure"
  have g: "nonincreasing ?g" "no_panic ?g" by (intro tame_guard assms; assumption)+
  then have "nonincreasing (many0_ref ?g)" "no_panic (many0_ref ?g)" by (intro shrink calm)+
  then show ?thesis by (rule tame_atI) (simp only: filterlist.simps [of N i] many0_Tag [OF g(1)])
qed

lemma tame_and_or_f:
  assumes "\<And>j. length j \<le> length i \<Longrightarrow> tame_at (filterlist N) j"
  shows "tame_at (and_f N) i" and "tame_at (or_f N) i"
proof -
  let ?q = "\<lambda>c f. map_doc (preceded_doc (tag_doc (str c)) (\<lambda>j. if length j \<le> length i then filterlist N j else Err Failure))
    (Tag_Sequence f Context)"
  have q: "nonincreasing (?q c f)" "no_panic (?q c f)" for c f
    by (intro shrink calm tame_guard assms; assumption)+
  show "tame_at (and_f N) i" "tame_at (or_f N) i"
    by (rule tame_atI [OF q], simp only: and_f.simps [of N i] or_f.simps [of N i] lib_simps)+
qed

lemma tame_not_f:
  assumes "\<And>j. length j \<le> length i \<Longrightarrow> tame_at (filter_f N) j"
  shows "tame_at (not_f N) i"
proof -
  let ?q = "map_doc (preceded_doc (tag_doc (str ''!'')) (\<lambda>j. if length j \<le> length i then filter_f N j else Err Failure))
    (Tag_ExplicitTag NOT_FILT Context)"
  have "nonincreasing ?q" "no_panic ?q" by (intro shrink calm tame_guard assms; assumption)+
  then show ?thesis by (rule tame_atI) (simp only: not_f.simps [of N i] lib_simps)
qed

end

lemma tame_all:
  "nom_complete_doc N \<Longrightarrow> tame_at (filter_f N) i" "nom_complete_doc N \<Longrightarrow> tame_at (filtercomp N) i"
  "nom_complete_doc N \<Longrightarrow> tame_at (filterlist N) i" "nom_complete_doc N \<Longrightarrow> tame_at (and_f N) i"
  "nom_complete_doc N \<Longrightarrow> tame_at (or_f N) i" "nom_complete_doc N \<Longrightarrow> tame_at (not_f N) i"
proof (induction N i and N i and N i and N i and N i and N i
    rule: filter_f_filtercomp_filterlist_and_f_or_f_not_f.induct)
qed (blast intro: nom_complete_doc.tame_filter_f nom_complete_doc.tame_filtercomp nom_complete_doc.tame_filterlist
    nom_complete_doc.tame_and_or_f nom_complete_doc.tame_not_f)+

context nom_complete_doc
begin

lemma shrink_filters [shrink]:
  "nonincreasing (filter_f N)" "nonincreasing (filtercomp N)" "nonincreasing (filterlist N)"
  using tame_all [OF nom_complete_doc_axioms] by (auto simp: nonincreasing_def tame_at_def)

lemma calm_filters [calm]: "no_panic (filter_f N)" "no_panic (filtercomp N)" "no_panic (filterlist N)"
  using tame_all [OF nom_complete_doc_axioms] by (auto simp: no_panic_def tame_at_def)

text \<open>The equations of the source, without the tests on the length of the input.\<close>

lemma filter_unfold: "filter_f N i = delimited_doc (tag_doc (str ''('')) (filtercomp N) (tag_doc (str '')'')) i"
proof -
  have "length r < length i" if "tag_doc (str ''('') i = Ok (r, x)" for r x
    using that by (cases i) (auto split: if_splits)
  then show ?thesis
    by (auto simp: filter_f.simps [of N i] lib_simps delimited_doc_def simp del: str_simps intro!: and_then_cong)
qed

lemma filtercomp_unfold: "filtercomp N i = alt_doc [and_f N, or_f N, not_f N, item N] i"
  by (simp add: filtercomp.simps [of N i] lib_simps alt_doc_step del: alt_doc.simps(3))

lemma filterlist_unfold: "filterlist N i = many0_ref (filter_f N) i"
proof -
  let ?g = "\<lambda>j. if length j \<le> length i then filter_f N j else Err Failure"
  have "nonincreasing ?g" using shrink_filters(1) by (auto simp: nonincreasing_def)
  then have "filterlist N i = many0_ref ?g i" by (simp add: filterlist.simps [of N i] many0_Tag)
  also have "\<dots> = many0_ref (filter_f N) i" by (rule many0_ref_cong) simp
  finally show ?thesis .
qed

lemma tag_shrink: "tag_doc t i = Ok (r, x) \<Longrightarrow> length r \<le> length i"
  by (rule nonincreasingD [OF shrink_tag_doc])

lemma op_unfold:
  "and_f N i = map_doc (preceded_doc (tag_doc (str ''&'')) (filterlist N)) (Tag_Sequence 0 Context) i"
  "or_f N i = map_doc (preceded_doc (tag_doc (str ''|'')) (filterlist N)) (Tag_Sequence 1 Context) i"
  "not_f N i = map_doc (preceded_doc (tag_doc (str ''!'')) (filter_f N)) (Tag_ExplicitTag 2 Context) i"
  unfolding and_f.simps [of N i] or_f.simps [of N i] not_f.simps [of N i] lib_simps map_doc_def preceded_doc_def opsimps
  by (auto simp: tag_shrink simp del: str_simps intro!: arg_cong2 [where f = and_then] and_then_cong)

lemma filter_stop: "ends r \<Longrightarrow> filter_f N r = Err Error"
  by (cases r) (auto simp: filter_unfold delimited_doc_def ends_def)

lemma filter_text_ne: "filter_text f w \<Longrightarrow> w \<noteq> []"
  by (auto elim: filter_text.cases)

lemma item_text_hd:
  assumes "item_text f s" and "wf_item f"
  shows "\<exists>c s'. s = c # s' \<and> c \<notin> {0x26, 0x7C, 0x21, 0x28}"
proof -
  have t: "\<exists>c s. print_type t = c # s \<and> alnum_hyphen c" if "wf_type t" for t
    using that by (cases t) (auto simp: wf_number_def neq_Nil_conv class_facts)
  have a: "\<exists>c s. print_attr a = c # s \<and> alnum_hyphen c" if "wf_attr a" for a
    using that by (cases a) (auto dest!: t)
  have n: "\<not> alnum_hyphen 0x26" "\<not> alnum_hyphen 0x7C" "\<not> alnum_hyphen 0x21" "\<not> alnum_hyphen 0x28"
    by (simp_all add: alnum_hyphen_def ascii_alpha_def ascii_digit_def in_range_def)
  show ?thesis
    using assms by cases (auto dest!: a simp: n split: option.splits)
qed

lemma filtercomp_item:
  assumes "item_text f s" and "wf_item f" and "no_dn_item f" and "ends r"
  shows "filtercomp N (s @ r) = Ok (r, tag_of_item f)"
  using item_text_hd [OF assms(1,2)] item_print [OF assms]
  by (auto simp: filtercomp_unfold op_unfold map_doc_def preceded_doc_def)

lemma filterlist_print:
  assumes "list_all2 (\<lambda>f w. filter_text f w \<and> (wf_filter f \<longrightarrow> no_dn_rule f \<longrightarrow> (\<forall>r. filter_f N (w @ r) = Ok (r, tag_of f)))) fs ws"
    and "list_all wf_filter fs" and "list_all no_dn_rule fs"
  shows "filterlist N (concat ws @ 0x29 # r) = Ok (0x29 # r, map tag_of fs)"
  unfolding filterlist_unfold
proof (rule many0_ref_spelled [where ok = "\<lambda>_. True" and R = "\<lambda>t w. w \<noteq> [] \<and> (\<forall>r. filter_f N (w @ r) = Ok (r, t))"])
  show "list_all2 (\<lambda>t w. w \<noteq> [] \<and> (\<forall>r. filter_f N (w @ r) = Ok (r, t))) (map tag_of fs) ws"
    using assms by (induction fs ws rule: list_all2_induct) (auto dest: filter_text_ne)
qed (simp_all add: filter_stop ends_def)

lemma filter_print:
  "filter_text f s \<Longrightarrow> wf_filter f \<Longrightarrow> no_dn_rule f \<Longrightarrow> filter_f N (s @ r) = Ok (r, tag_of f)"
proof (induction f s arbitrary: r rule: filter_text.induct)
  case (Item_Text i w)
  then show ?case
    using filtercomp_item [of i w "0x29 # r"] by (simp add: filter_unfold delimited_doc_def ends_def)
next
  case (Not_Text f w)
  then show ?case
    by (simp add: filter_unfold delimited_doc_def filtercomp_unfold op_unfold map_doc_def preceded_doc_def)
next
  case (And_Text fs ws)
  then have "filterlist N (concat ws @ 0x29 # r) = Ok (0x29 # r, map tag_of fs)"
    by (intro filterlist_print) (auto elim: list_all2_mono)
  then show ?case
    by (simp add: filter_unfold delimited_doc_def filtercomp_unfold op_unfold map_doc_def preceded_doc_def)
next
  case (Or_Text fs ws)
  then have "filterlist N (concat ws @ 0x29 # r) = Ok (0x29 # r, map tag_of fs)"
    by (intro filterlist_print) (auto elim: list_all2_mono)
  then show ?case
    by (simp add: filter_unfold delimited_doc_def filtercomp_unfold op_unfold map_doc_def preceded_doc_def)
qed

lemma filtexpr_item:
  assumes "item_text f s" and "wf_item f" and "no_dn_item f"
  shows "filtexpr N s = Ok ([], tag_of_item f)"
  using item_print [OF assms, of "[]"] item_text_hd [OF assms(1,2)]
  by (auto simp: filtexpr_def lib_simps filter_unfold delimited_doc_def ends_def)

lemma filtexpr_print:
  assumes "filter_string f s" and "wf_filter f" and "no_dn_rule f"
  shows "filtexpr N s = Ok ([], tag_of f)"
  using assms filter_print [of f s "[]"] filtexpr_item
  by (auto simp: filter_string_def filtexpr_def lib_simps)

lemma calm_filtexpr [calm]: "no_panic (filtexpr N)"
  unfolding filtexpr_def lib_simps by (intro calm) (simp add: calm)

end

subsection \<open>Soundness: what is accepted\<close>

lemma tag_doc_Ok: "tag_doc t i = Ok (r, x) \<longleftrightarrow> i = t @ r \<and> x = t"
  by (auto simp: tag_doc_def) (metis append_take_drop_id)

lemma take_while1_Ok:
  "take_while1_doc f i = Ok (r, d) \<Longrightarrow> i = d @ r \<and> d \<noteq> [] \<and> list_all f d"
  by (auto simp: take_while1_doc_def list_all_iff dest: set_takeWhileD split: if_splits)

text \<open>What a parser of filters has read: a filter, whose tag it returns, in one of its texts.\<close>

definition item_read :: "bytes \<Rightarrow> bytes \<Rightarrow> Tag \<Rightarrow> bool" where
  "item_read i r t \<longleftrightarrow> (\<exists>f s. wf_item f \<and> no_dn_item f \<and> t = tag_of_item f \<and> item_text f s \<and> i = s @ r)"

lemma item_readI:
  "item_text f s \<Longrightarrow> i = s @ r \<Longrightarrow> wf_item f \<Longrightarrow> no_dn_item f \<Longrightarrow> t = tag_of_item f \<Longrightarrow> item_read i r t"
  by (auto simp: item_read_def)

lemma eq_tag_sound:
  assumes "wf_attr a" and "list_all (\<lambda>v. v \<noteq> []) (butlast parts)"
    and "value_text ini w" and "list_all2 value_text parts ws"
  shows "item_read (print_attr a @ 0x3D # w @ concat (map (\<lambda>w. 0x2A # w) ws) @ r) r (eq_tag (print_attr a) ini parts)"
proof (cases parts rule: rev_cases)
  case Nil
  with assms show ?thesis by (intro item_readI [OF Equality_Text]) (auto simp: eq_tag_def opsimps)
next
  case (snoc anys fin)
  show ?thesis
  proof (cases "ini = [] \<and> anys = [] \<and> fin = []")
    case True
    with snoc assms show ?thesis
      by (intro item_readI [OF Present_Text]) (auto simp: eq_tag_def opsimps list_all2_Cons1)
  next
    case False
    with snoc assms have wf: "wf_item (Substrings a ini anys fin)" by simp
    show ?thesis
      using wf assms(3,4) eq_tag_substrings [OF wf] snoc by (intro item_readI [OF Substrings_Text]) simp_all
  qed
qed

context nom_complete_doc
begin

lemma number_sound: "number N i = Ok (r, d) \<Longrightarrow> i = d @ r \<and> wf_number d"
  by (auto simp: number_def lib_simps verify_doc_def and_then_eq_Ok_iff wf_number_def
      dest!: take_while1_Ok split: if_splits)

lemma numericoid_sound:
  assumes "numericoid N i = Ok (r, s)"
  shows "\<exists>t. wf_type t \<and> s = print_type t \<and> i = s @ r"
proof -
  obtain j n ns where n: "number N i = Ok (j, n)"
    and ns: "many0_ref (preceded_doc (tag_doc [0x2E]) (number N)) j = Ok (r, ns)"
    and s: "s = take (length i - length r) i"
    using assms by (auto simp: numericoid_def lib_simps many0_eqs recognize_doc_def and_then_eq_Ok_iff)
  have "j = concat (map (\<lambda>d. 0x2E # d) ns) @ r \<and> list_all wf_number ns"
    by (rule many0_ref_consumed [OF _ ns])
      (auto simp: preceded_doc_def and_then_eq_Ok_iff tag_doc_Ok simp del: tag_doc_Cons dest!: number_sound)
  with number_sound [OF n] s show ?thesis by (intro exI [of _ "NumericOid n ns"]) simp
qed

lemma descr_sound:
  assumes "descr N i = Ok (r, s)"
  shows "\<exists>t. wf_type t \<and> s = print_type t \<and> i = s @ r"
proof -
  obtain c j where i: "i = c # j" and "ascii_alpha c" and r: "r = dropWhile alnum_hyphen j"
    and s: "s = take (length i - length r) i"
    using assms by (auto simp: descr_def lib_simps is_alnum_hyphen_eq recognize_doc_def verify_doc_def number_doc_def
        take_while_doc_def and_then_eq_Ok_iff split: list.splits if_splits)
  define w where "w = takeWhile alnum_hyphen j"
  have "j = w @ r" using r by (simp add: w_def)
  with i s have "s = c # w" by (simp add: Suc_diff_le)
  moreover have "list_all alnum_hyphen w" by (auto simp: w_def list_all_iff dest: set_takeWhileD)
  ultimately show ?thesis
    using i \<open>j = w @ r\<close> \<open>ascii_alpha c\<close> by (intro exI [of _ "Descr s"]) simp
qed

lemma attributetype_sound:
  "attributetype N i = Ok (r, s) \<Longrightarrow> \<exists>t. wf_type t \<and> s = print_type t \<and> i = s @ r"
  using numericoid_sound descr_sound by (auto simp: attributetype_def lib_simps simp del: alt_doc.simps dest!: alt_doc_Ok)

lemma attributedescription_sound:
  assumes "attributedescription N i = Ok (r, s)"
  shows "\<exists>a. wf_attr a \<and> s = print_attr a \<and> i = s @ r"
proof -
  obtain j u opts where u: "attributetype N i = Ok (j, u)"
    and opts: "many0_ref (preceded_doc (tag_doc [0x3B]) (take_while1_doc alnum_hyphen)) j = Ok (r, opts)"
    and s: "s = take (length i - length r) i"
    using assms by (auto simp: attributedescription_def lib_simps many0_eqs is_alnum_hyphen_eq recognize_doc_def and_then_eq_Ok_iff)
  have "j = concat (map (\<lambda>d. 0x3B # d) opts) @ r \<and> list_all wf_option opts"
    by (rule many0_ref_consumed [OF _ opts])
      (auto simp: preceded_doc_def and_then_eq_Ok_iff tag_doc_Ok wf_option_def simp del: tag_doc_Cons dest!: take_while1_Ok)
  moreover obtain v where "wf_type v" "i = print_type v @ j" using attributetype_sound [OF u] by blast
  ultimately show ?thesis using s by (intro exI [of _ "AttrDesc v opts"]) simp
qed

lemma unescaped_sound: "unescaped N i = Ok (r, v) \<Longrightarrow> \<exists>w. value_text v w \<and> i = w @ r"
  by (intro exI [of _ "takeWhile is_value_char i"])
    (auto simp: unescaped_eq value_text_iff list_all_iff dest: set_takeWhileD split: option.splits)

lemma stars_sound:
  assumes "many0_ref (preceded_doc (tag_doc [0x2A]) (unescaped N)) i = Ok (r, parts)"
  shows "\<exists>ws. list_all2 value_text parts ws \<and> i = concat (map (\<lambda>w. 0x2A # w) ws) @ r"
proof -
  have "\<exists>w. j = w @ r' \<and> (\<exists>u. value_text x u \<and> w = 0x2A # u)"
    if "preceded_doc (tag_doc [0x2A]) (unescaped N) j = Ok (r', x)" for j r' x
    using that by (auto simp: preceded_doc_def and_then_eq_Ok_iff tag_doc_Ok simp del: tag_doc_Cons dest!: unescaped_sound)
  then obtain us where "i = concat us @ r" "list_all2 (\<lambda>v w. \<exists>u. value_text v u \<and> w = 0x2A # u) parts us"
    using many0_ref_spelling [OF _ assms, of "\<lambda>v w. \<exists>u. value_text v u \<and> w = 0x2A # u"] by blast
  moreover from this(2) have "\<exists>ws. list_all2 value_text parts ws \<and> us = map (\<lambda>w. 0x2A # w) ws"
  proof induction
    case (Cons x xs y ys)
    then obtain u ws where "value_text x u" "y = 0x2A # u" "list_all2 value_text xs ws" "ys = map (\<lambda>w. 0x2A # w) ws" by blast
    then show ?case by (intro exI [of _ "u # ws"]) simp
  qed simp
  ultimately show ?thesis by blast
qed

lemma eq_f_sound:
  assumes "eq_f N i = Ok (r, t)"
  shows "item_read i r t"
proof -
  obtain j attr k l ini parts where a: "attributedescription N i = Ok (0x3D # k, attr)"
    and v: "unescaped N k = Ok (l, ini)"
    and p: "many0_ref (preceded_doc (tag_doc [0x2A]) (unescaped N)) l = Ok (r, parts)"
    and ne: "list_all (\<lambda>v. v \<noteq> []) (butlast parts)" and t: "t = eq_tag attr ini parts"
    using assms
    by (auto simp: eq_f_def lib_simps many0_eqs and_then_eq_Ok_iff map_res_doc_def mid_final_check_eq tag_doc_Ok
        simp del: tag_doc_Cons split: if_splits)
  obtain d where d: "wf_attr d" "attr = print_attr d" "i = print_attr d @ 0x3D # k"
    using attributedescription_sound [OF a] by blast
  obtain w where w: "value_text ini w" "k = w @ l" using unescaped_sound [OF v] by blast
  obtain ws where ws: "list_all2 value_text parts ws" "l = concat (map (\<lambda>w. 0x2A # w) ws) @ r"
    using stars_sound [OF p] by blast
  show ?thesis unfolding t d(2,3) w(2) ws(2) by (rule eq_tag_sound [OF d(1) ne w(1) ws(1)])
qed

lemma non_eq_sound:
  assumes "non_eq N i = Ok (r, t)"
  shows "item_read i r t"
  using assms
proof (rule non_eq_Ok)
  fix j k attr op v n
  assume a: "attributedescription N i = Ok (j, attr)" and v: "unescaped N k = Ok (r, v)" and n: "filtertag op = Some n"
    and op: "alt_doc [tag_doc (str ''>=''), tag_doc (str ''<=''), tag_doc (str ''~='')] j = Ok (k, op)"
    and t: "t = Tag_Sequence n Context [OctetString attr, OctetString v]"
  obtain d where d: "wf_attr d" "attr = print_attr d" "i = print_attr d @ j"
    using attributedescription_sound [OF a] by blast
  obtain w where w: "value_text v w" "k = w @ r" using unescaped_sound [OF v] by blast
  have "j = op @ k" "op \<in> {str ''>='', str ''<='', str ''~=''}"
    using alt_doc_Ok [OF op] by (auto simp: tag_doc_Ok simp del: tag_doc_Cons)
  with n d w t show ?thesis
    by (elim insertE)
      (auto simp: filtertag_def opsimps intro: item_readI [OF GreaterOrEqual_Text] item_readI [OF LessOrEqual_Text]
        item_readI [OF ApproxMatch_Text])
qed

lemma dn_flag_sound:
  assumes "opt_doc (tag_doc [0x3A, 0x64, 0x6E]) i = Ok (j, dn)"
  shows "i = (if dn \<noteq> None then [0x3A, 0x64, 0x6E] else []) @ j"
  using assms by (auto simp: opt_doc_def tag_doc_Ok simp del: tag_doc_Cons split: result.splits NomErr.splits)

lemma dn_not_taken:
  assumes "opt_doc (tag_doc [0x3A, 0x64, 0x6E]) i = Ok (j, None)" and "j = 0x3A # s @ k" and "k = 0x3A # q"
  shows "take 2 s \<noteq> str ''dn''"
proof
  assume "take 2 s = str ''dn''"
  then obtain s' where "s = 0x64 # 0x6E # s'"
    by (cases s; cases "tl s") auto
  with assms show False by (auto simp: opt_doc_def split: result.splits NomErr.splits if_splits)
qed

lemma extensible_tag_eq:
  "extensible_tag (map_option print_type m) (map_option print_attr a) v dn = tag_of_item (ExtensibleMatch a m v dn)"
  by (cases m; cases a) (simp_all add: extensible_tag_def opsimps)

lemma mrule_sound:
  assumes "opt_doc (preceded_doc (tag_doc [0x3A]) (attributetype N)) k = Ok (l, mrule)"
  obtains m where "mrule = map_option print_type m" "pred_option wf_type m"
    "k = (case m of None \<Rightarrow> [] | Some m \<Rightarrow> 0x3A # print_type m) @ l"
proof (cases mrule)
  case None
  with assms have "k = l" by (auto simp: opt_doc_def split: result.splits NomErr.splits)
  with None show thesis by (intro that [of None]) simp_all
next
  case (Some s)
  then obtain w where w: "k = 0x3A # w" "attributetype N w = Ok (l, s)"
    using assms by (auto simp: opt_doc_def preceded_doc_def and_then_eq_Ok_iff tag_doc_Ok simp del: tag_doc_Cons
        split: result.splits NomErr.splits)
  obtain u where "wf_type u" "s = print_type u" "w = s @ l" using attributetype_sound [OF w(2)] by blast
  with Some w(1) show thesis by (intro that [of "Some u"]) simp_all
qed

lemma attr_dn_mrule_sound:
  assumes "attr_dn_mrule N i = Ok (r, t)"
  shows "item_read i r t"
proof -
  obtain j attr k dn l mrule q v where a: "attributedescription N i = Ok (j, attr)"
    and dn: "opt_doc (tag_doc [0x3A, 0x64, 0x6E]) j = Ok (k, dn)"
    and m: "opt_doc (preceded_doc (tag_doc [0x3A]) (attributetype N)) k = Ok (0x3A # 0x3D # l, mrule)"
    and v: "unescaped N l = Ok (r, v)" and t: "t = extensible_tag mrule (Some attr) v (dn \<noteq> None)"
    using assms by (auto simp: attr_dn_mrule_def lib_simps and_then_eq_Ok_iff tag_doc_Ok simp del: tag_doc_Cons)
  obtain d where d: "wf_attr d" "attr = print_attr d" "i = attr @ j" using attributedescription_sound [OF a] by blast
  obtain m where m: "mrule = map_option print_type m" "pred_option wf_type m"
    "k = (case m of None \<Rightarrow> [] | Some m \<Rightarrow> 0x3A # print_type m) @ 0x3A # 0x3D # l"
    using mrule_sound [OF m] by blast
  obtain w where w: "value_text v w" "l = w @ r" using unescaped_sound [OF v] by blast
  have nodn: "dn \<noteq> None \<or> pred_option (\<lambda>m. take 2 (print_type m) \<noteq> str ''dn'') m"
    using dn m(3) dn_not_taken [of j k] dn_flag_sound [OF dn] by (cases m) auto
  have i: "i = ((case Some d of None \<Rightarrow> [] | Some a \<Rightarrow> print_attr a) @ (if dn \<noteq> None then str '':dn'' else []) @
     (case m of None \<Rightarrow> [] | Some m \<Rightarrow> str '':'' @ print_type m) @ str '':='' @ w) @ r"
    using d dn_flag_sound [OF dn] m(3) w(2) by (cases m) simp_all
  show ?thesis
    by (rule item_readI [OF ExtensibleMatch_Text [OF w(1)] i])
      (use d(1) m(2) nodn extensible_tag_eq [of m "Some d" v "dn \<noteq> None"] in \<open>simp_all add: t m(1) d(2)\<close>)
qed

lemma dn_mrule_sound:
  assumes "dn_mrule N i = Ok (r, t)"
  shows "item_read i r t"
proof -
  obtain k dn u mrule l v where dn: "opt_doc (tag_doc [0x3A, 0x64, 0x6E]) i = Ok (k, dn)"
    and k: "k = 0x3A # u" and m: "attributetype N u = Ok (0x3A # 0x3D # l, mrule)"
    and v: "unescaped N l = Ok (r, v)" and t: "t = extensible_tag (Some mrule) None v (dn \<noteq> None)"
    using assms
    by (auto simp: dn_mrule_def lib_simps preceded_doc_def and_then_eq_Ok_iff tag_doc_Ok simp del: tag_doc_Cons)
  obtain m where m': "wf_type m" "mrule = print_type m" "u = print_type m @ 0x3A # 0x3D # l"
    using attributetype_sound [OF m] by blast
  obtain w where w: "value_text v w" "l = w @ r" using unescaped_sound [OF v] by blast
  have nodn: "dn \<noteq> None \<or> take 2 (print_type m) \<noteq> str ''dn''"
    using dn k m'(3) dn_not_taken [of i k] by (cases dn) auto
  have i: "i = ((case None of None \<Rightarrow> [] | Some a \<Rightarrow> print_attr a) @ (if dn \<noteq> None then str '':dn'' else []) @
     (case Some m of None \<Rightarrow> [] | Some m \<Rightarrow> str '':'' @ print_type m) @ str '':='' @ w) @ r"
    using dn_flag_sound [OF dn] k m'(3) w(2) by simp
  show ?thesis
    by (rule item_readI [OF ExtensibleMatch_Text [OF w(1)] i])
      (use m'(1) nodn extensible_tag_eq [of "Some m" None v "dn \<noteq> None"] in \<open>simp_all add: t m'(2)\<close>)
qed

lemma item_sound: "item N i = Ok (r, t) \<Longrightarrow> item_read i r t"
  using eq_f_sound non_eq_sound attr_dn_mrule_sound dn_mrule_sound
  by (auto simp: item_def extensible_def lib_simps simp del: alt_doc.simps dest!: alt_doc_Ok)

end

text \<open>The same for filters and for the lists of filters.\<close>

definition filter_read :: "Tag \<Rightarrow> bytes \<Rightarrow> bool" where
  "filter_read t s \<longleftrightarrow> (\<exists>f. wf_filter f \<and> no_dn_rule f \<and> t = tag_of f \<and> filter_text f s)"

lemma filter_readI: "filter_text f s \<Longrightarrow> wf_filter f \<Longrightarrow> no_dn_rule f \<Longrightarrow> t = tag_of f \<Longrightarrow> filter_read t s"
  by (auto simp: filter_read_def)

lemma filters_read:
  "list_all2 filter_read ts ws \<Longrightarrow>
    \<exists>fs. list_all wf_filter fs \<and> list_all no_dn_rule fs \<and> ts = map tag_of fs \<and> list_all2 filter_text fs ws"
proof (induction rule: list_all2_induct)
  case (Cons t ts w ws)
  then obtain f fs where "wf_filter f \<and> no_dn_rule f \<and> t = tag_of f \<and> filter_text f w"
    and "list_all wf_filter fs \<and> list_all no_dn_rule fs \<and> ts = map tag_of fs \<and> list_all2 filter_text fs ws"
    by (auto simp: filter_read_def)
  then show ?case by (intro exI [of _ "f # fs"]) simp
qed simp

context nom_complete_doc
begin

lemma filtercomp_cases:
  assumes "filtercomp N j = Ok (r, t)"
  obtains (And) k ts where "j = 0x26 # k" "many0_ref (filter_f N) k = Ok (r, ts)" "t = Tag_Sequence 0 Context ts"
    | (Or) k ts where "j = 0x7C # k" "many0_ref (filter_f N) k = Ok (r, ts)" "t = Tag_Sequence 1 Context ts"
    | (Not) k u where "j = 0x21 # k" "filter_f N k = Ok (r, u)" "t = Tag_ExplicitTag 2 Context u"
    | (Item) "item N j = Ok (r, t)"
proof -
  consider "and_f N j = Ok (r, t)" | "or_f N j = Ok (r, t)" | "not_f N j = Ok (r, t)" | "item N j = Ok (r, t)"
    using assms by (auto simp: filtercomp_unfold simp del: alt_doc.simps dest!: alt_doc_Ok)
  then show thesis
    by cases (auto simp: op_unfold map_doc_def preceded_doc_def filterlist_unfold and_then_eq_Ok_iff tag_doc_Ok
        simp del: tag_doc_Cons intro: that)
qed

lemma filter_sound: "filter_f N i = Ok (r, t) \<Longrightarrow> \<exists>s. filter_read t s \<and> i = s @ r"
proof (induction i arbitrary: r t rule: length_induct)
  case (1 i)
  obtain j where i: "i = 0x28 # j" and comp: "filtercomp N j = Ok (0x29 # r, t)"
    using "1.prems" by (auto simp: filter_unfold delimited_doc_def and_then_eq_Ok_iff tag_doc_Ok simp del: tag_doc_Cons)
  have ih: "\<exists>s. k = s @ q \<and> filter_read u s" if "length k \<le> length j" and "filter_f N k = Ok (q, u)" for k q u
    using "1.IH" i that by (metis le_imp_less_Suc length_Cons)
  have l: "\<exists>ws fs. k = concat ws @ q \<and> list_all wf_filter fs \<and> list_all no_dn_rule fs \<and> ts = map tag_of fs \<and>
      list_all2 filter_text fs ws"
    if loop: "many0_ref (filter_f N) k = Ok (q, ts)" and k: "length k < length j" for k q ts
  proof -
    obtain ws where "k = concat ws @ q" "list_all2 filter_read ts ws"
      using many0_ref_spelling [OF _ loop, of filter_read] ih k by (meson less_imp_le_nat order_trans)
    with filters_read show ?thesis by blast
  qed
  show ?case
    using comp
  proof (cases rule: filtercomp_cases)
    case (And k ts)
    with l obtain ws fs where "k = concat ws @ 0x29 # r" "list_all wf_filter fs" "list_all no_dn_rule fs"
      "ts = map tag_of fs" "list_all2 filter_text fs ws" by fastforce
    with i And filter_readI [OF And_Text, of fs ws t] show ?thesis by (intro exI [of _ "str ''(&'' @ concat ws @ str '')''"]) simp
  next
    case (Or k ts)
    with l obtain ws fs where "k = concat ws @ 0x29 # r" "list_all wf_filter fs" "list_all no_dn_rule fs"
      "ts = map tag_of fs" "list_all2 filter_text fs ws" by fastforce
    with i Or filter_readI [OF Or_Text, of fs ws t] show ?thesis by (intro exI [of _ "str ''(|'' @ concat ws @ str '')''"]) simp
  next
    case (Not k u)
    with ih [of k] obtain f w where "k = w @ 0x29 # r" "wf_filter f" "no_dn_rule f" "u = tag_of f" "filter_text f w"
      by (auto simp: filter_read_def)
    with i Not filter_readI [OF Not_Text, of f w t] show ?thesis by (intro exI [of _ "str ''(!'' @ w @ str '')''"]) simp
  next
    case Item
    from item_sound [OF this] obtain f w where "j = w @ 0x29 # r" "wf_item f" "no_dn_item f" "t = tag_of_item f" "item_text f w"
      by (auto simp: item_read_def)
    with i filter_readI [OF Item_Text, of f w t] show ?thesis by (intro exI [of _ "str ''('' @ w @ str '')''"]) simp
  qed
qed

lemma filtexpr_sound:
  assumes "filtexpr N i = Ok (r, t)"
  shows "\<exists>f s. wf_filter f \<and> no_dn_rule f \<and> t = tag_of f \<and> filter_string f s \<and> i = s @ r"
proof -
  consider "filter_f N i = Ok (r, t)" | "item N i = Ok (r, t)"
    using assms by (auto simp: filtexpr_def lib_simps simp del: alt_doc.simps dest!: alt_doc_Ok)
  then show ?thesis
  proof cases
    case 1
    from filter_sound [OF this] show ?thesis by (auto simp: filter_read_def filter_string_def)
  next
    case 2
    from item_sound [OF this] obtain f s where "i = s @ r" "wf_item f" "no_dn_item f" "t = tag_of_item f" "item_text f s"
      by (auto simp: item_read_def)
    then show ?thesis by (intro exI [of _ "FItem f"] exI [of _ s]) (auto simp: filter_string_def)
  qed
qed

lemma mv_filtexpr_print:
  assumes "list_all2 item_text (f # fs) (w # ws)" and "list_all wf_item (f # fs)" and "list_all no_dn_item (f # fs)"
  shows "mv_filtexpr N (str ''('' @ concat (map (\<lambda>w. str ''('' @ w @ str '')'') (w # ws)) @ str '')'') =
    Ok ([], Sequence (map tag_of_item (f # fs)))"
proof -
  let ?p = "delimited_doc (tag_doc (str ''('')) (item N) (tag_doc (str '')''))"
  let ?t = "concat (map (\<lambda>w. str ''('' @ w @ str '')'') ws) @ [0x29]"
  have p: "?p (0x28 # u @ 0x29 # r) = Ok (r, tag_of_item g)" if "item_text g u" "wf_item g" "no_dn_item g" for g u r
    using item_print [OF that, of "0x29 # r"] by (simp add: delimited_doc_def ends_def)
  have sh: "nonincreasing ?p" by (intro shrink)
  have "list_all2 (\<lambda>t u. u \<noteq> [] \<and> (\<forall>r. ?p (u @ r) = Ok (r, t))) (map tag_of_item fs) (map (\<lambda>w. str ''('' @ w @ str '')'') ws)"
    using assms p by (auto simp: list.rel_map list_all_iff elim!: list.rel_mono_strong)
  then have "many0_ref ?p ?t = Ok ([0x29], map tag_of_item fs)"
    by (rule many0_ref_spelled [where ok = "\<lambda>_. True", rotated 2]) (simp_all add: delimited_doc_def)
  moreover have "c_many1 (nc_Tag N) ?p i = many1_doc ?p (many0_ref ?p) i" for i
    using comb_Tag sh many0_Tag [OF sh] by (simp add: comb_doc_def many1_doc_def)
  ultimately show ?thesis
    using p [of f w ?t] assms
    by (simp add: mv_filtexpr_def mv_filterlist_def mv_filteritems_def lib_simps map_doc_def delimited_doc_def many1_doc_def)
qed

end

text \<open>The tags of a filter have small numbers, so they can be encoded and read back.\<close>

fun low_tag :: "Tag \<Rightarrow> bool" where
  "low_tag (Tag_Integer i c v) = (i \<le> 30)"
| "low_tag (Tag_Enumerated i c v) = (i \<le> 30)"
| "low_tag (Tag_Sequence i c ts) = (i \<le> 30 \<and> list_all low_tag ts)"
| "low_tag (Tag_Set i c ts) = (i \<le> 30 \<and> list_all low_tag ts)"
| "low_tag (Tag_OctetString i c v) = (i \<le> 30)"
| "low_tag (Tag_Boolean i c v) = (i \<le> 30)"
| "low_tag (Tag_Null i c) = (i \<le> 30)"
| "low_tag (Tag_ExplicitTag i c t) = (i \<le> 30 \<and> low_tag t)"
| "low_tag (Tag_StructureTag s) = low_ids s"

lemma low_tag_into_structure: "low_tag t \<Longrightarrow> low_ids (into_structure t)"
  by (induction t) (auto simp: list_all_iff i_e_into_structure_def)

lemma low_tag_item: "low_tag (tag_of_item f)"
  by (cases f) (auto simp: opsimps list_all_iff split: option.splits)

lemma low_tag_of: "low_tag (tag_of f)"
  by (induction f) (auto simp: list_all_iff low_tag_item)

subsection \<open>Properties\<close>

lemma parse_text:
  assumes "nom_complete_doc N" and "filter_string f s" and "wf_filter f" and "no_dn_rule f"
  shows "parse N s = Some (Ok (tag_of f))"
  using nom_complete_doc.filtexpr_print [OF assms] by (simp add: parse_def)

lemma parse_print:
  assumes "nom_complete_doc N" and "wf_filter f" and "no_dn_rule f"
  shows "parse N (print_filter f) = Some (Ok (tag_of f))"
  using assms(1) _ assms(2,3) by (rule parse_text) (simp add: filter_string_def print_filter_text)



text \<open>
  Claim C23. Nothing else is accepted: a string that parses is, as a whole, a text of a well-formed filter, and
  the result is the tag of the filter that the text spells.
\<close>

theorem parse_sound:
  assumes "nom_complete_doc N" and "parse N s = Some (Ok t)"
  shows "\<exists>f. filter_string f s \<and> wf_filter f \<and> no_dn_rule f \<and> t = tag_of f"
proof (cases "filtexpr N s")
  case (Ok z)
  then show ?thesis
    using nom_complete_doc.filtexpr_sound [OF assms(1)] assms(2)
    by (cases z) (fastforce simp: parse_def split: if_splits)
next
  case (Err e)
  with assms(2) show ?thesis by (cases e) (simp_all add: parse_def)
qed

theorem parse_sound_witness:
  "\<exists>f. filter_string f (str ''(cn=*)'') \<and> wf_filter f \<and> no_dn_rule f \<and> Tag_OctetString 7 Context (str ''cn'') = tag_of f"
proof (rule parse_sound [OF ncr.nom_complete_doc_axioms])
  have "wf_filter (FItem (Present (AttrDesc (Descr (str ''cn'')) [])))" by code_simp
  from parse_print [OF ncr.nom_complete_doc_axioms this]
  show "parse nom_complete_ref (str ''(cn=*)'') = Some (Ok (Tag_OctetString 7 Context (str ''cn'')))" by simp
qed

text \<open>
  Claim C24. No input makes the parser panic: \<open>parse\<close> returns a filter or an error on every byte
  string; the \<open>unimplemented!()\<close> of \<open>filtertag\<close> is unreachable.
\<close>

theorem parse_no_panic:
  assumes "nom_complete_doc N"
  shows "parse N s \<noteq> None"
proof (cases "filtexpr N s")
  case (Ok z)
  then show ?thesis by (cases z) (simp add: parse_def)
next
  case (Err e)
  moreover have "filtexpr N s \<noteq> Err Panicked"
    using nom_complete_doc.calm_filtexpr [OF assms] by (simp add: no_panic_def)
  ultimately show ?thesis by (cases e) (simp_all add: parse_def)
qed

theorem parse_no_panic_witness: "parse nom_complete_ref (str ''(a<b)'') \<noteq> None"
  by (rule parse_no_panic) (rule ncr.nom_complete_doc_axioms)

text \<open>
  Matched values filters (RFC 3876): a parenthesised list of one or more simple items
  is read as the sequence of the tags of the items.
\<close>

theorem parse_matched_values_print:
  assumes "nom_complete_doc N" and "list_all2 item_text (f # fs) (w # ws)"
    and "list_all wf_item (f # fs)" and "list_all no_dn_item (f # fs)"
  shows "parse_matched_values N (str ''('' @ concat (map (\<lambda>w. str ''('' @ w @ str '')'') (w # ws)) @ str '')'') =
     Some (Ok (Sequence (map tag_of_item (f # fs))))"
  unfolding parse_matched_values_def nom_complete_doc.mv_filtexpr_print [OF assms] by simp

theorem parse_matched_values_print_witness:
  "parse_matched_values nom_complete_ref (str ''((cn=*)(sn>=b))'') =
     Some (Ok (Sequence [Tag_OctetString 7 Context (str ''cn''),
       Tag_Sequence 5 Context [OctetString (str ''sn''), OctetString (str ''b'')]]))"
proof -
  let ?f = "Present (AttrDesc (Descr (str ''cn'')) [])"
  let ?g = "GreaterOrEqual (AttrDesc (Descr (str ''sn'')) []) (str ''b'')"
  have t: "list_all2 item_text (?f # [?g]) (print_item ?f # [print_item ?g])" by (simp add: print_item_text del: print_item.simps)
  have "list_all wf_item (?f # [?g])" "list_all no_dn_item (?f # [?g])" by code_simp+
  from parse_matched_values_print [OF ncr.nom_complete_doc_axioms t this] show ?thesis
    by (simp add: esc_byte_def must_escape_def)
qed

text \<open>
  A matching rule whose name begins with \<open>dn\<close> is not accepted without the \<open>:dn\<close> flag:
  the parser of the flag takes the letters of the name, and \<open>(cn:dnMatch:=x)\<close>, which RFC 4515
  allows, is an error.
\<close>

definition dn_rule_example :: filter_spec where
  "dn_rule_example = FItem (ExtensibleMatch (Some (AttrDesc (Descr (str ''cn'')) [])) (Some (Descr (str ''dnMatch''))) (str ''x'') False)"

theorem dn_rule_lost:
  "wf_filter dn_rule_example \<and> filter_string dn_rule_example (str ''(cn:dnMatch:=x)'') \<and>
   parse nom_complete_ref (str ''(cn:dnMatch:=x)'') = Some (Err ())"
proof (intro conjI)
  show "wf_filter dn_rule_example"
    by (simp add: dn_rule_example_def ascii_alpha_def ascii_digit_def alnum_hyphen_def in_range_def)
  have "print_filter dn_rule_example = str ''(cn:dnMatch:=x)''" by code_simp
  then show "filter_string dn_rule_example (str ''(cn:dnMatch:=x)'')"
    using print_filter_text [of dn_rule_example] by (simp add: filter_string_def)
  show "parse nom_complete_ref (str ''(cn:dnMatch:=x)'') = Some (Err ())" by code_simp
qed

end
