(* ===== verification/Ber_Value.thy ===== *)
theory Ber_Value
  imports Lber_Parse
begin

text \<open>
  BER values inside other values: several controls and extended operations carry a BER element
  in an octet string, written with \<open>write::encode_into\<close> into an empty buffer and read with
  \<open>parse_tag\<close>, panicking on an error. The locale \<open>tlv_codec\<close> is what they rely on; the BER codec
  of \<open>lber\<close> provides it for every element that \<open>ber_ok\<close> accepts, for any parser library with the
  documented behaviour. \<open>weight\<close> is an easily computed bound that implies \<open>ber_ok\<close>.
\<close>

text \<open>\<open>match parse_tag(val) { Ok((_, tag)) => tag, _ => panic!() }\<close>.\<close>

definition parse_value :: "nom_streaming \<Rightarrow> bytes \<Rightarrow> StructureTag panicking" where
  "parse_value S v = (case parse_tag S v of Ok (_, tag) \<Rightarrow> Some tag | Err _ \<Rightarrow> panic)"

text \<open>\<open>let mut buf = BytesMut::new(); write::encode_into(&mut buf, t).expect("encoded");\<close>.\<close>

definition encode_value :: "StructureTag \<Rightarrow> bytes panicking" where
  "encode_value t = encode_into [] t"

locale tlv_codec =
  fixes enc :: "'t \<Rightarrow> 'b option"
    and dec :: "'b \<Rightarrow> 't option"
    and ok :: "'t \<Rightarrow> bool"
  assumes dec_enc: "ok t \<Longrightarrow> \<exists>e. enc t = Some e \<and> dec e = Some t"
begin

lemma enc_total: "ok t \<Longrightarrow> enc t \<noteq> None"
  using dec_enc by fastforce

lemma dec_the_enc: "ok t \<Longrightarrow> dec (the (enc t)) = Some t"
  using dec_enc by fastforce

lemma enc_inj: "ok t \<Longrightarrow> ok u \<Longrightarrow> enc t = enc u \<Longrightarrow> t = u"
  using dec_enc [of t] dec_enc [of u] by auto

text \<open>A value packed by one side and unpacked by a reader \<open>f\<close> of elements.\<close>

lemma pack_unpack: "ok t \<Longrightarrow> enc t = Some v \<Longrightarrow> Option.bind (dec v) f = f t"
  using dec_enc by fastforce

end

sublocale nom_streaming_doc \<subseteq> codec: tlv_codec encode_value "parse_value S" ber_ok
proof
  show "\<exists>e. encode_value t = Some e \<and> parse_value S e = Some t" if "ber_ok t" for t
    using parse_tag_ber(1) [OF that, of "[]"] that
    by (simp add: encode_value_def parse_value_def encode_into_def encode_eq ber_ok_def)
qed

text \<open>A bound on the size of an encoding.\<close>

fun weight :: "StructureTag \<Rightarrow> nat" where
  "weight (StructureTag c i (PL_P v)) = 10 + length v"
| "weight (StructureTag c i (PL_C ts)) = 10 + sum_list (map weight ts)"

lemma length_ber_length: "n < 2 ^ 64 \<Longrightarrow> length (ber_length n) \<le> 9"
  using nbytes_le [of n 8] by (simp add: ber_length_def)

lemma length_ber_type: "i \<le> 30 \<Longrightarrow> length (ber_type c s i) = 1"
  by (simp add: ber_type_def Let_def)

lemma sum_list_le: "(\<And>x. x \<in> set xs \<Longrightarrow> f x \<le> (g x :: nat)) \<Longrightarrow> sum_list (map f xs) \<le> sum_list (map g xs)"
  by (rule sum_list_mono)

lemma length_ber_weight: "low_ids t \<Longrightarrow> weight t < 2 ^ 64 \<Longrightarrow> length (ber t) \<le> weight t"
proof (induction t rule: weight.induct)
  case (1 c i v)
  then show ?case using length_ber_length [of "length v"] by (simp add: length_ber_type)
next
  case (2 c i ts)
  have "length (ber t) \<le> weight t" if "t \<in> set ts" for t
  proof (rule "2.IH" [OF that])
    show "low_ids t" using "2.prems"(1) that by (simp add: list_all_iff)
    have "weight t \<le> sum_list (map weight ts)"
      using that by (intro member_le_sum_list) simp_all
    then show "weight t < 2 ^ 64" using "2.prems"(2) by simp
  qed
  then have le: "length (concat (map ber ts)) \<le> sum_list (map weight ts)"
    unfolding length_concat map_map by (intro sum_list_le) simp
  moreover have "length (ber_length (length (concat (map ber ts)))) \<le> 9"
    using le "2.prems"(2) by (intro length_ber_length) simp
  ultimately show ?case
    using "2.prems"(1) by (simp add: Let_def length_ber_type)
qed

lemma ber_ok_weight: "low_ids t \<Longrightarrow> weight t < 2 ^ 64 \<Longrightarrow> ber_ok t"
  using length_ber_weight [of t] by (simp add: ber_ok_def)

context nom_streaming_doc
begin

lemma value_codec:
  "low_ids t \<Longrightarrow> weight t < 2 ^ 64 \<Longrightarrow> \<exists>v. encode_value t = Some v \<and> parse_value S v = Some t"
  by (rule codec.dec_enc) (rule ber_ok_weight)

lemma value_unpack:
  "low_ids t \<Longrightarrow> weight t < 2 ^ 64 \<Longrightarrow> encode_value t = Some v \<Longrightarrow> Option.bind (parse_value S v) f = f t"
  by (rule codec.pack_unpack [OF ber_ok_weight])

end

subsection \<open>Integers\<close>

lemma length_i_e_octets: "length (i_e_octets v) \<le> 9"
  by (simp add: i_e_octets_def Let_def split: prod.split)

lemma parse_uint_i_e_octets:
  assumes "0 \<le> sint v"
  shows "parse_uint (i_e_octets v) = Ok (i_e_octets v, v)"
proof -
  obtain k where k: "i_e_octets v = be_bytes k (unat v)" "unat v < 2 ^ (8 * k - 1)"
    using assms by (rule i_e_octets_width)
  have "unat v < 256 ^ k"
  proof (rule less_le_trans [OF k(2)])
    have "(2::nat) ^ (8 * k - 1) \<le> 2 ^ (8 * k)" by (rule power_increasing) simp_all
    then show "(2::nat) ^ (8 * k - 1) \<le> 256 ^ k" by (simp add: power_mult)
  qed
  with k(1) show ?thesis by (simp add: parse_uint_eq be_uint_be_bytes)
qed

text \<open>An \<open>i32\<close> widened to \<open>i64\<close>, encoded, read back and narrowed again.\<close>

lemma sint_scast_i32: "sint (scast (v :: i32) :: i64) = sint v"
  by (simp add: sint_up_scast is_up)

lemma ucast_scast_i32: "ucast (scast (v :: i32) :: i64) = v"
  by (rule bit_word_eqI) (simp add: bit_simps)

end
