(* ===== verification/Controls.thy ===== *)
theory Controls
  imports Filter_Grammar Ber_Value
begin

text \<open>
  Generic controls (\<open>src/controls_impl.rs\<close>): \<open>RawControl\<close>, the table of recognised OIDs, the
  encoding \<open>build_tag\<close> of a request control and the decoding \<open>parse_controls\<close> of the controls of a
  message, with the proof that decoding inverts encoding.
\<close>

subsection \<open>controls_impl.rs\<close>

datatype ControlType = CT_PagedResults | CT_PostReadResp | CT_PreReadResp | CT_SyncDone | CT_SyncState
  | CT_ManageDsaIt | CT_MatchedValues

record RawControl =
  ctype :: bytes
  crit :: bool
  ctl_val :: "bytes option"

datatype Control = Control "ControlType option" RawControl

definition PAGED_RESULTS_OID :: bytes where "PAGED_RESULTS_OID = str ''1.2.840.113556.1.4.319''"
definition PRE_READ_OID :: bytes where "PRE_READ_OID = str ''1.3.6.1.1.13.1''"
definition POST_READ_OID :: bytes where "POST_READ_OID = str ''1.3.6.1.1.13.2''"
definition SYNC_REQUEST_OID :: bytes where "SYNC_REQUEST_OID = str ''1.3.6.1.4.1.4203.1.9.1.1''"
definition SYNC_STATE_OID :: bytes where "SYNC_STATE_OID = str ''1.3.6.1.4.1.4203.1.9.1.2''"
definition SYNC_DONE_OID :: bytes where "SYNC_DONE_OID = str ''1.3.6.1.4.1.4203.1.9.1.3''"
definition SYNC_INFO_OID :: bytes where "SYNC_INFO_OID = str ''1.3.6.1.4.1.4203.1.9.1.4''"
definition MANAGE_DSA_IT_OID :: bytes where "MANAGE_DSA_IT_OID = str ''2.16.840.1.113730.3.4.2''"
definition MATCHED_VALUES_OID :: bytes where "MATCHED_VALUES_OID = str ''1.2.826.0.1.3344810.2.3''"
definition ASSERTION_OID :: bytes where "ASSERTION_OID = str ''1.3.6.1.1.12''"
definition PROXY_AUTH_OID :: bytes where "PROXY_AUTH_OID = str ''2.16.840.1.113730.3.4.18''"
definition RELAX_RULES_OID :: bytes where "RELAX_RULES_OID = str ''1.3.6.1.4.1.4203.666.5.12''"
definition TXN_REQUEST_OID :: bytes where "TXN_REQUEST_OID = str ''1.3.6.1.1.21.2''"

lemmas oid_defs = PAGED_RESULTS_OID_def PRE_READ_OID_def POST_READ_OID_def SYNC_REQUEST_OID_def
  SYNC_STATE_OID_def SYNC_DONE_OID_def SYNC_INFO_OID_def MANAGE_DSA_IT_OID_def MATCHED_VALUES_OID_def
  ASSERTION_OID_def PROXY_AUTH_OID_def RELAX_RULES_OID_def TXN_REQUEST_OID_def

definition CONTROLS :: "bytes \<Rightarrow> ControlType option" where
  "CONTROLS = map_of
     [(PAGED_RESULTS_OID, CT_PagedResults), (POST_READ_OID, CT_PostReadResp), (PRE_READ_OID, CT_PreReadResp),
      (SYNC_DONE_OID, CT_SyncDone), (SYNC_STATE_OID, CT_SyncState), (MANAGE_DSA_IT_OID, CT_ManageDsaIt),
      (MATCHED_VALUES_OID, CT_MatchedValues)]"

text \<open>\<open>From<CriticalControl<T>> for RawControl\<close>, after the inner conversion.\<close>

definition critical :: "RawControl \<Rightarrow> RawControl" where
  "critical rc = rc\<lparr> crit := True \<rparr>"

text \<open>
  \<open>IntoRawControlVec\<close>: what \<open>with_controls\<close> accepts is a vector of controls, or one control of any kind
  with its conversion.
\<close>

datatype 'r control_arg = Control_Vec "RawControl list" | Single_Control 'r

fun into_raw_controls :: "('r \<Rightarrow> RawControl) \<Rightarrow> 'r control_arg \<Rightarrow> RawControl list" where
  "into_raw_controls into (Control_Vec cs) = cs"
| "into_raw_controls into (Single_Control r) = [into r]"

text \<open>\<open>RawControl::parse\<close> with the parser of the control type.\<close>

definition RawControl_parse :: "(bytes \<Rightarrow> 'a panicking) \<Rightarrow> RawControl \<Rightarrow> 'a panicking" where
  "RawControl_parse parser self = do { v \<leftarrow> expect (ctl_val self); parser v }"

definition build_tag :: "RawControl \<Rightarrow> StructureTag" where
  "build_tag rc =
     (let seq = [OctetString (ctype rc)];
          seq = (if crit rc then seq @ [Boolean True] else seq);
          seq = (case ctl_val rc of Some v \<Rightarrow> seq @ [OctetString v] | None \<Rightarrow> seq)
      in into_structure (Sequence seq))"

definition parse_control :: "StructureTag \<Rightarrow> Control panicking" where
  "parse_control ctrl = do {
     components \<leftarrow> expect (expect_constructed ctrl);
     (components, t) \<leftarrow> expect (iter_next components);
     t \<leftarrow> expect (expect_primitive t);
     ctype \<leftarrow> expect (from_utf8 t);
     (crit, maybe_val) \<leftarrow>
       (case iter_next components of
          None \<Rightarrow> Some (False, None)
        | Some (components, c) \<Rightarrow>
            if st_id c = Types_u64 Types_Boolean then
              (case st_payload c of
                 PL_P v \<Rightarrow> do { b \<leftarrow> vec_index v 0; Some (b \<noteq> 0, map_option snd (iter_next components)) }
               | PL_C _ \<Rightarrow> panic)
            else if st_id c = Types_u64 Types_OctetString then Some (False, Some c)
            else panic);
     v \<leftarrow> (case maybe_val of
             None \<Rightarrow> Some None
           | Some v \<Rightarrow> do { v \<leftarrow> expect (expect_primitive v); Some (Some v) });
     Some (Control (CONTROLS ctype) \<lparr> ctype = ctype, crit = crit, ctl_val = v \<rparr>)
   }"

definition parse_controls :: "StructureTag \<Rightarrow> Control list panicking" where
  "parse_controls t = do {
     tags \<leftarrow> expect (expect_constructed t);
     map_panicking parse_control tags
   }"

subsection \<open>Controls round trip\<close>

lemma parse_control_build:
  assumes "utf8_valid (ctype rc)"
  shows "parse_control (build_tag rc) = Some (Control (CONTROLS (ctype rc)) rc)"
  using assms
  by (cases "ctl_val rc")
    (simp_all add: parse_control_def build_tag_def opsimps from_utf8_def Let_def)

lemma parse_controls_build:
  assumes "\<And>rc. rc \<in> set rcs \<Longrightarrow> utf8_valid (ctype rc)"
  shows "parse_controls (StructureTag Context 0 (PL_C (map build_tag rcs))) =
    Some (map (\<lambda>rc. Control (CONTROLS (ctype rc)) rc) rcs)"
  using assms
  by (simp add: parse_controls_def map_panicking_map parse_control_build map_panicking_Some)

lemma low_ids_build_tag: "low_ids (build_tag rc)"
  by (simp add: build_tag_def Let_def opsimps split: option.split)

end
