(* ===== verification/Search_Entry.thy ===== *)
theory Search_Entry
  imports Controls "HOL-Library.Multiset"
begin

text \<open>
  Search parameters and entries (first part of \<open>src/search.rs\<close>): the scope and alias enums, the
  options with their builder methods, \<open>ResultEntry\<close>, the conversion \<open>SearchEntry::construct\<close> of a
  raw entry into maps of text and binary attributes, and \<open>parse_refs\<close>. A \<open>HashMap\<close> is a map; a
  parsing error is a panic, as in the source.
\<close>

subsection \<open>search.rs\<close>

datatype Scope = Base | OneLevel | Subtree

fun Scope_i64 :: "Scope \<Rightarrow> i64" where
  "Scope_i64 Base = 0"
| "Scope_i64 OneLevel = 1"
| "Scope_i64 Subtree = 2"

datatype DerefAliases = Never | Searching | Finding | Always

fun DerefAliases_i64 :: "DerefAliases \<Rightarrow> i64" where
  "DerefAliases_i64 Never = 0"
| "DerefAliases_i64 Searching = 1"
| "DerefAliases_i64 Finding = 2"
| "DerefAliases_i64 Always = 3"

datatype ResultEntry = ResultEntry (re_tag: StructureTag) (re_ctrls: "Control list")

definition ResultEntry_new :: "StructureTag \<Rightarrow> ResultEntry" where
  "ResultEntry_new st = ResultEntry st []"

definition is_ref :: "ResultEntry \<Rightarrow> bool" where
  "is_ref self \<longleftrightarrow> st_id (re_tag self) = 19"

definition is_intermediate :: "ResultEntry \<Rightarrow> bool" where
  "is_intermediate self \<longleftrightarrow> st_id (re_tag self) = 25"

record SearchOptions =
  so_deref :: DerefAliases
  so_typesonly :: bool
  so_timelimit :: i32
  so_sizelimit :: i32

definition SearchOptions_new :: SearchOptions where
  "SearchOptions_new = \<lparr> so_deref = Never, so_typesonly = False, so_timelimit = 0, so_sizelimit = 0 \<rparr>"

definition opts_deref :: "SearchOptions \<Rightarrow> DerefAliases \<Rightarrow> SearchOptions" where
  "opts_deref self d = self\<lparr> so_deref := d \<rparr>"

definition opts_typesonly :: "SearchOptions \<Rightarrow> bool \<Rightarrow> SearchOptions" where
  "opts_typesonly self typesonly = self\<lparr> so_typesonly := typesonly \<rparr>"

definition opts_timelimit :: "SearchOptions \<Rightarrow> i32 \<Rightarrow> SearchOptions" where
  "opts_timelimit self timelimit = self\<lparr> so_timelimit := timelimit \<rparr>"

definition opts_sizelimit :: "SearchOptions \<Rightarrow> i32 \<Rightarrow> SearchOptions" where
  "opts_sizelimit self sizelimit = self\<lparr> so_sizelimit := sizelimit \<rparr>"

record SearchEntry =
  se_dn :: bytes
  se_attrs :: "bytes \<rightharpoonup> bytes list"
  se_bin_attrs :: "bytes \<rightharpoonup> bytes list"

text \<open>The \<open>filter_map\<close> over the values of one attribute, with what its closure changes.\<close>

fun construct_values ::
    "bytes \<Rightarrow> bytes list \<Rightarrow> (bytes \<rightharpoonup> bytes list) \<Rightarrow> bool \<Rightarrow> bytes list \<times> (bytes \<rightharpoonup> bytes list) \<times> bool" where
  "construct_values a_type [] bin_attr_vals any_binary = ([], bin_attr_vals, any_binary)"
| "construct_values a_type (s # ss) bin_attr_vals any_binary =
     (case from_utf8 s of
        Some s \<Rightarrow>
          let (values, bin_attr_vals, any_binary) = construct_values a_type ss bin_attr_vals any_binary
          in (s # values, bin_attr_vals, any_binary)
      | None \<Rightarrow>
          let old = (case bin_attr_vals a_type of Some v \<Rightarrow> v | None \<Rightarrow> [])
          in construct_values a_type ss (bin_attr_vals(a_type \<mapsto> old @ [s])) True)"

definition construct_attr ::
    "StructureTag \<Rightarrow> (bytes \<rightharpoonup> bytes list) \<times> (bytes \<rightharpoonup> bytes list) \<Rightarrow>
     ((bytes \<rightharpoonup> bytes list) \<times> (bytes \<rightharpoonup> bytes list)) panicking" where
  "construct_attr a_v = (\<lambda>(attr_vals, bin_attr_vals). do {
     part_attr \<leftarrow> expect (expect_constructed a_v);
     (part_attr, t) \<leftarrow> expect (iter_next part_attr);
     t \<leftarrow> expect (expect_primitive t);
     a_type \<leftarrow> expect (from_utf8 t);
     (part_attr, t) \<leftarrow> expect (iter_next part_attr);
     vals \<leftarrow> expect (expect_constructed t);
     vals \<leftarrow> map_panicking (\<lambda>t. expect (expect_primitive t)) vals;
     let (values, bin_attr_vals, any_binary) = construct_values a_type vals bin_attr_vals False in
     if any_binary then do {
       v \<leftarrow> expect (bin_attr_vals a_type);
       Some (attr_vals, bin_attr_vals(a_type \<mapsto> v @ values))
     }
     else Some (attr_vals(a_type \<mapsto> values), bin_attr_vals)
   })"

fun construct_attrs ::
    "StructureTag list \<Rightarrow> (bytes \<rightharpoonup> bytes list) \<times> (bytes \<rightharpoonup> bytes list) \<Rightarrow>
     ((bytes \<rightharpoonup> bytes list) \<times> (bytes \<rightharpoonup> bytes list)) panicking" where
  "construct_attrs [] maps = Some maps"
| "construct_attrs (a_v # avs) maps = do { maps \<leftarrow> construct_attr a_v maps; construct_attrs avs maps }"

definition construct :: "ResultEntry \<Rightarrow> SearchEntry panicking" where
  "construct re = do {
     t \<leftarrow> expect (match_id (re_tag re) 4);
     tags \<leftarrow> expect (expect_constructed t);
     (tags, t) \<leftarrow> expect (iter_next tags);
     t \<leftarrow> expect (expect_primitive t);
     dn \<leftarrow> expect (from_utf8 t);
     (tags, t) \<leftarrow> expect (iter_next tags);
     avs \<leftarrow> expect (expect_constructed t);
     (attr_vals, bin_attr_vals) \<leftarrow> construct_attrs avs (\<lambda>_. None, \<lambda>_. None);
     Some \<lparr> se_dn = dn, se_attrs = attr_vals, se_bin_attrs = bin_attr_vals \<rparr>
   }"

definition parse_refs :: "StructureTag \<Rightarrow> bytes list panicking" where
  "parse_refs t = do {
     tags \<leftarrow> expect (expect_constructed t);
     map_panicking (\<lambda>t. do { v \<leftarrow> expect (expect_primitive t); expect (from_utf8 v) }) tags
   }"

subsection \<open>Entries\<close>

text \<open>The \<open>SearchResultEntry\<close> of RFC 4511 with the given attributes.\<close>

definition octets :: "bytes \<Rightarrow> StructureTag" where
  "octets v = StructureTag Universal 4 (PL_P v)"

definition attr_tag :: "bytes \<times> bytes list \<Rightarrow> StructureTag" where
  "attr_tag = (\<lambda>(a, vs). StructureTag Universal 16
     (PL_C [octets a, StructureTag Universal 17 (PL_C (map octets vs))]))"

definition entry_tag :: "bytes \<Rightarrow> (bytes \<times> bytes list) list \<Rightarrow> StructureTag" where
  "entry_tag d avs = StructureTag Application 4
     (PL_C [octets d, StructureTag Universal 16 (PL_C (map attr_tag avs))])"

lemma construct_values_eq:
  "construct_values a vs bin b =
     (filter utf8_valid vs,
      (if list_all utf8_valid vs then bin
       else bin(a \<mapsto> (case bin a of Some v \<Rightarrow> v | None \<Rightarrow> []) @ filter (\<lambda>s. \<not> utf8_valid s) vs)),
      b \<or> \<not> list_all utf8_valid vs)"
proof (induction vs arbitrary: bin b)
  case (Cons s ss)
  have "filter (\<lambda>s. \<not> utf8_valid s) ss = []" if "list_all utf8_valid ss"
    using that by (auto simp: list_all_iff filter_empty_conv)
  then show ?case
    by (cases "utf8_valid s") (simp_all add: from_utf8_def Let_def Cons.IH fun_eq_iff)
qed simp

lemma map_octets: "map_panicking expect_primitive (map octets vs) = Some vs"
  by (induction vs) (simp_all add: octets_def)

lemma construct_attr_eq:
  assumes "utf8_valid a" and "bin a = None"
  shows "construct_attr (attr_tag (a, vs)) (ats, bin) = Some
    (if list_all utf8_valid vs then (ats(a \<mapsto> vs), bin)
     else (ats, bin(a \<mapsto> filter (\<lambda>s. \<not> utf8_valid s) vs @ filter utf8_valid vs)))"
proof -
  have "filter utf8_valid vs = vs" if "list_all utf8_valid vs"
    using that by (simp add: list_all_iff)
  with assms show ?thesis
    by (simp add: construct_attr_def attr_tag_def octets_def [of a] from_utf8_def map_octets construct_values_eq Let_def)
qed

text \<open>The maps a list of attributes with distinct types gives.\<close>

definition text_attrs :: "(bytes \<times> bytes list) list \<Rightarrow> (bytes \<times> bytes list) list" where
  "text_attrs = filter (\<lambda>(a, vs). list_all utf8_valid vs)"

definition binary_attrs :: "(bytes \<times> bytes list) list \<Rightarrow> (bytes \<times> bytes list) list" where
  "binary_attrs avs = map (\<lambda>(a, vs). (a, filter (\<lambda>s. \<not> utf8_valid s) vs @ filter utf8_valid vs))
     (filter (\<lambda>(a, vs). \<not> list_all utf8_valid vs) avs)"

lemma dom_text_attrs: "a \<notin> fst ` set avs \<Longrightarrow> map_of (text_attrs avs) a = None"
  by (auto simp: text_attrs_def map_of_eq_None_iff)

lemma dom_binary_attrs: "a \<notin> fst ` set avs \<Longrightarrow> map_of (binary_attrs avs) a = None"
  by (force simp: binary_attrs_def map_of_eq_None_iff)

lemma construct_attrs_eq:
  assumes "distinct (map fst avs)" and "list_all (\<lambda>(a, vs). utf8_valid a) avs"
    and "\<And>a. a \<in> fst ` set avs \<Longrightarrow> bin a = None"
  shows "construct_attrs (map attr_tag avs) (ats, bin) =
    Some (ats ++ map_of (text_attrs avs), bin ++ map_of (binary_attrs avs))"
  using assms
proof (induction avs arbitrary: ats bin)
  case Nil
  show ?case by (simp add: text_attrs_def binary_attrs_def)
next
  case (Cons av avs)
  obtain a vs where av: "av = (a, vs)" by (cases av)
  have d: "a \<notin> fst ` set avs" using Cons.prems(1) av by simp
  have m: "f(a \<mapsto> x) ++ map_of g = f ++ (map_of g)(a \<mapsto> x)" if "map_of g a = None" for f g and x :: "bytes list"
    using that by (auto simp: map_add_def fun_eq_iff split: option.split)
  note da = m [OF dom_text_attrs [OF d]] and db = m [OF dom_binary_attrs [OF d]]
  show ?case
  proof (cases "list_all utf8_valid vs")
    case True
    then have "text_attrs (av # avs) = (a, vs) # text_attrs avs" "binary_attrs (av # avs) = binary_attrs avs"
      by (simp_all add: av text_attrs_def binary_attrs_def)
    with True Cons av da show ?thesis by (simp add: construct_attr_eq del: fun_upd_apply)
  next
    case False
    let ?ws = "filter (\<lambda>s. \<not> utf8_valid s) vs @ filter utf8_valid vs"
    from False have e: "text_attrs (av # avs) = text_attrs avs" "binary_attrs (av # avs) = (a, ?ws) # binary_attrs avs"
      by (simp_all add: av text_attrs_def binary_attrs_def)
    have "construct_attrs (map attr_tag avs) (ats, bin(a \<mapsto> ?ws)) =
        Some (ats ++ map_of (text_attrs avs), bin(a \<mapsto> ?ws) ++ map_of (binary_attrs avs))"
      using Cons.prems av d by (intro Cons.IH) auto
    with False Cons.prems av e db show ?thesis by (simp add: construct_attr_eq del: fun_upd_apply)
  qed
qed

lemma construct_entry:
  assumes "utf8_valid d" and "distinct (map fst avs)" and "list_all (\<lambda>(a, vs). utf8_valid a) avs"
  shows "construct (ResultEntry (entry_tag d avs) ctrls) = Some
    \<lparr> se_dn = d, se_attrs = map_of (text_attrs avs), se_bin_attrs = map_of (binary_attrs avs) \<rparr>"
  using assms construct_attrs_eq [of avs "\<lambda>_. None" "\<lambda>_. None"]
  by (simp add: construct_def entry_tag_def octets_def from_utf8_def)

subsection \<open>Properties\<close>

text \<open>
  Claim C28. Parsing an entry loses nothing: for an entry whose attribute types are distinct, an
  attribute with its values is found in exactly one of the two maps, in \<open>attrs\<close> with its values
  in order when they all are UTF-8, and otherwise in \<open>bin_attrs\<close> with the same multiset of values.
\<close>

theorem construct_complete:
  assumes "utf8_valid d" and "distinct (map fst avs)" and "list_all (\<lambda>(a, vs). utf8_valid a) avs"
    and "(a, vs) \<in> set avs"
  shows "\<exists>se. construct (ResultEntry (entry_tag d avs) ctrls) = Some se \<and> se_dn se = d \<and>
    (if list_all utf8_valid vs then se_attrs se a = Some vs \<and> se_bin_attrs se a = None
     else se_attrs se a = None \<and> (\<exists>ws. se_bin_attrs se a = Some ws \<and> mset ws = mset vs))"
proof -
  have uniq: "vs' = vs" if "(a, vs') \<in> set avs" for vs'
    using assms(2,4) that by (meson eq_key_imp_eq_value)
  have sub: "distinct (map fst (filter P avs))" for P
    using assms(2) by (rule distinct_map_filter)
  have mset: "mset (filter (\<lambda>s. \<not> utf8_valid s) vs @ filter utf8_valid vs) = mset vs"
    by (metis add.commute mset_append mset_filter multiset_partition)
  have keys: "map fst (binary_attrs avs) = map fst (filter (\<lambda>(a, vs). \<not> list_all utf8_valid vs) avs)"
    by (auto simp: binary_attrs_def)
  show ?thesis
  proof (cases "list_all utf8_valid vs")
    case True
    have "map_of (text_attrs avs) a = Some vs"
      using sub True assms(4) by (intro map_of_is_SomeI) (auto simp: text_attrs_def)
    moreover have "map_of (binary_attrs avs) a = None"
      using True uniq by (force simp: binary_attrs_def map_of_eq_None_iff)
    ultimately show ?thesis using construct_entry [OF assms(1-3)] True by simp
  next
    case False
    have "map_of (binary_attrs avs) a = Some (filter (\<lambda>s. \<not> utf8_valid s) vs @ filter utf8_valid vs)"
    proof (rule map_of_is_SomeI)
      show "distinct (map fst (binary_attrs avs))" unfolding keys by (rule sub)
    qed (use False assms(4) in \<open>force simp: binary_attrs_def\<close>)
    moreover have "map_of (text_attrs avs) a = None"
      using False uniq by (auto simp: text_attrs_def map_of_eq_None_iff)
    ultimately show ?thesis using construct_entry [OF assms(1-3)] False mset by simp
  qed
qed

theorem construct_complete_witness:
  "\<exists>se. construct (ResultEntry (entry_tag (str ''o=x'') [(str ''cn'', [str ''a'', [0xFF], str ''b''])]) []) = Some se \<and>
     se_dn se = str ''o=x'' \<and> se_attrs se (str ''cn'') = None \<and>
     (\<exists>ws. se_bin_attrs se (str ''cn'') = Some ws \<and> mset ws = mset [str ''a'', [0xFF], str ''b''])"
proof -
  have u: "\<not> utf8_valid [0xFF]" by (simp add: utf8_valid.simps utf8_width_def in_range_def)
  have v: "utf8_valid (str ''o=x'')" "utf8_valid (str ''cn'')"
    by (simp_all add: is_ascii_def)
  show ?thesis
    using construct_complete [of "str ''o=x''" "[(str ''cn'', [str ''a'', [0xFF], str ''b''])]"
        "str ''cn''" "[str ''a'', [0xFF], str ''b'']" "[]"] u v by simp
qed

end
