(* ===== verification/Controls_Impl.thy ===== *)
theory Controls_Impl
  imports Search_Entry
begin

text \<open>
  The controls the library implements (\<open>src/controls_impl/*.rs\<close>): the conversion of each request
  control into a \<open>RawControl\<close> and the parsers of the response controls, Paged Results, Sync State,
  Sync Done and Read Entry, and of the Sync Info message. A parser of a malformed value panics,
  as the source does.
\<close>

subsection \<open>paged_results.rs\<close>

record PagedResults =
  pr_size :: i32
  pr_cookie :: bytes

definition PagedResults_into :: "PagedResults \<Rightarrow> RawControl panicking" where
  "PagedResults_into pr = do {
     let cval = into_structure (Sequence [Integer (scast (pr_size pr)), OctetString (pr_cookie pr)]) in do {
     buf \<leftarrow> encode_value cval;
     Some \<lparr> ctype = PAGED_RESULTS_OID, crit = False, ctl_val = Some buf \<rparr> }
   }"

text \<open>
  \<open>tags.next().expect(..).match_class(Universal).and_then(match_id).and_then(expect_primitive)\<close> with
  \<open>parse_uint\<close>: the first element of an iterator as an unsigned number.
\<close>

definition uint_element :: "Types \<Rightarrow> StructureTag \<Rightarrow> u64 panicking" where
  "uint_element ty t = do {
     t \<leftarrow> match_class t Universal;
     t \<leftarrow> match_id t (Types_u64 ty);
     v \<leftarrow> expect (expect_primitive t);
     case parse_uint v of Ok (_, n) \<Rightarrow> Some n | Err _ \<Rightarrow> panic
   }"

definition PagedResults_parse :: "nom_streaming \<Rightarrow> bytes \<Rightarrow> PagedResults panicking" where
  "PagedResults_parse S v = do {
     tag \<leftarrow> parse_value S v;
     pr_comps \<leftarrow> expect (expect_constructed tag);
     (pr_comps, t) \<leftarrow> expect (iter_next pr_comps);
     size \<leftarrow> uint_element Types_Integer t;
     (pr_comps, t) \<leftarrow> expect (iter_next pr_comps);
     cookie \<leftarrow> expect (expect_primitive t);
     Some \<lparr> pr_size = ucast size, pr_cookie = cookie \<rparr>
   }"

subsection \<open>assertion.rs, matched_values.rs, proxy_auth.rs, relax_rules.rs, manage_dsa_it.rs, txn.rs\<close>

definition filter_control :: "bytes \<Rightarrow> (Tag, unit) result panicking \<Rightarrow> RawControl panicking" where
  "filter_control oid parsed = do {
     r \<leftarrow> parsed;
     case r of
       Err _ \<Rightarrow> panic
     | Ok filt \<Rightarrow> do {
         buf \<leftarrow> encode_value (into_structure filt);
         Some \<lparr> ctype = oid, crit = False, ctl_val = Some buf \<rparr>
       }
   }"

definition Assertion_new :: "nom_complete \<Rightarrow> bytes \<Rightarrow> RawControl panicking" where
  "Assertion_new N filt = filter_control ASSERTION_OID (parse N filt)"

definition MatchedValues_new :: "nom_complete \<Rightarrow> bytes \<Rightarrow> RawControl panicking" where
  "MatchedValues_new N filt = filter_control MATCHED_VALUES_OID (parse_matched_values N filt)"

definition ProxyAuth_into :: "bytes \<Rightarrow> RawControl" where
  "ProxyAuth_into authzid = \<lparr> ctype = PROXY_AUTH_OID, crit = True, ctl_val = Some authzid \<rparr>"

definition RelaxRules_into :: RawControl where
  "RelaxRules_into = \<lparr> ctype = RELAX_RULES_OID, crit = False, ctl_val = None \<rparr>"

definition ManageDsaIt_into :: RawControl where
  "ManageDsaIt_into = \<lparr> ctype = MANAGE_DSA_IT_OID, crit = False, ctl_val = None \<rparr>"

definition TxnSpec_into :: "bytes \<Rightarrow> RawControl" where
  "TxnSpec_into txn_id = \<lparr> ctype = TXN_REQUEST_OID, crit = True, ctl_val = Some txn_id \<rparr>"

subsection \<open>read_entry.rs\<close>

definition from_read_entry :: "bytes \<Rightarrow> bytes list \<Rightarrow> RawControl panicking" where
  "from_read_entry oid attrs = do {
     let attr_vec = map OctetString attrs; cval = into_structure (Sequence attr_vec) in do {
     buf \<leftarrow> encode_value cval;
     Some \<lparr> ctype = oid, crit = False, ctl_val = Some buf \<rparr> }
   }"

definition PreRead_new :: "bytes list \<Rightarrow> RawControl panicking" where
  "PreRead_new attrs = from_read_entry PRE_READ_OID attrs"

definition PostRead_new :: "bytes list \<Rightarrow> RawControl panicking" where
  "PostRead_new attrs = from_read_entry POST_READ_OID attrs"

record ReadEntryResp =
  rer_attrs :: "bytes \<rightharpoonup> bytes list"
  rer_bin_attrs :: "bytes \<rightharpoonup> bytes list"

definition ReadEntryResp_parse :: "nom_streaming \<Rightarrow> bytes \<Rightarrow> ReadEntryResp panicking" where
  "ReadEntryResp_parse S v = do {
     tag \<leftarrow> parse_value S v;
     se \<leftarrow> construct (ResultEntry_new tag);
     Some \<lparr> rer_attrs = se_attrs se, rer_bin_attrs = se_bin_attrs se \<rparr>
   }"

subsection \<open>content_sync.rs\<close>

datatype RefreshMode = RefreshOnly | RefreshAndPersist

fun RefreshMode_i64 :: "RefreshMode \<Rightarrow> i64" where
  "RefreshMode_i64 RefreshOnly = 1"
| "RefreshMode_i64 RefreshAndPersist = 3"

record SyncRequest =
  sr_mode :: RefreshMode
  sr_cookie :: "bytes option"
  sr_reload_hint :: bool

definition SyncRequest_into :: "SyncRequest \<Rightarrow> RawControl panicking" where
  "SyncRequest_into sr = do {
     let tags = [Enumerated (RefreshMode_i64 (sr_mode sr))];
         tags = (case sr_cookie sr of Some cookie \<Rightarrow> tags @ [OctetString cookie] | None \<Rightarrow> tags);
         tags = (if sr_reload_hint sr then tags @ [Boolean (sr_reload_hint sr)] else tags);
         sreq = into_structure (Sequence tags) in do {
     buf \<leftarrow> encode_value sreq;
     Some \<lparr> ctype = SYNC_REQUEST_OID, crit = False, ctl_val = Some buf \<rparr> }
   }"

datatype EntryState = ES_Present | ES_Add | ES_Modify | ES_Delete

record SyncState =
  ss_state :: EntryState
  ss_entry_uuid :: bytes
  ss_cookie :: "bytes option"

definition SyncState_parse :: "nom_streaming \<Rightarrow> bytes \<Rightarrow> SyncState panicking" where
  "SyncState_parse S v = do {
     tag \<leftarrow> parse_value S v;
     tags \<leftarrow> expect (expect_constructed tag);
     (tags, t) \<leftarrow> expect (iter_next tags);
     n \<leftarrow> uint_element Types_Enumerated t;
     state \<leftarrow> (if n = 0 then Some ES_Present else if n = 1 then Some ES_Add
               else if n = 2 then Some ES_Modify else if n = 3 then Some ES_Delete else panic);
     (tags, t) \<leftarrow> expect (iter_next tags);
     entry_uuid \<leftarrow> expect (expect_primitive t);
     cookie \<leftarrow> (case iter_next tags of
                  None \<Rightarrow> Some None
                | Some (_, tag) \<Rightarrow> do { c \<leftarrow> expect (expect_primitive tag); Some (Some c) });
     Some \<lparr> ss_state = state, ss_entry_uuid = entry_uuid, ss_cookie = cookie \<rparr>
   }"

record SyncDone =
  sd_cookie :: "bytes option"
  sd_refresh_deletes :: bool

fun SyncDone_loop :: "StructureTag list \<Rightarrow> bytes option \<Rightarrow> bool \<Rightarrow> SyncDone panicking" where
  "SyncDone_loop [] cookie refresh_deletes =
     Some \<lparr> sd_cookie = cookie, sd_refresh_deletes = refresh_deletes \<rparr>"
| "SyncDone_loop (tag # tags) cookie refresh_deletes =
     (if st_id tag = Types_u64 Types_OctetString then
        (case st_payload tag of
           PL_P ostr \<Rightarrow> SyncDone_loop tags (Some ostr) refresh_deletes
         | PL_C _ \<Rightarrow> panic)
      else if st_id tag = Types_u64 Types_Boolean then
        (case st_payload tag of
           PL_P ostr \<Rightarrow> do { b \<leftarrow> vec_index ostr 0; SyncDone_loop tags cookie (b \<noteq> 0) }
         | PL_C _ \<Rightarrow> panic)
      else panic)"

definition SyncDone_parse :: "nom_streaming \<Rightarrow> bytes \<Rightarrow> SyncDone panicking" where
  "SyncDone_parse S v = do {
     tag \<leftarrow> parse_value S v;
     tags \<leftarrow> expect (expect_constructed tag);
     SyncDone_loop tags None False
   }"

datatype SyncInfo =
    NewCookie bytes
  | RefreshDelete "bytes option" bool
  | RefreshPresent "bytes option" bool
  | SyncIdSet "bytes option" bool "bytes set"

text \<open>The loop \<open>'it\<close> over the components, with its counter \<open>pass\<close>.\<close>

fun syncinfo_loop ::
    "StructureTag list \<Rightarrow> bytes option \<Rightarrow> bool \<Rightarrow> bytes set \<Rightarrow> nat \<Rightarrow> (bytes option \<times> bool \<times> bytes set) panicking" where
  "syncinfo_loop [] sync_cookie flag uuids pass = Some (sync_cookie, flag, uuids)"
| "syncinfo_loop (cmp # cmps) sync_cookie flag uuids pass =
     (if st_class cmp = Universal \<and> st_id cmp = Types_u64 Types_OctetString \<and> pass \<le> 1 then
        syncinfo_loop cmps (expect_primitive cmp) flag uuids (pass + 1)
      else if st_class cmp = Universal \<and> st_id cmp = Types_u64 Types_Boolean \<and> pass \<le> 2 then do {
        v \<leftarrow> expect (expect_primitive cmp);
        b \<leftarrow> vec_index v 0;
        syncinfo_loop cmps sync_cookie (b \<noteq> 0) uuids (pass + 1)
      }
      else if st_class cmp = Universal \<and> st_id cmp = Types_u64 Types_Set \<and> pass \<le> 3 then do {
        us \<leftarrow> expect (expect_constructed cmp);
        us \<leftarrow> map_panicking (\<lambda>u. expect (expect_primitive u)) us;
        syncinfo_loop cmps sync_cookie flag (set us) (pass + 1)
      }
      else panic)"

definition syncinfo_value :: "StructureTag \<Rightarrow> SyncInfo panicking" where
  "syncinfo_value syncinfo_val =
     (if st_class syncinfo_val = Context \<and> st_id syncinfo_val < 4 then
        if st_id syncinfo_val = 0 then
          (case st_payload syncinfo_val of PL_P payload \<Rightarrow> Some (NewCookie payload) | PL_C _ \<Rightarrow> panic)
        else
          (case st_payload syncinfo_val of
             PL_P _ \<Rightarrow> panic
           | PL_C payload \<Rightarrow> do {
               (sync_cookie, flag, uuids) \<leftarrow> syncinfo_loop payload None (st_id syncinfo_val \<noteq> 3) {} 1;
               if st_id syncinfo_val = 1 then Some (RefreshDelete sync_cookie flag)
               else if st_id syncinfo_val = 2 then Some (RefreshPresent sync_cookie flag)
               else if st_id syncinfo_val = 3 then Some (SyncIdSet sync_cookie flag uuids)
               else panic
             })
      else panic)"

fun syncinfo_tags :: "nom_streaming \<Rightarrow> StructureTag list \<Rightarrow> SyncInfo panicking" where
  "syncinfo_tags S [] = panic"
| "syncinfo_tags S (tag # tags) =
     (if st_id tag = 0 then do {
        v \<leftarrow> expect (expect_primitive tag);
        oid \<leftarrow> expect (from_utf8 v);
        if oid \<noteq> SYNC_INFO_OID then panic else syncinfo_tags S tags
      }
      else if st_id tag = 1 then do {
        v \<leftarrow> expect (expect_primitive tag);
        syncinfo_val \<leftarrow> parse_value S v;
        syncinfo_value syncinfo_val
      }
      else panic)"

definition parse_syncinfo :: "nom_streaming \<Rightarrow> ResultEntry \<Rightarrow> SyncInfo panicking" where
  "parse_syncinfo S entry = do {
     t \<leftarrow> match_id (re_tag entry) 25;
     tags \<leftarrow> expect (expect_constructed t);
     syncinfo_tags S tags
   }"

subsection \<open>Values that are read back\<close>

lemma uint_element_i_e:
  "0 \<le> sint v \<Longrightarrow> uint_element ty (i_e_into_structure (Types_u64 ty) Universal v) = Some v"
  by (simp add: uint_element_def i_e_into_structure_def parse_uint_i_e_octets)

lemma weight_i_e: "weight (i_e_into_structure i c v) \<le> 19"
  using length_i_e_octets [of v] by (simp add: i_e_into_structure_def)

lemma low_ids_i_e: "low_ids (i_e_into_structure i c v) \<longleftrightarrow> i \<le> 30"
  by (simp add: i_e_into_structure_def)

lemma filter_control_value:
  assumes "ber_ok (into_structure t)"
  shows "filter_control oid (Some (Ok t)) = Some \<lparr> ctype = oid, crit = False, ctl_val = Some (ber (into_structure t)) \<rparr>"
  using assms by (simp add: filter_control_def encode_value_def encode_into_def encode_eq ber_ok_def)

text \<open>The Sync Info values of RFC 4533, as the server writes them: a component with its default
  value may be left out or written.\<close>

definition opt_octets :: "bytes option \<Rightarrow> StructureTag list" where
  "opt_octets c = (case c of None \<Rightarrow> [] | Some c \<Rightarrow> [StructureTag Universal 4 (PL_P c)])"

definition bool_tag :: "bool \<Rightarrow> StructureTag" where
  "bool_tag b = StructureTag Universal 1 (PL_P [if b then 0xFF else 0])"

fun syncinfo_tag :: "bool \<Rightarrow> SyncInfo \<Rightarrow> bytes list \<Rightarrow> StructureTag" where
  "syncinfo_tag explicit (NewCookie c) us = StructureTag Context 0 (PL_P c)"
| "syncinfo_tag explicit (RefreshDelete c d) us = StructureTag Context 1
     (PL_C (opt_octets c @ (if explicit \<or> \<not> d then [bool_tag d] else [])))"
| "syncinfo_tag explicit (RefreshPresent c d) us = StructureTag Context 2
     (PL_C (opt_octets c @ (if explicit \<or> \<not> d then [bool_tag d] else [])))"
| "syncinfo_tag explicit (SyncIdSet c d uuids) us = StructureTag Context 3
     (PL_C (opt_octets c @ (if explicit \<or> d then [bool_tag d] else []) @
        [StructureTag Universal 17 (PL_C (map (\<lambda>u. StructureTag Universal 4 (PL_P u)) us))]))"

fun uuids_listed :: "SyncInfo \<Rightarrow> bytes list \<Rightarrow> bool" where
  "uuids_listed (SyncIdSet c d uuids) us = (set us = uuids)"
| "uuids_listed info us = True"

lemma map_primitive: "map_panicking expect_primitive (map (\<lambda>u. StructureTag c i (PL_P u)) us) = Some us"
  by (induction us) simp_all

lemma syncinfo_value_tag:
  assumes "uuids_listed info us"
  shows "syncinfo_value (syncinfo_tag explicit info us) = Some info"
proof (cases info)
  case (NewCookie c)
  then show ?thesis by (simp add: syncinfo_value_def)
next
  case (RefreshDelete c d)
  then show ?thesis by (cases c; cases d; cases explicit) (simp_all add: syncinfo_value_def opt_octets_def bool_tag_def)
next
  case (RefreshPresent c d)
  then show ?thesis by (cases c; cases d; cases explicit) (simp_all add: syncinfo_value_def opt_octets_def bool_tag_def)
next
  case (SyncIdSet c d uuids)
  with assms show ?thesis
    by (cases c; cases d; cases explicit) (simp_all add: syncinfo_value_def opt_octets_def bool_tag_def map_primitive)
qed

definition syncinfo_message :: "bytes \<Rightarrow> StructureTag" where
  "syncinfo_message v = StructureTag Application 25
     (PL_C [StructureTag Context 0 (PL_P SYNC_INFO_OID), StructureTag Context 1 (PL_P v)])"

lemma utf8_oid: "utf8_valid SYNC_INFO_OID"
  by (simp add: SYNC_INFO_OID_def is_ascii_def)

lemma paged_control_codec:
  assumes "nom_streaming_doc S" and "0 \<le> sint (pr_size pr)" and "length (pr_cookie pr) < 2 ^ 63"
  shows "\<exists>rc. PagedResults_into pr = Some rc \<and> ctype rc = PAGED_RESULTS_OID \<and> \<not> crit rc \<and>
     RawControl_parse (PagedResults_parse S) rc = Some pr"
proof -
  let ?t = "into_structure (Sequence [Integer (scast (pr_size pr)), OctetString (pr_cookie pr)])"
  have "weight ?t < 2 ^ 64" "low_ids ?t"
    using assms(3) weight_i_e [of 2 Universal "scast (pr_size pr)"] by (simp_all add: opsimps low_ids_i_e)
  then obtain v where "encode_value ?t = Some v" "parse_value S v = Some ?t"
    using nom_streaming_doc.value_codec [OF assms(1)] by blast
  then show ?thesis
    using uint_element_i_e [of "scast (pr_size pr)" Types_Integer] assms(2)
    by (simp add: PagedResults_into_def Let_def RawControl_parse_def PagedResults_parse_def opsimps
        sint_scast_i32 ucast_scast_i32)
qed

subsection \<open>Properties\<close>

text \<open>
  Paged Results (RFC 2696): the control value built for a page size and cookie is read
  back by the parser of the response control as the same size and cookie, for every
  non-negative size.
\<close>

theorem paged_results_roundtrip:
  assumes "nom_streaming_doc S" and "0 \<le> sint (pr_size pr)" and "length (pr_cookie pr) < 2 ^ 63"
  shows "\<exists>rc. PagedResults_into pr = Some rc \<and> ctype rc = PAGED_RESULTS_OID \<and> \<not> crit rc \<and>
     RawControl_parse (PagedResults_parse S) rc = Some pr"
  using assms by (rule paged_control_codec)

theorem paged_results_roundtrip_witness:
  "\<exists>rc. PagedResults_into \<lparr> pr_size = 500, pr_cookie = [1, 2] \<rparr> = Some rc \<and>
     ctype rc = PAGED_RESULTS_OID \<and> \<not> crit rc \<and>
     RawControl_parse (PagedResults_parse nom_streaming_ref) rc = Some \<lparr> pr_size = 500, pr_cookie = [1, 2] \<rparr>"
  using paged_results_roundtrip [OF nsr.nom_streaming_doc_axioms, of "\<lparr> pr_size = 500, pr_cookie = [1, 2] \<rparr>"]
  by simp

text \<open>
  Claim C32. Sync Info (RFC 4533): an intermediate message with any of the four choices is parsed
  to that choice, with the defaults of the specification for the components left out
  (\<open>refreshDone\<close> true, \<open>refreshDeletes\<close> false) and with the set of the UUIDs listed.
\<close>

theorem syncinfo_roundtrip:
  assumes "nom_streaming_doc S" and "uuids_listed info us"
    and "low_ids (syncinfo_tag explicit info us)" and "weight (syncinfo_tag explicit info us) < 2 ^ 64"
  shows "\<exists>v. encode_value (syncinfo_tag explicit info us) = Some v \<and>
     parse_syncinfo S (ResultEntry (syncinfo_message v) ctrls) = Some info"
proof -
  obtain v where "encode_value (syncinfo_tag explicit info us) = Some v"
    "parse_value S v = Some (syncinfo_tag explicit info us)"
    using nom_streaming_doc.value_codec [OF assms(1,3,4)] by blast
  then show ?thesis
    using syncinfo_value_tag [OF assms(2)]
    by (simp add: parse_syncinfo_def syncinfo_message_def from_utf8_def utf8_oid)
qed

theorem syncinfo_roundtrip_witness:
  "\<exists>v. encode_value (syncinfo_tag False (SyncIdSet None False {[1], [2]}) [[1], [2], [1]]) = Some v \<and>
     parse_syncinfo nom_streaming_ref (ResultEntry (syncinfo_message v) []) = Some (SyncIdSet None False {[1], [2]})"
proof (rule syncinfo_roundtrip [OF nsr.nom_streaming_doc_axioms])
qed (auto simp: opt_octets_def)

text \<open>
  The Assertion control (RFC 4528): for every text of a well-formed filter that the parser
  reads, the conversion does not panic, and the control value is the BER form of that filter.
\<close>

theorem assertion_control:
  assumes "nom_complete_doc N" and "filter_string f s" and "wf_filter f" and "no_dn_rule f"
    and "weight (into_structure (tag_of f)) < 2 ^ 64"
  shows "Assertion_new N s =
     Some \<lparr> ctype = ASSERTION_OID, crit = False, ctl_val = Some (ber (into_structure (tag_of f))) \<rparr>"
  unfolding Assertion_new_def parse_text [OF assms(1-4)]
  by (rule filter_control_value) (intro ber_ok_weight low_tag_into_structure low_tag_of assms(5))

theorem assertion_control_witness:
  "\<exists>v. Assertion_new nom_complete_ref (str ''(cn=*)'') = Some \<lparr> ctype = ASSERTION_OID, crit = False, ctl_val = Some v \<rparr>"
proof -
  let ?f = "FItem (Present (AttrDesc (Descr (str ''cn'')) []))"
  have "filter_string ?f (str ''(cn=*)'')" using print_filter_text [of ?f] by (simp add: filter_string_def)
  moreover have "wf_filter ?f" "no_dn_rule ?f" by code_simp+
  moreover have "weight (into_structure (tag_of ?f)) < 2 ^ 64" by simp
  ultimately show ?thesis
    using assertion_control [OF ncr.nom_complete_doc_axioms] by fastforce
qed

end
