(* ===== verification/Exop.thy ===== *)
theory Exop
  imports Controls_Impl
begin

text \<open>
  Extended operations (\<open>src/exop_impl.rs\<close>, \<open>src/exop_impl/*.rs\<close>): the generic \<open>Exop\<close>, the
  components of an extended request, Password Modify, Who Am I, StartTLS and the transaction
  operations, with the parsers of their response values.
\<close>

subsection \<open>exop_impl.rs\<close>

record Exop =
  ex_name :: "bytes option"
  ex_val :: "bytes option"

definition Exop_parse :: "(bytes \<Rightarrow> 'a panicking) \<Rightarrow> Exop \<Rightarrow> 'a panicking" where
  "Exop_parse parser self = do { v \<leftarrow> expect (ex_val self); parser v }"

definition construct_exop :: "Exop \<Rightarrow> Tag list panicking" where
  "construct_exop exop = do {
     name \<leftarrow> expect (ex_name exop);
     let seq = [Tag_OctetString 0 Context name];
         seq = (case ex_val exop of Some v \<Rightarrow> seq @ [Tag_OctetString 1 Context v] | None \<Rightarrow> seq) in
     Some seq
   }"

subsection \<open>passmod.rs\<close>

definition PASSMOD_OID :: bytes where "PASSMOD_OID = str ''1.3.6.1.4.1.4203.1.11.1''"

record PasswordModify =
  pm_user_id :: "bytes option"
  pm_old_pass :: "bytes option"
  pm_new_pass :: "bytes option"

definition PasswordModify_into :: "PasswordModify \<Rightarrow> Exop panicking" where
  "PasswordModify_into pm = do {
     let pm_vec = [];
         pm_vec = (case pm_user_id pm of Some user_id \<Rightarrow> pm_vec @ [Tag_OctetString 0 Context user_id] | None \<Rightarrow> pm_vec);
         pm_vec = (case pm_old_pass pm of Some old_pass \<Rightarrow> pm_vec @ [Tag_OctetString 1 Context old_pass] | None \<Rightarrow> pm_vec);
         pm_vec = (case pm_new_pass pm of Some new_pass \<Rightarrow> pm_vec @ [Tag_OctetString 2 Context new_pass] | None \<Rightarrow> pm_vec) in do {
     v \<leftarrow> (if pm_vec = [] then Some None
           else do { buf \<leftarrow> encode_value (into_structure (Sequence pm_vec)); Some (Some buf) });
     Some \<lparr> ex_name = Some PASSMOD_OID, ex_val = v \<rparr> }
   }"

definition PasswordModifyResp_parse :: "nom_streaming \<Rightarrow> bytes \<Rightarrow> bytes panicking" where
  "PasswordModifyResp_parse S v = do {
     tags \<leftarrow> parse_value S v;
     tags \<leftarrow> expect (expect_constructed tags);
     (tags, t) \<leftarrow> expect (iter_next tags);
     t \<leftarrow> match_class t Context;
     t \<leftarrow> match_id t 0;
     gen_pass \<leftarrow> expect (expect_primitive t);
     expect (from_utf8 gen_pass)
   }"

subsection \<open>whoami.rs, starttls.rs\<close>

definition WHOAMI_OID :: bytes where "WHOAMI_OID = str ''1.3.6.1.4.1.4203.1.11.3''"
definition STARTTLS_OID :: bytes where "STARTTLS_OID = str ''1.3.6.1.4.1.1466.20037''"

definition WhoAmI_into :: Exop where
  "WhoAmI_into = \<lparr> ex_name = Some WHOAMI_OID, ex_val = None \<rparr>"

definition WhoAmIResp_parse :: "bytes \<Rightarrow> bytes panicking" where
  "WhoAmIResp_parse v = expect (from_utf8 v)"

definition StartTLS_into :: Exop where
  "StartTLS_into = \<lparr> ex_name = Some STARTTLS_OID, ex_val = None \<rparr>"

subsection \<open>txn.rs\<close>

definition TXN_START_OID :: bytes where "TXN_START_OID = str ''1.3.6.1.1.21.1''"
definition TXN_END_OID :: bytes where "TXN_END_OID = str ''1.3.6.1.1.21.3''"

definition StartTxn_into :: Exop where
  "StartTxn_into = \<lparr> ex_name = Some TXN_START_OID, ex_val = None \<rparr>"

definition StartTxnResp_parse :: "bytes \<Rightarrow> bytes panicking" where
  "StartTxnResp_parse v = expect (from_utf8 v)"

record EndTxn =
  et_txn_id :: bytes
  et_commit :: bool

definition EndTxn_into :: "EndTxn \<Rightarrow> Exop panicking" where
  "EndTxn_into et = do {
     let et_vec = [];
         et_vec = (if \<not> et_commit et then et_vec @ [Boolean False] else et_vec);
         et_vec = et_vec @ [OctetString (et_txn_id et)] in do {
     buf \<leftarrow> encode_value (into_structure (Sequence et_vec));
     Some \<lparr> ex_name = Some TXN_END_OID, ex_val = Some buf \<rparr> }
   }"

record EndTxnResp =
  etr_msg_id :: "i32 option"
  etr_upds_ctrls :: "(i32 \<times> Control list) list option"

text \<open>The loop over the update controls, which pops elements from the end.\<close>

function upds_loop :: "StructureTag list \<Rightarrow> (i32 \<times> Control list) list \<Rightarrow> (i32 \<times> Control list) list panicking" where
  "upds_loop tags ctrls =
     (case vec_pop tags of
        None \<Rightarrow> Some ctrls
      | Some (tags1, t) \<Rightarrow>
          (case parse_controls t of
             None \<Rightarrow> panic
           | Some controls \<Rightarrow>
               (case vec_pop tags1 of
                  None \<Rightarrow> panic
                | Some (tags2, t) \<Rightarrow>
                    (case uint_element Types_Integer t of
                       None \<Rightarrow> panic
                     | Some ident \<Rightarrow> upds_loop tags2 (ctrls @ [(ucast ident, controls)])))))"
  by pat_completeness auto
termination
  by (relation "measure (\<lambda>(tags, _). length tags)") (auto simp: vec_pop_def split: if_splits)

declare upds_loop.simps [simp del]

text \<open>The loop over the components; the first sequence ends it, and nothing may follow.\<close>

fun EndTxnResp_loop :: "StructureTag list \<Rightarrow> i32 option \<Rightarrow> EndTxnResp panicking" where
  "EndTxnResp_loop [] msg_id = Some \<lparr> etr_msg_id = msg_id, etr_upds_ctrls = None \<rparr>"
| "EndTxnResp_loop (tag # tags) msg_id =
     (case st_payload tag of
        PL_P v \<Rightarrow>
          if st_id tag = Types_u64 Types_Integer \<and> st_class tag = Universal then
            (case parse_uint v of Ok (_, sz) \<Rightarrow> EndTxnResp_loop tags (Some (ucast sz)) | Err _ \<Rightarrow> panic)
          else panic
      | PL_C inner \<Rightarrow>
          if st_id tag = Types_u64 Types_Sequence \<and> st_class tag = Universal then do {
            ctrls \<leftarrow> upds_loop inner [];
            if tags \<noteq> [] then panic
            else Some \<lparr> etr_msg_id = msg_id, etr_upds_ctrls = Some ctrls \<rparr>
          }
          else panic)"

definition EndTxnResp_parse :: "nom_streaming \<Rightarrow> bytes \<Rightarrow> EndTxnResp panicking" where
  "EndTxnResp_parse S v = do {
     tag \<leftarrow> parse_value S v;
     tags \<leftarrow> expect (expect_constructed tag);
     EndTxnResp_loop tags None
   }"

subsection \<open>Properties\<close>

text \<open>The request value of RFC 3062, for comparison.\<close>

definition passmod_tag :: "bytes option \<Rightarrow> bytes option \<Rightarrow> bytes option \<Rightarrow> StructureTag" where
  "passmod_tag u old new = StructureTag Universal 16 (PL_C
     (concat (map (\<lambda>(i, x). case x of None \<Rightarrow> [] | Some x \<Rightarrow> [StructureTag Context i (PL_P x)])
       [(0, u), (1, old), (2, new)])))"

text \<open>
  Password Modify (RFC 3062): the request has no value when no field is given, and
  otherwise its value is the BER form of the sequence of exactly the fields given, each under
  its own tag number.
\<close>

theorem password_modify_value:
  assumes "weight (passmod_tag (pm_user_id pm) (pm_old_pass pm) (pm_new_pass pm)) < 2 ^ 64"
  shows "PasswordModify_into pm = Some \<lparr> ex_name = Some PASSMOD_OID,
     ex_val = (if pm_user_id pm = None \<and> pm_old_pass pm = None \<and> pm_new_pass pm = None then None
               else Some (ber (passmod_tag (pm_user_id pm) (pm_old_pass pm) (pm_new_pass pm)))) \<rparr>"
proof -
  let ?t = "passmod_tag (pm_user_id pm) (pm_old_pass pm) (pm_new_pass pm)"
  have "low_ids ?t" by (simp add: passmod_tag_def split: option.split)
  then have "length (ber ?t) < 2 ^ 64" using ber_ok_weight [OF _ assms] by (simp add: ber_ok_def)
  then have "encode_value ?t = Some (ber ?t)" by (simp add: encode_value_def encode_into_def encode_eq)
  then show ?thesis
    by (cases "pm_user_id pm"; cases "pm_old_pass pm"; cases "pm_new_pass pm")
      (simp_all add: PasswordModify_into_def Let_def passmod_tag_def opsimps del: ber.simps)
qed

theorem password_modify_value_witness:
  "\<exists>v. PasswordModify_into \<lparr> pm_user_id = None, pm_old_pass = None, pm_new_pass = Some (str ''s'') \<rparr> =
     Some \<lparr> ex_name = Some PASSMOD_OID, ex_val = Some v \<rparr> \<and> v = [0x30, 3, 0x82, 1, 0x73]"
proof -
  have "weight (passmod_tag None None (Some (str ''s''))) < 2 ^ 64" by (simp add: passmod_tag_def)
  moreover have "ber (passmod_tag None None (Some (str ''s''))) = [0x30, 3, 0x82, 1, 0x73]" by code_simp
  ultimately show ?thesis
    using password_modify_value [of "\<lparr> pm_user_id = None, pm_old_pass = None, pm_new_pass = Some (str ''s'') \<rparr>"]
    by simp
qed

text \<open>
  End Transaction (RFC 5805): the response value of the specification, with the
  controls of one update request as a sequence of message ID and controls inside the sequence of
  updates, is not understood: the parser takes the inner sequence for a list of controls and
  panics.
\<close>

theorem end_txn_resp_panics:
  "EndTxnResp_loop
     [StructureTag Universal 16 (PL_C
        [StructureTag Universal 16 (PL_C
           [StructureTag Universal 2 (PL_P [7]),
            StructureTag Context 0 (PL_C [build_tag \<lparr> ctype = POST_READ_OID, crit = False, ctl_val = Some [] \<rparr>])])])]
     None = panic"
  by (simp add: upds_loop.simps parse_controls_def parse_control_def)

end
