(* ===== verification/Ldap_Result.thy ===== *)
theory Ldap_Result
  imports Exop
begin

text \<open>
  Operation results (\<open>src/result.rs\<close>): the error type, \<open>LdapResult\<close> with its text form, the
  conversion of a response tag into a result with the parts of extended and bind responses, and
  the result wrappers. The errors of other crates that \<open>LdapError\<close> wraps are constructors
  without content, their texts a parameter; an I/O error carries its text.
\<close>

subsection \<open>result.rs\<close>

record LdapResult =
  lr_rc :: u32
  lr_matched :: bytes
  lr_text :: bytes
  lr_refs :: "bytes list"
  lr_ctrls :: "Control list"

datatype LdapError =
    EmptyUnixPath | PortInUnixPath | MismatchedStreamType
  | Io bytes | OpSend | ResultRecv | IdScrubSend | MiscSend | Timeout
  | FilterParsing | EndOfStream | UrlParsing | UnknownScheme bytes
  | NativeTLS | Rustls | DNSName
  | LdapResultError LdapResult
  | AddNoValues | AdapterInit bytes | DecodingUTF8 | InvalidScopeString bytes
  | UnrecognizedCriticalExtension bytes
  | GssapiOperationError bytes | NoGssapiToken | SSPIError | NoNtlmChallengeToken

definition description :: "u32 \<Rightarrow> bytes" where
  "description rc =
     (case map_of
        [(0, ''success''), (1, ''operationsError''), (2, ''protocolError''), (3, ''timeLimitExceeded''),
         (4, ''sizeLimitExceeded''), (5, ''compareFalse''), (6, ''compareTrue''), (7, ''authMethodNotSupported''),
         (8, ''strongerAuthRequired''), (10, ''referral''), (11, ''adminLimitExceeded''),
         (12, ''unavailableCriticalExtension''), (13, ''confidentialityRequired''), (14, ''saslBindInProgress''),
         (16, ''noSuchAttribute''), (17, ''undefinedAttributeType''), (18, ''inappropriateMatching''),
         (19, ''constraintViolation''), (20, ''attributeOrValueExists''), (21, ''invalidAttributeSyntax''),
         (32, ''noSuchObject''), (33, ''aliasProblem''), (34, ''invalidDNSyntax''),
         (36, ''aliasDereferencingProblem''), (48, ''inappropriateAuthentication''), (49, ''invalidCredentials''),
         (50, ''insufficientAccessRights''), (51, ''busy''), (52, ''unavailable''), (53, ''unwillingToPerform''),
         (54, ''loopDetect''), (64, ''namingViolation''), (65, ''objectClassViolation''),
         (66, ''notAllowedOnNonLeaf''), (67, ''notAllowedOnRDN''), (68, ''entryAlreadyExists''),
         (69, ''objectClassModsProhibited''), (71, ''affectsMultipleDSAs''), (80, ''other''), (88, ''abandoned''),
         (122, ''assertionFailed'')] rc of
        Some s \<Rightarrow> str s
      | None \<Rightarrow> str ''unknown'')"

text \<open>Decimal digits, as \<open>{}\<close> formats an unsigned integer.\<close>

fun decimal :: "nat \<Rightarrow> bytes" where
  "decimal n = (if n < 10 then [] else decimal (n div 10)) @ [of_nat (48 + n mod 10)]"

declare decimal.simps [simp del]

definition LdapResult_fmt :: "LdapResult \<Rightarrow> bytes" where
  "LdapResult_fmt self =
     str ''rc='' @ decimal (unat (lr_rc self)) @ str '' ('' @ description (lr_rc self) @ str ''), dn: '' @ [0x22] @
     lr_matched self @ [0x22] @ str '', text: '' @ [0x22] @ lr_text self @ [0x22]"

text \<open>
  \<open>Display\<close> of the errors; \<open>cause\<close> is the text of an error of another crate that an error wraps.
\<close>

fun LdapError_fmt :: "(LdapError \<Rightarrow> bytes) \<Rightarrow> LdapError \<Rightarrow> bytes" where
  "LdapError_fmt cause EmptyUnixPath = str ''empty Unix domain socket path''"
| "LdapError_fmt cause PortInUnixPath = str ''the port must be empty in the ldapi scheme''"
| "LdapError_fmt cause MismatchedStreamType = str ''the stream type in LdapConnSettings does not match the URL''"
| "LdapError_fmt cause (Io source) = str ''I/O error: '' @ source"
| "LdapError_fmt cause OpSend = str ''op send error: '' @ cause OpSend"
| "LdapError_fmt cause ResultRecv = str ''result recv error: '' @ cause ResultRecv"
| "LdapError_fmt cause IdScrubSend = str ''id scrub send error: '' @ cause IdScrubSend"
| "LdapError_fmt cause MiscSend = str ''cert send error: '' @ cause MiscSend"
| "LdapError_fmt cause Timeout = str ''timeout: '' @ cause Timeout"
| "LdapError_fmt cause FilterParsing = str ''filter parse error''"
| "LdapError_fmt cause EndOfStream = str ''premature end of search stream''"
| "LdapError_fmt cause UrlParsing = str ''url parse error: '' @ cause UrlParsing"
| "LdapError_fmt cause (UnknownScheme s) = str ''unknown LDAP URL scheme: '' @ s"
| "LdapError_fmt cause NativeTLS = str ''native TLS error: '' @ cause NativeTLS"
| "LdapError_fmt cause Rustls = str ''rustls error: '' @ cause Rustls"
| "LdapError_fmt cause DNSName = str ''rustls DNS error: '' @ cause DNSName"
| "LdapError_fmt cause (LdapResultError result) = str ''LDAP operation result: '' @ LdapResult_fmt result"
| "LdapError_fmt cause AddNoValues = str ''empty value set for Add''"
| "LdapError_fmt cause (AdapterInit s) = str ''adapter init error: '' @ s"
| "LdapError_fmt cause DecodingUTF8 = str ''utf8 decoding error''"
| "LdapError_fmt cause (InvalidScopeString s) = str ''invalid scope string in LDAP URL: '' @ s"
| "LdapError_fmt cause (UnrecognizedCriticalExtension s) = str ''unrecognized critical LDAP URL extension: '' @ s"
| "LdapError_fmt cause (GssapiOperationError s) = str ''GSSAPI operation error: '' @ s"
| "LdapError_fmt cause NoGssapiToken = str ''no token received from acceptor''"
| "LdapError_fmt cause SSPIError = str ''SSPI NTLM error: '' @ cause SSPIError"
| "LdapError_fmt cause NoNtlmChallengeToken = str ''no CHALLENGE token received in NTLM exchange''"

text \<open>\<open>From<LdapError> for io::Error\<close>; I/O errors are their texts.\<close>

definition io_Error_from :: "(LdapError \<Rightarrow> bytes) \<Rightarrow> LdapError \<Rightarrow> bytes" where
  "io_Error_from cause le = (case le of Io source \<Rightarrow> source | _ \<Rightarrow> LdapError_fmt cause le)"

definition success :: "LdapResult \<Rightarrow> (LdapResult, LdapError) result" where
  "success self = (if lr_rc self = 0 then Ok self else Err (LdapResultError self))"

definition non_error :: "LdapResult \<Rightarrow> (LdapResult, LdapError) result" where
  "non_error self = (if lr_rc self = 0 \<or> lr_rc self = 10 then Ok self else Err (LdapResultError self))"

type_synonym SaslCreds = "bytes option"
type_synonym LdapResultExt = "LdapResult \<times> Exop \<times> SaslCreds"

definition empty_result :: LdapResult where
  "empty_result = \<lparr> lr_rc = 0, lr_matched = [], lr_text = [], lr_refs = [], lr_ctrls = [] \<rparr>"

text \<open>The loop over the optional components of a response.\<close>

fun result_comps ::
    "StructureTag list \<Rightarrow> bytes list \<Rightarrow> bytes option \<Rightarrow> bytes option \<Rightarrow> bytes option \<Rightarrow>
     (bytes list \<times> bytes option \<times> bytes option \<times> bytes option) panicking" where
  "result_comps [] refs exop_name exop_val sasl_creds = Some (refs, exop_name, exop_val, sasl_creds)"
| "result_comps (cmp # tags) refs exop_name exop_val sasl_creds =
     (if st_id cmp = 3 then do {
        rs \<leftarrow> parse_refs cmp;
        result_comps tags (refs @ rs) exop_name exop_val sasl_creds
      }
      else if st_id cmp = 7 then do {
        v \<leftarrow> expect (expect_primitive cmp);
        result_comps tags refs exop_name exop_val (Some v)
      }
      else if st_id cmp = 10 then do {
        v \<leftarrow> expect (expect_primitive cmp);
        n \<leftarrow> expect (from_utf8 v);
        result_comps tags refs (Some n) exop_val sasl_creds
      }
      else if st_id cmp = 11 then do {
        v \<leftarrow> expect (expect_primitive cmp);
        result_comps tags refs exop_name (Some v) sasl_creds
      }
      else result_comps tags refs exop_name exop_val sasl_creds)"

definition LdapResultExt_from :: "Tag \<Rightarrow> LdapResultExt panicking" where
  "LdapResultExt_from t =
     (case t of
        Tag_StructureTag t \<Rightarrow> do {
          tags \<leftarrow> expect (expect_constructed t);
          (tags, t) \<leftarrow> expect (iter_next tags);
          code \<leftarrow> uint_element Types_Enumerated t;
          (tags, t) \<leftarrow> expect (iter_next tags);
          m \<leftarrow> expect (expect_primitive t);
          m \<leftarrow> expect (from_utf8 m);
          (tags, t) \<leftarrow> expect (iter_next tags);
          x \<leftarrow> expect (expect_primitive t);
          x \<leftarrow> expect (from_utf8 x);
          (rs, exop_name, exop_val, sasl_creds) \<leftarrow> result_comps tags [] None None None;
          Some (\<lparr> lr_rc = ucast code, lr_matched = m, lr_text = x, lr_refs = rs, lr_ctrls = [] \<rparr>,
                \<lparr> ex_name = exop_name, ex_val = exop_val \<rparr>, sasl_creds)
        }
      | Tag_Null _ _ \<Rightarrow> Some (empty_result, \<lparr> ex_name = None, ex_val = None \<rparr>, None)
      | _ \<Rightarrow> panic)"

definition LdapResult_from :: "Tag \<Rightarrow> LdapResult panicking" where
  "LdapResult_from t = map_option fst (LdapResultExt_from t)"

text \<open>\<open>SearchResult\<close>, \<open>CompareResult\<close> and \<open>ExopResult\<close>.\<close>

datatype SearchResult = SearchResult "ResultEntry list" LdapResult
datatype CompareResult = CompareResult LdapResult
datatype ExopResult = ExopResult Exop LdapResult

fun SearchResult_success :: "SearchResult \<Rightarrow> (ResultEntry list \<times> LdapResult, LdapError) result" where
  "SearchResult_success (SearchResult es r) = (if lr_rc r = 0 then Ok (es, r) else Err (LdapResultError r))"

fun SearchResult_non_error :: "SearchResult \<Rightarrow> (ResultEntry list \<times> LdapResult, LdapError) result" where
  "SearchResult_non_error (SearchResult es r) =
     (if lr_rc r = 0 \<or> lr_rc r = 10 then Ok (es, r) else Err (LdapResultError r))"

fun CompareResult_equal :: "CompareResult \<Rightarrow> (bool, LdapError) result" where
  "CompareResult_equal (CompareResult r) =
     (if lr_rc r = 5 then Ok False else if lr_rc r = 6 then Ok True else Err (LdapResultError r))"

fun CompareResult_non_error :: "CompareResult \<Rightarrow> (LdapResult, LdapError) result" where
  "CompareResult_non_error (CompareResult r) =
     (if lr_rc r = 5 \<or> lr_rc r = 6 \<or> lr_rc r = 10 then Ok r else Err (LdapResultError r))"

fun ExopResult_success :: "ExopResult \<Rightarrow> (Exop \<times> LdapResult, LdapError) result" where
  "ExopResult_success (ExopResult e r) = (if lr_rc r = 0 then Ok (e, r) else Err (LdapResultError r))"

fun ExopResult_non_error :: "ExopResult \<Rightarrow> (Exop \<times> LdapResult, LdapError) result" where
  "ExopResult_non_error (ExopResult e r) =
     (if lr_rc r = 0 \<or> lr_rc r = 10 then Ok (e, r) else Err (LdapResultError r))"

subsection \<open>Responses\<close>

text \<open>
  The response of RFC 4511: \<open>LDAPResult\<close> with the optional referral, SASL credentials and
  extended response fields, as a tag with application number \<open>i\<close>.
\<close>

definition response_tag :: "u64 \<Rightarrow> LdapResult \<Rightarrow> Exop \<Rightarrow> SaslCreds \<Rightarrow> StructureTag" where
  "response_tag i r e creds = StructureTag Application i (PL_C (
     [i_e_into_structure 10 Universal (ucast (lr_rc r)), octets (lr_matched r), octets (lr_text r)] @
     (if lr_refs r = [] then [] else [StructureTag Context 3 (PL_C (map octets (lr_refs r)))]) @
     (case creds of None \<Rightarrow> [] | Some c \<Rightarrow> [StructureTag Context 7 (PL_P c)]) @
     (case ex_name e of None \<Rightarrow> [] | Some n \<Rightarrow> [StructureTag Context 10 (PL_P n)]) @
     (case ex_val e of None \<Rightarrow> [] | Some v \<Rightarrow> [StructureTag Context 11 (PL_P v)])))"

definition utf8_response :: "LdapResult \<Rightarrow> Exop \<Rightarrow> bool" where
  "utf8_response r e \<longleftrightarrow> utf8_valid (lr_matched r) \<and> utf8_valid (lr_text r) \<and> list_all utf8_valid (lr_refs r) \<and>
     pred_option utf8_valid (ex_name e)"

lemma parse_refs_octets:
  "list_all utf8_valid us \<Longrightarrow> parse_refs (StructureTag c i (PL_C (map octets us))) = Some us"
  unfolding parse_refs_def by (induction us) (simp_all add: octets_def from_utf8_def)

lemma sint_ucast_u32: "0 \<le> sint (ucast (w :: u32) :: i64)"
proof -
  have "uint (ucast w :: i64) < 2 ^ 63"
    using uint_lt2p [of w] by (simp add: unsigned_ucast_eq take_bit_int_eq_self)
  then have "sint (ucast w :: i64) = uint (ucast w :: i64)"
    using signed_take_bit_int_eq_self [of 63 "uint (ucast w :: i64)"]
      order_trans [of "- (2 ^ 63)" 0 "uint (ucast w :: i64)"]
    by (simp add: sint_uint)
  then show ?thesis by simp
qed

lemma ucast_ucast_u32: "ucast (ucast (w :: u32) :: u64) = w"
  by (rule bit_word_eqI) (simp add: bit_simps)

lemma response_parsed:
  assumes "utf8_response r e"
  shows "LdapResultExt_from (Tag_StructureTag (response_tag i r e creds)) = Some (r\<lparr> lr_ctrls := [] \<rparr>, e, creds)"
proof -
  have "uint_element Types_Enumerated (i_e_into_structure 10 Universal (ucast (lr_rc r))) = Some (ucast (lr_rc r))"
    using uint_element_i_e [of "ucast (lr_rc r)" Types_Enumerated] sint_ucast_u32 by simp
  then show ?thesis
    using assms parse_refs_octets [of "lr_refs r"]
    by (cases r; cases e; cases creds)
      (auto simp: LdapResultExt_from_def response_tag_def utf8_response_def octets_def from_utf8_def
        ucast_ucast_u32 split: option.split)
qed

subsection \<open>Properties\<close>

text \<open>
  Claim C26. A response with valid UTF-8 strings is read back completely: result code, matched DN,
  diagnostic text, referrals, and the SASL credentials and extended response name and value when
  present, with no component confused with another.
\<close>

theorem ldap_result_parsed:
  assumes "utf8_response r e" and "lr_ctrls r = []"
  shows "LdapResultExt_from (Tag_StructureTag (response_tag i r e creds)) = Some (r, e, creds)"
  using response_parsed [OF assms(1)] assms(2) by (cases r) simp

theorem ldap_result_parsed_witness:
  "LdapResultExt_from (Tag_StructureTag (response_tag 24
     \<lparr> lr_rc = 10, lr_matched = str ''o=x'', lr_text = [], lr_refs = [str ''ldap:///''], lr_ctrls = [] \<rparr>
     \<lparr> ex_name = Some (str ''1.2''), ex_val = Some [0xFF] \<rparr> (Some [1]))) =
   Some (\<lparr> lr_rc = 10, lr_matched = str ''o=x'', lr_text = [], lr_refs = [str ''ldap:///''], lr_ctrls = [] \<rparr>,
     \<lparr> ex_name = Some (str ''1.2''), ex_val = Some [0xFF] \<rparr>, Some [1])"
  by (rule ldap_result_parsed) (simp_all add: utf8_response_def is_ascii_def)

end
