(* ===== verification/Util.thy ===== *)
theory Util
  imports Ldap_Result
begin

text \<open>
  Utilities (\<open>src/util.rs\<close>): the escaping functions for filter literals and for attribute values
  in names, the unescaping function, and the parameters of an LDAP URL. The output buffer of the
  escaping loops is created at the first byte that needs escaping, from the slice of the input
  before it, which would panic off a character boundary; this is in the model. The functions of
  the crates \<open>url\<close> and \<open>percent-encoding\<close> are arguments: the path and the query of the URL and
  the decoding of percent escapes into bytes.
\<close>

unbundle bit_operations_syntax

subsection \<open>Escaping\<close>

definition needs_escape :: "u8 \<Rightarrow> bool" where
  "needs_escape c \<longleftrightarrow> c = 0x5C \<or> c = of_char (CHR ''*'') \<or> c = of_char (CHR ''('') \<or> c = of_char (CHR '')'') \<or> c = 0"

definition xdigit :: "u8 \<Rightarrow> u8" where
  "xdigit c = c + (if c < 10 then of_char (CHR ''0'') else of_char (CHR ''a'') - 10)"

text \<open>The loop shared by \<open>ldap_escape\<close> and \<open>dn_escape\<close>, with the test of the caller.\<close>

fun escape_loop :: "(nat \<Rightarrow> u8 \<Rightarrow> bool) \<Rightarrow> bytes \<Rightarrow> nat \<Rightarrow> bytes \<Rightarrow> bytes option \<Rightarrow> bytes option panicking" where
  "escape_loop test lit i [] output = Some output"
| "escape_loop test lit i (c # cs) output =
     (if test i c then do {
        out \<leftarrow> (case output of None \<Rightarrow> str_slice_to lit i | Some out \<Rightarrow> Some out);
        escape_loop test lit (i + 1) cs (Some (out @ [0x5C, xdigit (drop_bit 4 c), xdigit (c AND 0xF)]))
      }
      else escape_loop test lit (i + 1) cs (map_option (\<lambda>out. out @ [c]) output))"

definition ldap_escape :: "bytes \<Rightarrow> bytes panicking" where
  "ldap_escape lit = do {
     output \<leftarrow> escape_loop (\<lambda>i c. needs_escape c) lit 0 lit None;
     case output of Some output \<Rightarrow> expect (from_utf8 output) | None \<Rightarrow> Some lit
   }"






text \<open>The loop of \<open>ldap_unescape\<close>: the automaton of the filter parser and the output buffer.\<close>

fun unescape_loop ::
    "nom_complete \<Rightarrow> bytes \<Rightarrow> nat \<Rightarrow> bytes \<Rightarrow> Unescaper \<Rightarrow> bytes option \<Rightarrow> (Unescaper \<times> bytes option) panicking" where
  "unescape_loop N v i [] u output = Some (u, output)"
| "unescape_loop N v i (c # cs) u output =
     (let u = feed N u c in
      case u of
        WantFirst \<Rightarrow> do {
          out \<leftarrow> (case output of None \<Rightarrow> str_slice_to v i | Some out \<Rightarrow> Some out);
          unescape_loop N v (i + 1) cs u (Some out)
        }
      | Value c \<Rightarrow> unescape_loop N v (i + 1) cs u (map_option (\<lambda>out. out @ [c]) output)
      | _ \<Rightarrow> unescape_loop N v (i + 1) cs u output)"

definition ldap_unescape :: "nom_complete \<Rightarrow> bytes \<Rightarrow> (bytes, LdapError) result panicking" where
  "ldap_unescape N v = do {
     (u, output) \<leftarrow> unescape_loop N v 0 v (Value 0) None;
     case output of
       Some output \<Rightarrow>
         (case u of
            Value _ \<Rightarrow> (case from_utf8 output of Some s \<Rightarrow> Some (Ok s) | None \<Rightarrow> Some (Err DecodingUTF8))
          | _ \<Rightarrow> Some (Err DecodingUTF8))
     | None \<Rightarrow> Some (Ok v)
   }"

subsection \<open>LDAP URLs\<close>

datatype LdapUrlExt =
    Bindname bytes | XBindpw bytes | Credentials bytes | SaslMech bytes | UrlStartTLS | UnknownExt bytes

text \<open>\<open>PartialEq\<close> of the extensions: the values are not compared.\<close>

fun LdapUrlExt_eq :: "LdapUrlExt \<Rightarrow> LdapUrlExt \<Rightarrow> bool" where
  "LdapUrlExt_eq (Bindname _) (Bindname _) = True"
| "LdapUrlExt_eq (XBindpw _) (XBindpw _) = True"
| "LdapUrlExt_eq (Credentials _) (Credentials _) = True"
| "LdapUrlExt_eq (SaslMech _) (SaslMech _) = True"
| "LdapUrlExt_eq UrlStartTLS UrlStartTLS = True"
| "LdapUrlExt_eq (UnknownExt _) (UnknownExt _) = True"
| "LdapUrlExt_eq _ _ = False"

text \<open>\<open>Hash\<close> of the extensions; \<open>h\<close> is the hash of a string into the state of the hasher.\<close>

fun LdapUrlExt_hash :: "(bytes \<Rightarrow> 'h \<Rightarrow> 'h) \<Rightarrow> LdapUrlExt \<Rightarrow> 'h \<Rightarrow> 'h" where
  "LdapUrlExt_hash h (Bindname _) = h (str ''Bindname'')"
| "LdapUrlExt_hash h (XBindpw _) = h (str ''XBindpw'')"
| "LdapUrlExt_hash h (Credentials _) = h (str ''Credentials'')"
| "LdapUrlExt_hash h (SaslMech _) = h (str ''SaslMech'')"
| "LdapUrlExt_hash h UrlStartTLS = h (str ''StartTLS'')"
| "LdapUrlExt_hash h (UnknownExt _) = h (str ''Unknown'')"

text \<open>\<open>HashSet\<close> relies on this agreement of \<open>Eq\<close> and \<open>Hash\<close>; it is why an extension is found by its kind.\<close>

lemma LdapUrlExt_eq_hash: "LdapUrlExt_eq a b \<longleftrightarrow> (\<forall>h s. LdapUrlExt_hash h a s = LdapUrlExt_hash h b (s :: bytes))"
proof
  assume "\<forall>h s. LdapUrlExt_hash h a s = LdapUrlExt_hash h b (s :: bytes)"
  then have "LdapUrlExt_hash (\<lambda>x _. x) a [] = LdapUrlExt_hash (\<lambda>x _. x) b []" by blast
  then show "LdapUrlExt_eq a b" by (cases a; cases b) simp_all
qed (cases a; cases b; simp)

text \<open>\<open>HashSet::insert\<close>: an element equal to one that is there is not added.\<close>

definition ext_insert :: "LdapUrlExt \<Rightarrow> LdapUrlExt list \<Rightarrow> LdapUrlExt list" where
  "ext_insert e es = (if list_ex (LdapUrlExt_eq e) es then es else es @ [e])"

record LdapUrlParams =
  url_base :: bytes
  url_attrs :: "bytes list"
  url_scope :: Scope
  url_filter :: bytes
  url_extensions :: "LdapUrlExt list"

definition to_ascii_lowercase :: "u8 \<Rightarrow> u8" where
  "to_ascii_lowercase c = (if in_range 0x41 0x5A c then c + 32 else c)"

definition ascii_lc_equal :: "bytes \<Rightarrow> bytes \<Rightarrow> bool" where
  "ascii_lc_equal s t \<longleftrightarrow>
     length s = length t \<and> list_all (\<lambda>(s, t). s = t) (zip s (map to_ascii_lowercase t))"

text \<open>\<open>str::splitn\<close> and \<open>str::split\<close> with an ASCII character.\<close>

definition split_once :: "u8 \<Rightarrow> bytes \<Rightarrow> bytes \<times> bytes option" where
  "split_once c s = (takeWhile (\<lambda>x. x \<noteq> c) s, case dropWhile (\<lambda>x. x \<noteq> c) s of [] \<Rightarrow> None | _ # r \<Rightarrow> Some r)"

fun splitn :: "nat \<Rightarrow> u8 \<Rightarrow> bytes \<Rightarrow> bytes list" where
  "splitn 0 c s = []"
| "splitn (Suc 0) c s = [s]"
| "splitn (Suc (Suc n)) c s =
     (case split_once c s of (a, None) \<Rightarrow> [a] | (a, Some r) \<Rightarrow> a # splitn (Suc n) c r)"

fun split_on :: "u8 \<Rightarrow> bytes \<Rightarrow> bytes list" where
  "split_on c [] = [[]]"
| "split_on c (x # xs) =
     (if x = c then [] # split_on c xs
      else case split_on c xs of [] \<Rightarrow> [[x]] | w # ws \<Rightarrow> (x # w) # ws)"

text \<open>\<open>Iterator::next\<close> with the default of the source for a missing or empty part.\<close>

definition next_part :: "bytes list \<Rightarrow> bytes \<times> bytes list" where
  "next_part parts = (case parts of [] \<Rightarrow> ([], []) | p # ps \<Rightarrow> (p, ps))"

text \<open>
  The debug form of \<open>Unknown(ext)\<close> in the error message. The query of a parsed URL has no
  control characters and no characters outside ASCII, so that only the quote and the backslash
  are escaped in the string.
\<close>

definition debug_unknown :: "bytes \<Rightarrow> bytes" where
  "debug_unknown s = str ''Unknown('' @ [0x22] @
     concat (map (\<lambda>c. if c = 0x22 \<or> c = 0x5C then [0x5C, c] else [c]) s) @ [0x22] @ str '')''"

definition url_ext :: "bool \<Rightarrow> bytes \<Rightarrow> bytes \<Rightarrow> (LdapUrlExt, LdapError) result" where
  "url_ext crt ident v =
     (if ident = str ''1.3.6.1.4.1.10094.1.5.1'' then Ok (Credentials v)
      else if ident = str ''1.3.6.1.4.1.10094.1.5.2'' then Ok (SaslMech v)
      else if ident = str ''1.3.6.1.4.1.1466.20037'' then Ok UrlStartTLS
      else if ascii_lc_equal (str ''bindname'') ident then Ok (Bindname v)
      else if ascii_lc_equal (str ''x-bindpw'') ident then Ok (XBindpw v)
      else if crt then Err (UnrecognizedCriticalExtension (debug_unknown ident))
      else Ok (UnknownExt []))"

text \<open>One pass of the loop over the extensions.\<close>

definition url_ext_part ::
    "(bytes \<Rightarrow> bytes) \<Rightarrow> bytes \<Rightarrow> LdapUrlExt list \<Rightarrow> (LdapUrlExt list, LdapError) result panicking" where
  "url_ext_part percent_decode ext ext_set = do {
     let (ident, val) = split_once (of_char (CHR ''='')) ext in do {
     (crt, ident) \<leftarrow>
       (if ident \<noteq> [] then do {
          s \<leftarrow> str_slice_to ident 1;
          if s = str ''!'' then do { ident \<leftarrow> str_slice_from ident 1; Some (True, ident) }
          else Some (False, ident)
        }
        else Some (False, ident));
     case from_utf8 (percent_decode (case val of Some v \<Rightarrow> v | None \<Rightarrow> [])) of
       None \<Rightarrow> Some (Err DecodingUTF8)
     | Some v \<Rightarrow> Some (and_then (url_ext crt ident v) (\<lambda>e.
         Ok (if LdapUrlExt_eq e (UnknownExt []) then ext_set else ext_insert e ext_set)))
   }}"

fun url_ext_loop ::
    "(bytes \<Rightarrow> bytes) \<Rightarrow> bytes list \<Rightarrow> LdapUrlExt list \<Rightarrow> (LdapUrlExt list, LdapError) result panicking" where
  "url_ext_loop percent_decode [] ext_set = Some (Ok ext_set)"
| "url_ext_loop percent_decode (ext # exts) ext_set = do {
     r \<leftarrow> url_ext_part percent_decode ext ext_set;
     case r of Err e \<Rightarrow> Some (Err e) | Ok ext_set \<Rightarrow> url_ext_loop percent_decode exts ext_set
   }"

definition get_url_params ::
    "(bytes \<Rightarrow> bytes) \<Rightarrow> bytes \<Rightarrow> bytes option \<Rightarrow> (LdapUrlParams, LdapError) result panicking" where
  "get_url_params percent_decode path query = do {
     base \<leftarrow> (if hd (path @ [0]) = of_char (CHR ''/'') then str_slice_from path 1 else Some path);
     case from_utf8 (percent_decode base) of
       None \<Rightarrow> Some (Err DecodingUTF8)
     | Some base \<Rightarrow>
         let parts = splitn 4 (of_char (CHR ''?'')) (case query of Some q \<Rightarrow> q | None \<Rightarrow> []);
             (alist, parts) = next_part parts;
             attrs = (if alist = [] then [str ''*''] else split_on (of_char (CHR '','')) alist);
             (scope_str, parts) = next_part parts
         in (case (if scope_str = [] then Ok Subtree
                   else if scope_str = str ''base'' then Ok Base
                   else if scope_str = str ''one'' then Ok OneLevel
                   else if scope_str = str ''sub'' then Ok Subtree
                   else Err (InvalidScopeString scope_str)) of
               Err e \<Rightarrow> Some (Err e)
             | Ok scope \<Rightarrow>
                 let (filt, parts) = next_part parts;
                     filt = (if filt = [] then str ''(objectClass=*)'' else filt)
                 in (case from_utf8 (percent_decode filt) of
                       None \<Rightarrow> Some (Err DecodingUTF8)
                     | Some filt \<Rightarrow>
                         let (exts, parts) = next_part parts in do {
                         r \<leftarrow> (if exts = [] then Some (Ok [])
                               else url_ext_loop percent_decode (split_on (of_char (CHR '','')) exts) []);
                         case r of
                           Err e \<Rightarrow> Some (Err e)
                         | Ok extensions \<Rightarrow>
                             Some (Ok \<lparr> url_base = base, url_attrs = attrs, url_scope = scope,
                                        url_filter = filt, url_extensions = extensions \<rparr>) }))
   }"

subsection \<open>What the loops compute\<close>

definition esc_at :: "(nat \<Rightarrow> u8 \<Rightarrow> bool) \<Rightarrow> nat \<Rightarrow> bytes \<Rightarrow> bytes" where
  "esc_at test i s = concat (map (\<lambda>(i, c). if test i c then [0x5C, hex_char (c div 16), hex_char (c mod 16)] else [c])
     (enumerate i s))"

lemma esc_at_simps [simp]:
  "esc_at test i [] = []"
  "esc_at test i (c # s) = (if test i c then [0x5C, hex_char (c div 16), hex_char (c mod 16)] else [c]) @ esc_at test (Suc i) s"
  by (simp_all add: esc_at_def)

lemma esc_at_append: "esc_at test i (a @ b) = esc_at test i a @ esc_at test (i + length a) b"
  by (simp add: esc_at_def enumerate_append_eq)

lemma esc_at_id: "(\<And>j c. c \<in> set s \<Longrightarrow> \<not> test j c) \<Longrightarrow> esc_at test i s = s"
  by (induction s arbitrary: i) simp_all

lemma xdigit_nibbles: "xdigit (drop_bit 4 c) = hex_char (c div 16)" "xdigit (c AND 0xF) = hex_char (c mod 16)"
proof -
  have "drop_bit 4 c = c div 16" by (simp add: drop_bit_eq_div)
  moreover have "c AND 0xF = c mod 16"
    using take_bit_eq_mask [of 4 c] take_bit_eq_mod [of 4 c] by (simp add: mask_eq_exp_minus_1)
  ultimately show "xdigit (drop_bit 4 c) = hex_char (c div 16)" "xdigit (c AND 0xF) = hex_char (c mod 16)"
    by (simp_all add: xdigit_def hex_char_def add.commute)
qed

lemma slice_ascii:
  assumes "is_ascii c"
  shows "str_slice_to (pre @ c # cs) (length pre) = Some pre"
proof -
  have "\<not> in_range 0x80 0xBF c" using assms in_range_not_ascii by blast
  then show ?thesis by (simp add: str_slice_to_def is_char_boundary_def nth_append)
qed

text \<open>The loop does not panic, and it builds the escaped text.\<close>

lemma escape_loop_eq:
  assumes "\<And>j c. test j c \<Longrightarrow> is_ascii c"
  shows "escape_loop test (pre @ rest) (length pre) rest buf =
    Some (case buf of
      Some out \<Rightarrow> Some (out @ esc_at test (length pre) rest)
    | None \<Rightarrow> if list_ex (\<lambda>(j, c). test j c) (enumerate (length pre) rest)
              then Some (pre @ esc_at test (length pre) rest) else None)"
proof (induction rest arbitrary: pre buf)
  case Nil
  show ?case by (simp split: option.split)
next
  case (Cons c cs)
  note ih = Cons.IH [of "pre @ [c]"]
  show ?case
  proof (cases "test (length pre) c")
    case True
    then have "str_slice_to (pre @ c # cs) (length pre) = Some pre"
      using assms slice_ascii by blast
    with True ih show ?thesis by (cases buf) (simp_all add: xdigit_nibbles)
  next
    case False
    with ih show ?thesis by (cases buf) simp_all
  qed
qed

lemma esc_at_unchanged: "\<not> list_ex (\<lambda>(j, c). test j c) (enumerate i s) \<Longrightarrow> esc_at test i s = s"
  by (induction s arbitrary: i) auto

lemma hex_char_ascii: "n < 16 \<Longrightarrow> is_ascii (hex_char n)"
  by (auto simp: hex_char_def is_ascii_def word_less_nat_alt unat_word_ariths)

lemma nibbles_bound: "c div 16 < (16 :: u8)" "c mod 16 < (16 :: u8)"
proof -
  have "unat c < 256" using unsigned_less [where 'a = nat, of c] by simp
  then show "c div 16 < (16 :: u8)" by (simp add: word_less_nat_alt unat_div div_less_iff_less_mult)
  show "c mod 16 < (16 :: u8)" by (simp add: word_less_nat_alt unat_mod)
qed

lemma tail_not_ascii: "utf8_tail_ok b cs \<Longrightarrow> c \<in> set cs \<Longrightarrow> \<not> is_ascii c"
  by (cases cs)
    (auto simp: utf8_tail_ok_def utf8_second_ok_def in_range_def is_ascii_def list_all_iff word_le_nat_alt
      word_less_nat_alt split: if_splits)

text \<open>Escaping ASCII characters keeps a string valid.\<close>

lemma utf8_esc_at:
  assumes "\<And>j c. test j c \<Longrightarrow> is_ascii c"
  shows "utf8_valid s \<Longrightarrow> utf8_valid (esc_at test i s)"
proof (induction s arbitrary: i rule: utf8_valid.induct)
  case 1
  show ?case by simp
next
  case (2 b r)
  show ?case
  proof (cases "is_ascii b")
    case True
    then have "utf8_valid r" using "2.prems" by simp
    moreover have "utf8_width b - 1 = 0" using True by (simp add: utf8_width_def is_ascii_def)
    ultimately have "utf8_valid (esc_at test (Suc i) r)" using "2.IH" True by (simp add: utf8_width_def is_ascii_def)
    moreover have "is_ascii 0x5C" by (simp add: is_ascii_def)
    ultimately show ?thesis
      using True by (simp add: hex_char_ascii nibbles_bound)
  next
    case False
    let ?w = "utf8_width b - 1"
    have p: "utf8_width b \<noteq> 0" "?w \<le> length r" "utf8_tail_ok b (take ?w r)" "utf8_valid (drop ?w r)"
      using "2.prems" by (simp_all add: utf8_valid.simps Let_def)
    have "esc_at test (Suc i) (take ?w r) = take ?w r"
      using tail_not_ascii [OF p(3)] assms by (intro esc_at_id) blast
    then have "esc_at test i (b # r) = b # take ?w r @ esc_at test (Suc i + ?w) (drop ?w r)"
      using False assms esc_at_append [of test "Suc i" "take ?w r" "drop ?w r"] p(2) by auto
    moreover have "utf8_valid (esc_at test (Suc i + ?w) (drop ?w r))"
      using "2.IH" p by simp
    ultimately show ?thesis using p by (simp add: utf8_valid.simps Let_def)
  qed
qed

lemma escape_result:
  assumes "\<And>j c. test j c \<Longrightarrow> is_ascii c" and "utf8_valid s"
  shows "(do { output \<leftarrow> escape_loop test s 0 s None;
     case output of Some output \<Rightarrow> expect (from_utf8 output) | None \<Rightarrow> Some s }) = Some (esc_at test 0 s)"
  using escape_loop_eq [of test "[]" s None] assms utf8_esc_at [OF assms, where i = 0] esc_at_unchanged [of test 0 s]
  by (auto simp: from_utf8_def)



lemma esc_at_esc: "esc_at (\<lambda>i c. needs_escape c) i s = esc s"
proof (induction s arbitrary: i)
  case (Cons c s)
  have "needs_escape c = must_escape c" by (auto simp: needs_escape_def must_escape_def)
  with Cons show ?case by (simp add: esc_byte_def)
qed simp

lemma needs_escape_ascii: "needs_escape c \<Longrightarrow> is_ascii c"
  by (auto simp: needs_escape_def is_ascii_def)

lemma ldap_escape_eq: "utf8_valid s \<Longrightarrow> ldap_escape s = Some (esc s)"
  unfolding ldap_escape_def
  by (subst escape_result) (auto simp: esc_at_esc needs_escape_def is_ascii_def)


text \<open>The unescaping loop.\<close>

definition unescaped_to :: "bytes \<Rightarrow> bytes \<Rightarrow> (Unescaper \<times> bytes option) panicking \<Rightarrow> bool" where
  "unescaped_to rest buf r \<longleftrightarrow>
     (case unesc rest of
        Some w \<Rightarrow> \<exists>y. r = Some (Value y, Some (buf @ w))
      | None \<Rightarrow> \<exists>u buf'. r = Some (u, Some buf') \<and> (\<forall>y. u \<noteq> Value y))"

context nom_complete_doc
begin

lemma unescape_error: "unescape_loop N v i rest UnescError buf = Some (UnescError, buf)"
  by (induction rest arbitrary: i) simp_all

lemma unescape_loop_Some: "unescaped_to rest buf (unescape_loop N v i rest (Value x) (Some buf))"
proof (induction rest arbitrary: i x buf rule: unesc.induct)
  case 1
  show ?case by (simp add: unescaped_to_def)
next
  case (2 c r)
  show ?case
  proof (cases "c = 0x5C")
    case False
    with "2.IH"(1) [OF False, of "buf @ [c]" "i + 1" c] show ?thesis
      by (cases "unesc r") (simp_all add: unescaped_to_def)
  next
    case True
    show ?thesis
    proof (cases "\<exists>a b r'. r = a # b # r' \<and> ascii_hex a \<and> ascii_hex b")
      case False
      with True show ?thesis
        by (cases r; cases "tl r") (auto simp: unescaped_to_def is_hex_digit unescape_error)
    next
      case ex: True
      then obtain a b r' where r: "r = a # b # r'" "ascii_hex a" "ascii_hex b" by blast
      let ?y = "16 * hex_digit_value a + hex_digit_value b"
      have m: "push_bit 4 w = 16 * w" for w :: u8 by (simp add: push_bit_eq_mult)
      have "unescaped_to r' (buf @ [?y]) (unescape_loop N v (i + 1 + 1 + 1) r' (Value ?y) (Some (buf @ [?y])))"
        using "2.IH"(2) [of a "b # r'" b r'] True r by blast
      with True r show ?thesis
        by (cases "unesc r'") (simp_all add: unescaped_to_def is_hex_digit hex_value_eq m)
    qed
  qed
qed

lemma unescape_loop_None:
  "unescape_loop N (pre @ rest) (length pre) rest (Value x) None =
    (if 0x5C \<in> set rest then unescape_loop N (pre @ rest) (length pre) rest (Value x) (Some pre)
     else Some (Value (last (x # rest)), None))"
proof (induction rest arbitrary: pre x)
  case (Cons c cs)
  show ?case
  proof (cases "c = 0x5C")
    case True
    then have "is_ascii c" by (simp add: is_ascii_def)
    with True show ?thesis by (simp add: slice_ascii)
  next
    case False
    with Cons.IH [of "pre @ [c]" c] show ?thesis by auto
  qed
qed simp

lemma unesc_plain: "0x5C \<notin> set v \<Longrightarrow> unesc v = Some v"
  by (induction v) auto

lemma ldap_unescape_eq:
  assumes "utf8_valid v"
  shows "ldap_unescape N v = Some (case unesc v of
     Some w \<Rightarrow> if utf8_valid w then Ok w else Err DecodingUTF8
   | None \<Rightarrow> Err DecodingUTF8)"
proof (cases "0x5C \<in> set v")
  case False
  then show ?thesis
    using unescape_loop_None [of "[]" v 0] assms by (simp add: ldap_unescape_def unesc_plain)
next
  case True
  then have l: "unescape_loop N v 0 v (Value 0) None = unescape_loop N v 0 v (Value 0) (Some [])"
    using unescape_loop_None [of "[]" v 0] by simp
  have u: "unescaped_to v [] (unescape_loop N v 0 v (Value 0) (Some []))"
    by (rule unescape_loop_Some)
  show ?thesis
  proof (cases "unesc v")
    case None
    then obtain u buf' where "unescape_loop N v 0 v (Value 0) (Some []) = Some (u, Some buf')" "\<forall>y. u \<noteq> Value y"
      using u by (auto simp: unescaped_to_def)
    with None l show ?thesis by (cases u) (simp_all add: ldap_unescape_def)
  next
    case (Some w)
    with u l show ?thesis by (auto simp: unescaped_to_def ldap_unescape_def from_utf8_def)
  qed
qed

end

subsection \<open>URLs\<close>

lemma split_once_stop: "c \<notin> set a \<Longrightarrow> split_once c (a @ c # r) = (a, Some r)"
  by (simp add: split_once_def takeWhile_append dropWhile_append)

lemma split_once_none: "c \<notin> set a \<Longrightarrow> split_once c a = (a, None)"
proof -
  assume "c \<notin> set a"
  then have "dropWhile (\<lambda>x. x \<noteq> c) a = []" "takeWhile (\<lambda>x. x \<noteq> c) a = a"
    by (auto simp: dropWhile_eq_Nil_conv takeWhile_eq_all_conv)
  then show ?thesis by (simp only: split_once_def list.case)
qed

text \<open>Joining with a separator.\<close>

fun join :: "u8 \<Rightarrow> bytes list \<Rightarrow> bytes" where
  "join c [] = []"
| "join c [w] = w"
| "join c (w # ws) = w @ c # join c ws"

lemma split_on_plain: "c \<notin> set w \<Longrightarrow> split_on c w = [w]"
  by (induction w) auto

lemma split_on_append: "c \<notin> set w \<Longrightarrow> split_on c (w @ c # r) = w # split_on c r"
  by (induction w) auto

lemma split_on_join: "ws \<noteq> [] \<Longrightarrow> list_all (\<lambda>w. c \<notin> set w) ws \<Longrightarrow> split_on c (join c ws) = ws"
  by (induction c ws rule: join.induct) (simp_all add: split_on_plain split_on_append)

definition scope_str :: "Scope \<Rightarrow> bytes" where
  "scope_str s = (case s of Base \<Rightarrow> str ''base'' | OneLevel \<Rightarrow> str ''one'' | Subtree \<Rightarrow> str ''sub'')"

lemma scope_str_plain: "0x3F \<notin> set (scope_str s)" "scope_str s \<noteq> []"
  by (cases s; simp add: scope_str_def)+

lemma join_no_sep: "c \<noteq> d \<Longrightarrow> list_all (\<lambda>w. c \<notin> set w) ws \<Longrightarrow> c \<notin> set (join d ws)"
  by (induction d ws rule: join.induct) auto

lemma splitn_parts:
  assumes "0x3F \<notin> set a" and "0x3F \<notin> set b"
  shows "splitn 4 0x3F (a @ 0x3F # b @ 0x3F # f) = a # b # splitn 2 0x3F f"
  using assms by (simp add: eval_nat_numeral split_once_stop)

lemma splitn_last: "0x3F \<notin> set f \<Longrightarrow> splitn 2 0x3F f = [f]"
  by (simp add: eval_nat_numeral split_once_none)

subsection \<open>DN escaping\<close>




lemma esc_at_ne: "s \<noteq> [] \<Longrightarrow> esc_at test i s \<noteq> []"
  by (cases s) simp_all

subsection \<open>Properties\<close>

text \<open>
  Claim C25. No filter injection: whatever the value, a filter made of an attribute description,
  \<open>=\<close> and the escaped value between parentheses is parsed as the equality match of that
  attribute with exactly that value, and the escaping function does not panic.
\<close>

theorem escaped_literal_in_filter:
  assumes "nom_complete_doc N" and "wf_attr a" and "utf8_valid v"
  shows "\<exists>e. ldap_escape v = Some e \<and>
     parse N (str ''('' @ print_attr a @ str ''='' @ e @ str '')'') =
       Some (Ok (Tag_Sequence EQ_MATCH Context [OctetString (print_attr a), OctetString v]))"
proof -
  have "parse N (print_filter (FItem (Equality a v))) = Some (Ok (tag_of (FItem (Equality a v))))"
    using assms(2) by (intro parse_print [OF assms(1)]) simp_all
  then show ?thesis using ldap_escape_eq [OF assms(3)] by (simp add: EQ_MATCH_def)
qed

theorem escaped_literal_in_filter_witness:
  "\<exists>e. ldap_escape (str ''*)(x=y'') = Some e \<and>
     parse nom_complete_ref (str ''('' @ str ''cn'' @ str ''='' @ e @ str '')'') =
       Some (Ok (Tag_Sequence EQ_MATCH Context [OctetString (str ''cn''), OctetString (str ''*)(x=y'')]))"
proof -
  have "wf_attr (AttrDesc (Descr (str ''cn'')) [])" by code_simp
  moreover have "utf8_valid (str ''*)(x=y'')" by (simp add: is_ascii_def)
  ultimately show ?thesis
    using escaped_literal_in_filter [OF ncr.nom_complete_doc_axioms, of "AttrDesc (Descr (str ''cn'')) []" "str ''*)(x=y''"]
    by simp
qed

text \<open>
  Unescaping inverts escaping: for every string, \<open>ldap_unescape\<close> of the result of
  \<open>ldap_escape\<close> is the string, and neither function panics.
\<close>

theorem ldap_unescape_escape:
  assumes "nom_complete_doc N" and "utf8_valid v"
  shows "\<exists>e. ldap_escape v = Some e \<and> ldap_unescape N e = Some (Ok v)"
proof -
  have "utf8_valid (esc v)"
    using utf8_esc_at [where test = "\<lambda>i c. needs_escape c" and i = 0, OF needs_escape_ascii assms(2)] by (simp only: esc_at_esc)
  then show ?thesis
    using ldap_escape_eq [OF assms(2)] nom_complete_doc.ldap_unescape_eq [OF assms(1)] unesc_esc [of v "[]"] assms(2)
    by simp
qed

theorem ldap_unescape_escape_witness:
  "\<exists>e. ldap_escape [0x28, 0xC3, 0xA9, 0] = Some e \<and> ldap_unescape nom_complete_ref e = Some (Ok [0x28, 0xC3, 0xA9, 0])"
  by (rule ldap_unescape_escape [OF ncr.nom_complete_doc_axioms])
    (simp add: utf8_valid.simps utf8_width_def utf8_tail_ok_def utf8_second_ok_def in_range_def)



text \<open>
  LDAP URLs: for a decoding that leaves strings without \<open>%\<close> as they are, the parts of
  \<open>/base?attributes?scope?filter\<close> are returned as given, a missing attribute list as \<open>*\<close>.
\<close>

theorem url_params_parts:
  assumes "\<And>s. 0x25 \<notin> set s \<Longrightarrow> percent_decode s = s"
    and "list_all (\<lambda>c. is_ascii c \<and> c \<noteq> 0x25) (base @ filt)"
    and "list_all (\<lambda>w. 0x3F \<notin> set w \<and> 0x2C \<notin> set w \<and> w \<noteq> []) ats" and "filt \<noteq> []" and "0x3F \<notin> set filt"
  shows "get_url_params percent_decode (0x2F # base)
      (Some (join 0x2C ats @ 0x3F # scope_str scope @ 0x3F # filt)) =
    Some (Ok \<lparr> url_base = base, url_attrs = (if ats = [] then [str ''*''] else ats), url_scope = scope,
      url_filter = filt, url_extensions = [] \<rparr>)"
proof -
  have "0x25 \<notin> set base" "0x25 \<notin> set filt" "list_all is_ascii base" "list_all is_ascii filt"
    using assms(2) by (auto simp: list_all_iff)
  then have pd: "from_utf8 (percent_decode base) = Some base" "from_utf8 (percent_decode filt) = Some filt"
    using assms(1) utf8_valid_ascii by (simp_all add: from_utf8_def)
  have q: "0x3F \<notin> set (join 0x2C ats)"
    using assms(3) by (intro join_no_sep) (auto simp: list_all_iff)
  have e: "(if join 0x2C ats = [] then [str ''*''] else split_on 0x2C (join 0x2C ats)) =
      (if ats = [] then [str ''*''] else ats)"
  proof (cases "ats = []")
    case False
    then have "join 0x2C ats \<noteq> []" using assms(3) by (cases ats; cases "tl ats") auto
    moreover have "split_on 0x2C (join 0x2C ats) = ats"
      using False assms(3) by (intro split_on_join) (auto simp: list_all_iff)
    ultimately show ?thesis using False by simp
  qed simp
  have "is_char_boundary (0x2F # base) 1"
    using assms(2) in_range_not_ascii by (cases base) (auto simp: is_char_boundary_def)
  then have "str_slice_from (0x2F # base) 1 = Some base" by (simp add: str_slice_from_def)
  moreover have "splitn 4 0x3F (join 0x2C ats @ 0x3F # scope_str scope @ 0x3F # filt) = [join 0x2C ats, scope_str scope, filt]"
    using splitn_parts [OF q scope_str_plain(1)] splitn_last [OF assms(5)] by simp
  ultimately show ?thesis
    using pd e assms(4) scope_str_plain(2) [of scope]
    by (cases scope) (auto simp: get_url_params_def next_part_def Let_def scope_str_def)
qed

theorem url_params_parts_witness:
  "get_url_params (\<lambda>s. s) (str ''/o=x'') (Some (str ''cn,sn?one?(a=b)'')) =
     Some (Ok \<lparr> url_base = str ''o=x'', url_attrs = [str ''cn'', str ''sn''], url_scope = OneLevel,
       url_filter = str ''(a=b)'', url_extensions = [] \<rparr>)"
  using url_params_parts [of "\<lambda>s. s" "str ''o=x''" "str ''(a=b)''" "[str ''cn'', str ''sn'']" OneLevel]
  by (simp add: is_ascii_def scope_str_def)

end
