(* ===== verification/Protocol.thy ===== *)
theory Protocol
  imports Util
begin

text \<open>
  The codec between messages and bytes (\<open>src/protocol.rs\<close>): \<open>decode_inner\<close>, the \<open>Decoder\<close> and
  \<open>Encoder\<close> of \<open>LdapCodec\<close> in the build with GSSAPI (without it, \<open>decode\<close> is \<open>decode_inner\<close> and
  \<open>maybe_wrap\<close> is \<open>encode_into\<close>), with the GSSAPI functions as a record parameter. A decoder call
  returns its result together with the remaining buffer, and \<open>None\<close> for a panic; an I/O error is
  its text.

  Shown here, for any parser library with the documented behaviour: a message that was encoded
  is decoded to the same message, leaving what follows; decoding is independent of how the
  stream is cut into reads.
\<close>

subsection \<open>protocol.rs\<close>

type_synonym RequestId = i32
type_synonym MaybeControls = "RawControl list option"
type_synonym io_error = bytes
type_synonym message = "RequestId \<times> Tag \<times> Control list"

definition decoding_error :: io_error where
  "decoding_error = str ''decoding error''"

text \<open>The part of \<open>decode_inner\<close> after the elements of the message have been taken apart.\<close>

definition decode_elements :: "StructureTag list \<Rightarrow> (message option, io_error) result panicking" where
  "decode_elements tags = do {
     (tags, maybe_controls) \<leftarrow> expect (vec_pop tags);
     if st_class maybe_controls = Context \<and> st_id maybe_controls = 0 \<and>
        expect_constructed maybe_controls = None then Some (Err decoding_error)
     else do {
       (tags, maybe_controls, has_controls) \<leftarrow>
         (if st_class maybe_controls = Context \<and> st_id maybe_controls = 0 then Some (tags, maybe_controls, True)
          else if st_class maybe_controls = Context \<and> st_id maybe_controls = 10 then do {
            (tags, maybe_controls) \<leftarrow> expect (vec_pop tags);
            Some (tags, maybe_controls, False)
          }
          else Some (tags, maybe_controls, False));
       (tags, protoop, controls) \<leftarrow>
         (if has_controls then do {
            (tags, protoop) \<leftarrow> expect (vec_pop tags);
            Some (tags, protoop, Some maybe_controls)
          }
          else Some (tags, maybe_controls, None));
       controls \<leftarrow> (case controls of Some controls \<Rightarrow> parse_controls controls | None \<Rightarrow> Some []);
       (tags, t) \<leftarrow> expect (vec_pop tags);
       msgid \<leftarrow> uint_element Types_Integer t;
       Some (Ok (Some (ucast msgid, Tag_StructureTag protoop, controls)))
     }
   }"

definition decode_inner :: "nom_streaming \<Rightarrow> bytes \<Rightarrow> ((message option, io_error) result \<times> bytes) panicking" where
  "decode_inner S buf =
     (case Parser_parse S buf of
        Err Panicked \<Rightarrow> panic
      | Err Incomplete \<Rightarrow> Some (Ok None, buf)
      | Err _ \<Rightarrow> Some (Err decoding_error, buf)
      | Ok (i, tag) \<Rightarrow>
          let buf = drop (length buf - length i) buf in
          (case do { t \<leftarrow> match_id tag (Types_u64 Types_Sequence); expect_constructed t } of
             None \<Rightarrow> Some (Err decoding_error, buf)
           | Some tags \<Rightarrow> do { r \<leftarrow> decode_elements tags; Some (r, buf) }))"

fun is_ok :: "('a, 'e) result \<Rightarrow> bool" where
  "is_ok (Ok _) = True"
| "is_ok (Err _) = False"

text \<open>
  The GSSAPI context: \<open>unwrap_iov\<close> decrypts the given number of bytes from the front of the
  buffer and returns the clear text and the rest of the buffer, \<open>wrap\<close> encrypts.
\<close>

record 'ctx gssapi =
  gss_unwrap_iov :: "'ctx \<Rightarrow> nat \<Rightarrow> bytes \<Rightarrow> (bytes \<times> bytes \<times> 'ctx, io_error) result"
  gss_wrap :: "'ctx \<Rightarrow> bytes \<Rightarrow> (bytes \<times> 'ctx, io_error) result"

record 'ctx LdapCodec =
  has_decoded_data :: bool
  sasl_wrap :: bool
  sasl_send_max :: u32
  client_ctx :: "'ctx option"

definition decode ::
    "nom_streaming \<Rightarrow> 'ctx gssapi \<Rightarrow> 'ctx LdapCodec \<Rightarrow> bytes \<Rightarrow>
     ((message option, io_error) result \<times> bytes \<times> 'ctx LdapCodec) panicking" where
  "decode S G self buf =
     (if \<not> sasl_wrap self \<or> buf = [] then do { (res, buf) \<leftarrow> decode_inner S buf; Some (res, buf, self) }
      else if has_decoded_data self then do {
        (res, buf) \<leftarrow> decode_inner S buf;
        Some (res, buf, if is_ok res \<and> buf = [] then self\<lparr> has_decoded_data := False \<rparr> else self)
      }
      else if length buf < 4 then Some (Err (str ''invalid SASL buffer''), buf, self)
      else let sasl_len = be_uint (take 4 buf) in
        if length buf - 4 < sasl_len then Some (Ok None, buf, self)
        else do {
          ctx \<leftarrow> expect (client_ctx self);
          case gss_unwrap_iov G ctx sasl_len (drop 4 buf) of
            Err e \<Rightarrow> Some (Err e, drop 4 buf, self)
          | Ok (decoded, buf, ctx) \<Rightarrow> do {
              (res, decoded) \<leftarrow> decode_inner S decoded;
              let self = self\<lparr> client_ctx := Some ctx \<rparr> in
              Some (if is_ok res \<and> decoded \<noteq> [] \<and> buf = []
                    then (res, decoded, self\<lparr> has_decoded_data := True \<rparr>)
                    else (res, buf, self))
            }
        })"

definition maybe_wrap ::
    "'ctx gssapi \<Rightarrow> 'ctx LdapCodec \<Rightarrow> StructureTag \<Rightarrow> bytes \<Rightarrow>
     ((unit, io_error) result \<times> bytes \<times> 'ctx LdapCodec) panicking" where
  "maybe_wrap G codec outstruct into = do {
     out_buf \<leftarrow> encode_into [] outstruct;
     if sasl_wrap codec then do {
       ctx \<leftarrow> expect (client_ctx codec);
       if 0 < sasl_send_max codec \<and> unat (sasl_send_max codec) < length out_buf then
         Some (Err (str ''buffer too large for GSSAPI: '' @ decimal (length out_buf) @ str '' > '' @
                     decimal (unat (sasl_send_max codec))), into, codec)
       else case gss_wrap G ctx out_buf of
         Err e \<Rightarrow> Some (Err e, into, codec)
       | Ok (sasl_buf, ctx) \<Rightarrow>
           Some (Ok (), into @ be_bytes 4 (length sasl_buf) @ sasl_buf, codec\<lparr> client_ctx := Some ctx \<rparr>)
     }
     else Some (Ok (), into @ out_buf, codec)
   }"

definition message_tag :: "RequestId \<Rightarrow> Tag \<Rightarrow> MaybeControls \<Rightarrow> StructureTag" where
  "message_tag ident tag controls =
     (let msg = [Integer (scast ident), tag];
          msg = (case controls of
                   Some controls \<Rightarrow>
                     msg @ [Tag_StructureTag (StructureTag Context 0 (PL_C (map build_tag controls)))]
                 | None \<Rightarrow> msg)
      in into_structure (Sequence msg))"

text \<open>The same two functions in the build without GSSAPI.\<close>

definition decode_plain :: "nom_streaming \<Rightarrow> bytes \<Rightarrow> ((message option, io_error) result \<times> bytes) panicking" where
  "decode_plain S buf = decode_inner S buf"

definition maybe_wrap_plain :: "StructureTag \<Rightarrow> bytes \<Rightarrow> ((unit, io_error) result \<times> bytes) panicking" where
  "maybe_wrap_plain outstruct into = do { into \<leftarrow> encode_into into outstruct; Some (Ok (), into) }"

text \<open>
  A codec without a security layer works as in that build: the feature changes nothing for
  connections that do not use it.
\<close>

lemma decode_no_layer:
  "\<not> sasl_wrap codec \<Longrightarrow> decode S G codec buf = map_option (\<lambda>(r, buf). (r, buf, codec)) (decode_plain S buf)"
  by (simp add: decode_def decode_plain_def map_option_case case_prod_beta split: option.split)

lemma maybe_wrap_no_layer:
  "\<not> sasl_wrap codec \<Longrightarrow> maybe_wrap G codec st into = map_option (\<lambda>(r, buf). (r, buf, codec)) (maybe_wrap_plain st into)"
  by (cases "encode_inner [] st") (simp_all add: maybe_wrap_def maybe_wrap_plain_def encode_into_def)

definition encode ::
    "'ctx gssapi \<Rightarrow> 'ctx LdapCodec \<Rightarrow> RequestId \<times> Tag \<times> MaybeControls \<Rightarrow> bytes \<Rightarrow>
     ((unit, io_error) result \<times> bytes \<times> 'ctx LdapCodec) panicking" where
  "encode G self = (\<lambda>(ident, tag, controls) into. maybe_wrap G self (message_tag ident tag controls) into)"

subsection \<open>Reading a stream\<close>

text \<open>
  All that repeated calls of \<open>decode_inner\<close> extract from a buffer: the messages in order and the
  bytes that remain when more input is needed; \<open>None\<close> when a call panics or returns an error.
\<close>

function decode_all :: "nom_streaming \<Rightarrow> bytes \<Rightarrow> (message list \<times> bytes) option" where
  "decode_all S buf =
     (case decode_inner S buf of
        Some (Ok (Some m), rest) \<Rightarrow>
          if length rest < length buf then map_option (\<lambda>(ms, r). (m # ms, r)) (decode_all S rest) else None
      | Some (Ok None, rest) \<Rightarrow> Some ([], rest)
      | _ \<Rightarrow> None)"
  by pat_completeness auto
termination
  by (relation "measure (\<lambda>(_, buf). length buf)") auto

declare decode_all.simps [simp del]

text \<open>What the receiver makes of a message.\<close>

definition received :: "RequestId \<times> Tag \<times> MaybeControls \<Rightarrow> message" where
  "received = (\<lambda>(ident, tag, controls). (ident, Tag_StructureTag (into_structure tag),
     map (\<lambda>rc. Control (CONTROLS (ctype rc)) rc) (case controls of None \<Rightarrow> [] | Some cs \<Rightarrow> cs)))"

text \<open>The bytes of a message on the wire.\<close>

definition wire :: "RequestId \<times> Tag \<times> MaybeControls \<Rightarrow> bytes" where
  "wire = (\<lambda>(ident, tag, controls). ber (message_tag ident tag controls))"

text \<open>
  Messages that the codec carries: a non-negative message ID, an operation that is not context
  specific (those of RFC 4511 are application tags), UTF-8 control types, and an encoding that
  \<open>ber_ok\<close> accepts.
\<close>

definition message_ok :: "RequestId \<times> Tag \<times> MaybeControls \<Rightarrow> bool" where
  "message_ok = (\<lambda>(ident, tag, controls). 0 \<le> sint ident \<and> st_class (into_structure tag) \<noteq> Context \<and>
     (case controls of None \<Rightarrow> True | Some cs \<Rightarrow> list_all (\<lambda>rc. utf8_valid (ctype rc)) cs) \<and>
     ber_ok (message_tag ident tag controls))"

lemma decode_elements_message:
  assumes "0 \<le> sint ident" and "st_class op \<noteq> Context"
  shows "decode_elements [into_structure (Integer (scast ident)), op] =
      Some (Ok (Some (ident, Tag_StructureTag op, [])))"
    and "(\<And>rc. rc \<in> set cs \<Longrightarrow> utf8_valid (ctype rc)) \<Longrightarrow>
      decode_elements [into_structure (Integer (scast ident)), op, StructureTag Context 0 (PL_C (map build_tag cs))] =
      Some (Ok (Some (ident, Tag_StructureTag op, map (\<lambda>rc. Control (CONTROLS (ctype rc)) rc) cs)))"
proof -
  have u: "uint_element Types_Integer (into_structure (Integer (scast ident))) = Some (scast ident)"
    using uint_element_i_e [of "scast ident" Types_Integer] assms(1) by (simp add: opsimps sint_scast_i32)
  show "decode_elements [into_structure (Integer (scast ident)), op] =
      Some (Ok (Some (ident, Tag_StructureTag op, [])))"
    using u assms(2) by (simp add: decode_elements_def ucast_scast_i32 del: into_structure.simps)
  show "decode_elements [into_structure (Integer (scast ident)), op, StructureTag Context 0 (PL_C (map build_tag cs))] =
      Some (Ok (Some (ident, Tag_StructureTag op, map (\<lambda>rc. Control (CONTROLS (ctype rc)) rc) cs)))"
    if "\<And>rc. rc \<in> set cs \<Longrightarrow> utf8_valid (ctype rc)"
    using u that by (simp add: decode_elements_def parse_controls_build ucast_scast_i32 del: into_structure.simps)
qed

lemma drop_rest: "drop (length (e @ r) - length r) (e @ r) = r"
  by simp

context nom_streaming_doc
begin

lemma decode_inner_message:
  assumes "message_ok (ident, tag, controls)"
  shows "decode_inner S (ber (message_tag ident tag controls) @ r) = Some (Ok (Some (received (ident, tag, controls))), r)"
proof -
  let ?t = "message_tag ident tag controls"
  have p: "Parser_parse S (ber ?t @ r) = Ok (r, ?t)"
    using parse_tag_ber(1) [of ?t r] ber_ne [of ?t] assms by (simp add: Parser_parse_def message_ok_def)
  have "decode_elements (the (expect_constructed ?t)) = Some (Ok (Some (received (ident, tag, controls))))"
    using decode_elements_message [of ident "into_structure tag"] assms
    by (cases controls)
      (simp_all add: message_ok_def message_tag_def Sequence_def Let_def received_def list_all_iff)
  then show ?thesis
    unfolding decode_inner_def p by (simp add: message_tag_def Sequence_def Let_def)
qed

lemma decode_inner_partial:
  assumes "message_ok (ident, tag, controls)" and "m < length (ber (message_tag ident tag controls))"
  shows "decode_inner S (List.take m (ber (message_tag ident tag controls))) =
    Some (Ok None, List.take m (ber (message_tag ident tag controls)))"
  using parse_tag_prefix [OF _ assms(2)] assms(1) by (simp add: decode_inner_def Parser_parse_def message_ok_def)

text \<open>More input after the bytes a call has consumed does not change its result.\<close>

lemma decode_inner_extend:
  assumes "decode_inner S a = Some (Ok (Some m), r)"
  shows "decode_inner S (a @ b) = Some (Ok (Some m), r @ b) \<and> length r < length a"
proof -
  obtain i t where p: "Parser_parse S a = Ok (i, t)"
    using assms by (auto simp: decode_inner_def split: result.splits NomErr.splits)
  then have a: "a \<noteq> []" and pt: "parse_tag S a = Ok (i, t)"
    by (auto simp: Parser_parse_def split: if_splits)
  obtain c where c: "a = c @ i" using parse_tag_suffix [OF pt] by blast
  have "Parser_parse S (a @ b) = Ok (i @ b, t)"
    using parse_tag_extend [OF pt] a by (simp add: Parser_parse_def)
  with assms p c have "decode_inner S (a @ b) = Some (Ok (Some m), r @ b)" "r = i"
    by (auto simp: decode_inner_def Let_def bind_eq_Some_conv split: option.splits)
  with parse_tag_rest [OF pt] show ?thesis by simp
qed

lemma decode_inner_None: "decode_inner S a = Some (Ok None, r) \<Longrightarrow> r = a"
  by (auto simp: decode_inner_def decode_elements_def Let_def bind_eq_Some_conv
      split: result.splits NomErr.splits option.splits if_splits)

text \<open>Reading in two parts is reading at once, for any bytes.\<close>

lemma decode_all_append:
  "decode_all S a = Some (ms, r) \<Longrightarrow>
    decode_all S (a @ b) = map_option (\<lambda>(ns, q). (ms @ ns, q)) (decode_all S (r @ b))"
proof (induction "length a" arbitrary: a ms rule: less_induct)
  case less
  consider (msg) m rest where "decode_inner S a = Some (Ok (Some m), rest)" "length rest < length a"
      "\<exists>ms'. decode_all S rest = Some (ms', r) \<and> ms = m # ms'"
    | (more) "decode_inner S a = Some (Ok None, r)" "ms = []"
    using less.prems by (subst (asm) decode_all.simps)
      (auto split: option.splits prod.splits result.splits if_splits)
  then show ?case
  proof cases
    case msg
    then obtain ms' where ms: "decode_all S rest = Some (ms', r)" "ms = m # ms'" by blast
    have "decode_all S (a @ b) = map_option (\<lambda>(ms, r). (m # ms, r)) (decode_all S (rest @ b))"
      using decode_inner_extend [OF msg(1), of b] by (subst decode_all.simps) simp
    with less.hyps [OF msg(2) ms(1)] ms(2) show ?thesis by (cases "decode_all S (r @ b)") auto
  next
    case more
    with decode_inner_None [OF more(1)] show ?thesis by (simp add: option.map_id)
  qed
qed

lemma decode_all_wire:
  assumes "message_ok m"
  shows "decode_all S (wire m @ r) = map_option (\<lambda>(ms, q). (received m # ms, q)) (decode_all S r)"
proof -
  obtain ident tag controls where m: "m = (ident, tag, controls)" by (cases m)
  show ?thesis
    using decode_inner_message [of ident tag controls r] assms ber_ne
    by (subst decode_all.simps) (simp add: m wire_def)
qed

lemma decode_all_wire_prefix:
  assumes "message_ok m" and "k < length (wire m)"
  shows "decode_all S (List.take k (wire m)) = Some ([], List.take k (wire m))"
  using assms decode_inner_partial by (cases m) (subst decode_all.simps, auto simp: wire_def)

lemma decode_all_Nil: "decode_all S [] = Some ([], [])"
  by (subst decode_all.simps) (simp add: decode_inner_def Parser_parse_def)

lemma decode_all_prefix:
  "list_all message_ok ms \<Longrightarrow> p @ w = concat (map wire ms) \<Longrightarrow>
    \<exists>ms1 ms2 q. ms = ms1 @ ms2 \<and> decode_all S p = Some (map received ms1, q) \<and>
      q @ w = concat (map wire ms2) \<and> decode_all S q = Some ([], q)"
proof (induction ms arbitrary: p)
  case Nil
  then show ?case by (simp add: decode_all_Nil)
next
  case (Cons m ms)
  have ok: "message_ok m" using Cons.prems(1) by simp
  show ?case
  proof (cases "length p < length (wire m)")
    case True
    have "p = List.take (length p) (p @ w)" by simp
    also have "\<dots> = List.take (length p) (wire m)" using True Cons.prems(2) by simp
    finally have "decode_all S p = Some ([], p)" using decode_all_wire_prefix [OF ok True] by simp
    with Cons.prems(2) show ?thesis by (intro exI [of _ "[]"] exI [of _ "m # ms"] exI [of _ p]) simp
  next
    case False
    define p' where "p' = drop (length (wire m)) p"
    have "List.take (length (wire m)) (p @ w) = wire m" using Cons.prems(2) by simp
    then have "p = wire m @ p'"
      using False append_take_drop_id [of "length (wire m)" p] by (simp add: p'_def)
    with Cons.prems(2) have p': "p = wire m @ p'" "p' @ w = concat (map wire ms)" by simp_all
    with Cons obtain ms1 ms2 q where "ms = ms1 @ ms2" "decode_all S p' = Some (map received ms1, q)"
      "q @ w = concat (map wire ms2)" "decode_all S q = Some ([], q)" by (metis list.pred_inject(2))
    with p' decode_all_wire [OF ok, of p'] show ?thesis
      by (intro exI [of _ "m # ms1"] exI [of _ ms2] exI [of _ q]) simp
  qed
qed

end

text \<open>Reads of arbitrary sizes: each is appended to what was left, then the buffer is drained.\<close>

fun decode_chunks :: "nom_streaming \<Rightarrow> bytes \<Rightarrow> bytes list \<Rightarrow> (message list \<times> bytes) option" where
  "decode_chunks S buf [] = Some ([], buf)"
| "decode_chunks S buf (chunk # chunks) =
     (case decode_all S (buf @ chunk) of
        None \<Rightarrow> None
      | Some (ms, buf) \<Rightarrow> map_option (\<lambda>(ns, q). (ms @ ns, q)) (decode_chunks S buf chunks))"

context nom_streaming_doc
begin

lemma decode_chunks_wire:
  "list_all message_ok ms \<Longrightarrow> q @ concat chunks = concat (map wire ms) \<Longrightarrow> decode_all S q = Some ([], q) \<Longrightarrow>
    decode_chunks S q chunks = Some (map received ms, [])"
proof (induction chunks arbitrary: q ms)
  case Nil
  have "decode_all S (concat (map wire ms)) = Some (map received ms, [])"
    using Nil.prems(1) by (induction ms) (auto simp: decode_all_Nil decode_all_wire)
  with Nil.prems show ?case by simp
next
  case (Cons c cs)
  obtain ms1 ms2 r where r: "ms = ms1 @ ms2" "decode_all S (q @ c) = Some (map received ms1, r)"
    "r @ concat cs = concat (map wire ms2)" "decode_all S r = Some ([], r)"
    using decode_all_prefix [OF Cons.prems(1), of "q @ c" "concat cs"] Cons.prems(2) by auto
  with Cons.IH [of ms2 r] Cons.prems(1) show ?case by simp
qed

end

lemma encode_wire:
  assumes "\<not> sasl_wrap codec" and "message_ok m"
  shows "encode G codec m into = Some (Ok (), into @ wire m, codec)"
  using assms
  by (cases m) (simp add: encode_def maybe_wrap_def message_ok_def wire_def ber_ok_def encode_into_def encode_eq)

subsection \<open>Properties\<close>

text \<open>
  Claim C14. Messages round trip: what the encoder appends to the output for a request is decoded
  by the peer to the same message ID, operation and controls, and exactly the bytes of the
  message are consumed.
\<close>

theorem message_roundtrip:
  assumes "nom_streaming_doc S" and "message_ok m" and "\<not> sasl_wrap codec"
  shows "\<exists>e. encode G codec m into = Some (Ok (), into @ e, codec) \<and>
     (\<forall>rest. decode_inner S (e @ rest) = Some (Ok (Some (received m)), rest))"
  using encode_wire [OF assms(3,2)] nom_streaming_doc.decode_inner_message [OF assms(1)] assms(2)
  by (cases m) (auto simp: wire_def)

definition no_gssapi :: "unit gssapi" where
  "no_gssapi = \<lparr> gss_unwrap_iov = (\<lambda>_ _ _. Err []), gss_wrap = (\<lambda>_ _. Err []) \<rparr>"

definition example_message :: "RequestId \<times> Tag \<times> MaybeControls" where
  "example_message = (7, Tag_OctetString 10 Application (str ''o=x''), Some [ManageDsaIt_into])"

lemma example_message_ok: "message_ok example_message"
proof -
  have "low_ids (message_tag 7 (Tag_OctetString 10 Application (str ''o=x'')) (Some [ManageDsaIt_into]))"
    by (simp add: message_tag_def opsimps low_ids_i_e low_ids_build_tag)
  moreover have "weight (message_tag 7 (Tag_OctetString 10 Application (str ''o=x'')) (Some [ManageDsaIt_into])) < 2 ^ 64"
    using weight_i_e [of 2 Universal "scast (7 :: i32)"]
    by (simp add: message_tag_def opsimps build_tag_def ManageDsaIt_into_def oid_defs)
  ultimately have "ber_ok (message_tag 7 (Tag_OctetString 10 Application (str ''o=x'')) (Some [ManageDsaIt_into]))"
    by (rule ber_ok_weight)
  then show ?thesis
    by (simp add: example_message_def message_ok_def ManageDsaIt_into_def oid_defs is_ascii_def)
qed

theorem message_roundtrip_witness:
  "\<exists>e. encode no_gssapi \<lparr> has_decoded_data = False, sasl_wrap = False, sasl_send_max = 0, client_ctx = None \<rparr>
       example_message [1] =
     Some (Ok (), [1] @ e, \<lparr> has_decoded_data = False, sasl_wrap = False, sasl_send_max = 0, client_ctx = None \<rparr>) \<and>
     (\<forall>rest. decode_inner nom_streaming_ref (e @ rest) = Some (Ok (Some (received example_message)), rest))"
  by (rule message_roundtrip [OF nsr.nom_streaming_doc_axioms example_message_ok]) simp

text \<open>
  Claim C15. Framing: however the bytes of a sequence of messages are cut into reads, the decoder
  delivers exactly these messages in order, and nothing is left in the buffer at the end.
\<close>

theorem decoding_independent_of_reads:
  assumes "nom_streaming_doc S" and "list_all message_ok ms" and "concat chunks = concat (map wire ms)"
  shows "decode_chunks S [] chunks = Some (map received ms, [])"
  using nom_streaming_doc.decode_chunks_wire [OF assms(1,2), of "[]" chunks] assms(3)
    nom_streaming_doc.decode_all_Nil [OF assms(1)] by simp

theorem decoding_independent_of_reads_witness:
  "decode_chunks nom_streaming_ref [] (map (\<lambda>b. [b]) (wire example_message @ wire example_message)) =
     Some ([received example_message, received example_message], [])"
  using decoding_independent_of_reads [OF nsr.nom_streaming_doc_axioms, of "[example_message, example_message]"]
    example_message_ok by simp

text \<open>
  Reading any bytes in two parts gives the same messages as reading them at once: what
  the decoder has already delivered is never revised, whatever the peer sends.
\<close>

theorem decode_incremental:
  assumes "nom_streaming_doc S" and "decode_all S a = Some (ms, r)"
  shows "decode_all S (a @ b) = map_option (\<lambda>(ns, q). (ms @ ns, q)) (decode_all S (r @ b))"
  using assms by (rule nom_streaming_doc.decode_all_append)

theorem decode_incremental_witness:
  "decode_all nom_streaming_ref ((wire example_message @ [0x30]) @ [5]) =
     map_option (\<lambda>(ns, q). ([received example_message] @ ns, q)) (decode_all nom_streaming_ref ([0x30] @ [5]))"
proof (rule decode_incremental [OF nsr.nom_streaming_doc_axioms])
  have "decode_all nom_streaming_ref [0x30] = Some ([], [0x30])" by code_simp
  then show "decode_all nom_streaming_ref (wire example_message @ [0x30]) = Some ([received example_message], [0x30])"
    using nsr.decode_all_wire [OF example_message_ok, of "[0x30]"] by simp
qed





text \<open>
  In a connection with a SASL security layer a read that ends within the four length
  octets of a buffer is an error, while the rest of the octets would arrive with the next read.
\<close>

theorem sasl_short_read_fails:
  "decode nom_streaming_ref G \<lparr> has_decoded_data = False, sasl_wrap = True, sasl_send_max = 0, client_ctx = c \<rparr> [0, 0] =
     Some (Err (str ''invalid SASL buffer''), [0, 0],
       \<lparr> has_decoded_data = False, sasl_wrap = True, sasl_send_max = 0, client_ctx = c \<rparr>)"
  by (simp add: decode_def)

end
