(* ===== verification/Runtime.thy ===== *)
theory Runtime
  imports Protocol
begin

text \<open>
  What the asynchronous part of the library uses of its surroundings. The state that the handles
  and the connection share (the contents of the channels, the \<open>msgmap\<close> behind its mutex, the
  socket) is the type \<open>'w\<close>, and the functions of tokio and of the framed stream that the code calls
  are the fields of two records over it: \<open>channels\<close> for those that return at once, \<open>tokio\<close> for
  those that are awaited. Senders and receivers are numbers that name the channel.

  An awaited call returns \<open>None\<close> when it never completes; a \<open>None\<close> of the operations built on it
  is thus a panic or no return.
\<close>

subsection \<open>protocol.rs, search.rs\<close>

type_synonym ticket = nat
type_synonym chan = nat
type_synonym duration = nat
type_synonym msgmap = "RequestId \<times> RequestId set"

datatype LdapOp = Single | Search chan | Abandon RequestId | Unbind

datatype MiscSender = Cert ticket

datatype SearchItem = Item_Entry StructureTag | Item_Referral StructureTag | Item_Done LdapResult

type_synonym op_tuple = "RequestId \<times> LdapOp \<times> Tag \<times> MaybeControls \<times> ticket"

text \<open>
  The mutex (\<open>Mutex::lock\<close> and the guard), \<open>oneshot::channel\<close>, \<open>mpsc::unbounded_channel\<close>, the
  senders (\<open>False\<close>: the receiver is gone, and the value is returned in the error) and the drop of a
  receiver; \<open>Framed::send\<close>, which encodes with the codec and writes, and \<open>shutdown\<close> and \<open>close\<close>
  whose errors the code only logs.
\<close>

record 'w channels =
  ch_msgmap :: "'w \<Rightarrow> msgmap"
  ch_set_msgmap :: "msgmap \<Rightarrow> 'w \<Rightarrow> 'w"
  ch_oneshot :: "'w \<Rightarrow> ticket \<times> 'w"
  ch_unbounded :: "'w \<Rightarrow> chan \<times> 'w"
  ch_send_op :: "op_tuple \<Rightarrow> 'w \<Rightarrow> bool \<times> 'w"
  ch_is_closed :: "'w \<Rightarrow> bool"
  ch_send_scrub :: "RequestId \<Rightarrow> 'w \<Rightarrow> bool \<times> 'w"
  ch_send_misc :: "MiscSender \<Rightarrow> 'w \<Rightarrow> bool \<times> 'w"
  ch_send_result :: "ticket \<Rightarrow> Tag \<times> Control list \<Rightarrow> 'w \<Rightarrow> bool \<times> 'w"
  ch_send_cert :: "ticket \<Rightarrow> bytes option \<Rightarrow> 'w \<Rightarrow> bool \<times> 'w"
  ch_send_item :: "chan \<Rightarrow> SearchItem \<times> Control list \<Rightarrow> 'w \<Rightarrow> bool \<times> 'w"
  ch_drop_rx :: "chan \<Rightarrow> 'w \<Rightarrow> 'w"
  st_send :: "RequestId \<times> Tag \<times> MaybeControls \<Rightarrow> 'w \<Rightarrow> ((unit, io_error) result \<times> 'w) panicking"
  st_shutdown :: "'w \<Rightarrow> 'w"
  st_peer_certificate :: "'w \<Rightarrow> (bytes option, LdapError) result"

text \<open>
  Awaiting the receiver of a \<open>oneshot\<close> (\<open>None\<close>: the sender was dropped) and of a search channel
  (\<open>None\<close>: all senders were dropped and the channel is empty), alone and under \<open>time::timeout\<close>
  (\<open>None\<close>: the time has elapsed).
\<close>

record 'w tokio = "'w channels" +
  await_result :: "ticket \<Rightarrow> 'w \<Rightarrow> ((Tag \<times> Control list) option \<times> 'w) panicking"
  timeout_result :: "duration \<Rightarrow> ticket \<Rightarrow> 'w \<Rightarrow> ((Tag \<times> Control list) option option \<times> 'w) panicking"
  await_item :: "chan \<Rightarrow> 'w \<Rightarrow> ((SearchItem \<times> Control list) option \<times> 'w) panicking"
  timeout_item :: "duration \<Rightarrow> chan \<Rightarrow> 'w \<Rightarrow> ((SearchItem \<times> Control list) option option \<times> 'w) panicking"
  await_cert :: "ticket \<Rightarrow> 'w \<Rightarrow> (bytes option option \<times> 'w) panicking"

text \<open>Operations on a handle (state \<open>'h\<close>) in these surroundings.\<close>

type_synonym ('a, 'h, 'w) async = "'h \<Rightarrow> 'w \<Rightarrow> (('a, LdapError) result \<times> 'h \<times> 'w) panicking"

text \<open>Awaiting an operation and applying \<open>?\<close> to its result.\<close>

definition await_ok :: "('a, 'h, 'w) async \<Rightarrow> ('a \<Rightarrow> ('b, 'h, 'w) async) \<Rightarrow> ('b, 'h, 'w) async" where
  "await_ok m k h w = do {
     (r, h, w) \<leftarrow> m h w;
     case r of Err e \<Rightarrow> Some (Err e, h, w) | Ok x \<Rightarrow> k x h w
   }"

lemma await_ok_simps:
  "m h w = Some (Ok x, h', w') \<Longrightarrow> await_ok m k h w = k x h' w'"
  "m h w = Some (Err e, h', w') \<Longrightarrow> await_ok m k h w = Some (Err e, h', w')"
  "m h w = None \<Longrightarrow> await_ok m k h w = None"
  by (simp_all add: await_ok_def)

lemma await_ok_Ok:
  "await_ok m k h w = Some (Ok y, h', w') \<Longrightarrow> \<exists>x h1 w1. m h w = Some (Ok x, h1, w1) \<and> k x h1 w1 = Some (Ok y, h', w')"
  by (cases "m h w") (auto simp: await_ok_def split: result.split_asm)

definition done_ok :: "'a \<Rightarrow> ('a, 'h, 'w) async" where
  [simp]: "done_ok x h w = Some (Ok x, h, w)"

subsection \<open>Reference surroundings\<close>

text \<open>
  Channels as their documentation describes them: unbounded first-in first-out queues, oneshot
  cells, and receivers that can be dropped. The socket is a buffer of outgoing bytes, filled by
  the encoder of \<open>Protocol\<close>, and one of incoming bytes.
\<close>

record world =
  w_msgmap :: msgmap
  w_next :: nat
  w_open :: bool
  w_ops :: "op_tuple list"
  w_scrubs :: "RequestId list"
  w_miscs :: "MiscSender list"
  w_results :: "ticket \<rightharpoonup> Tag \<times> Control list"
  w_certs :: "ticket \<rightharpoonup> bytes option"
  w_items :: "chan \<Rightarrow> (SearchItem \<times> Control list) list"
  w_dropped :: "nat set"
  w_shut :: bool
  w_out :: bytes
  w_in :: bytes

definition plain_codec :: "unit LdapCodec" where
  "plain_codec = \<lparr> has_decoded_data = False, sasl_wrap = False, sasl_send_max = 0, client_ctx = None \<rparr>"

definition send_ref :: "RequestId \<times> Tag \<times> MaybeControls \<Rightarrow> 'z world_scheme \<Rightarrow>
    ((unit, io_error) result \<times> 'z world_scheme) panicking" where
  "send_ref m w =
     (if w_shut w then Some (Err (str ''broken pipe''), w)
      else do {
        (r, out, _) \<leftarrow> encode no_gssapi plain_codec m (w_out w);
        Some (r, w\<lparr> w_out := out \<rparr>)
      })"

definition channels_ref :: "'z world_scheme channels" where
  "channels_ref = \<lparr>
     ch_msgmap = w_msgmap,
     ch_set_msgmap = (\<lambda>m w. w\<lparr> w_msgmap := m \<rparr>),
     ch_oneshot = (\<lambda>w. (w_next w, w\<lparr> w_next := Suc (w_next w) \<rparr>)),
     ch_unbounded = (\<lambda>w. (w_next w, w\<lparr> w_next := Suc (w_next w) \<rparr>)),
     ch_send_op = (\<lambda>op w. (w_open w, if w_open w then w\<lparr> w_ops := w_ops w @ [op] \<rparr> else w)),
     ch_is_closed = (\<lambda>w. \<not> w_open w),
     ch_send_scrub = (\<lambda>i w. (w_open w, if w_open w then w\<lparr> w_scrubs := w_scrubs w @ [i] \<rparr> else w)),
     ch_send_misc = (\<lambda>m w. (w_open w, if w_open w then w\<lparr> w_miscs := w_miscs w @ [m] \<rparr> else w)),
     ch_send_result = (\<lambda>t v w. (t \<notin> w_dropped w,
       if t \<notin> w_dropped w then w\<lparr> w_results := (w_results w)(t \<mapsto> v) \<rparr> else w)),
     ch_send_cert = (\<lambda>t v w. (t \<notin> w_dropped w,
       if t \<notin> w_dropped w then w\<lparr> w_certs := (w_certs w)(t \<mapsto> v) \<rparr> else w)),
     ch_send_item = (\<lambda>c v w. (c \<notin> w_dropped w,
       if c \<notin> w_dropped w then w\<lparr> w_items := (w_items w)(c := w_items w c @ [v]) \<rparr> else w)),
     ch_drop_rx = (\<lambda>c w. w\<lparr> w_dropped := insert c (w_dropped w) \<rparr>),
     st_send = send_ref,
     st_shutdown = (\<lambda>w. w\<lparr> w_shut := True \<rparr>),
     st_peer_certificate = (\<lambda>_. Ok None) \<rparr>"

definition world_init :: world where
  "world_init = \<lparr> w_msgmap = (0, {}), w_next = 0, w_open = True, w_ops = [], w_scrubs = [], w_miscs = [],
     w_results = (\<lambda>_. None), w_certs = (\<lambda>_. None), w_items = (\<lambda>_. []), w_dropped = {}, w_shut = False,
     w_out = [], w_in = [] \<rparr>"

lemma channels_ref_simps [simp]:
  "ch_msgmap channels_ref = w_msgmap"
  "ch_set_msgmap channels_ref m w = w\<lparr> w_msgmap := m \<rparr>"
  "ch_oneshot channels_ref w = (w_next w, w\<lparr> w_next := Suc (w_next w) \<rparr>)"
  "ch_unbounded channels_ref w = (w_next w, w\<lparr> w_next := Suc (w_next w) \<rparr>)"
  "ch_send_op channels_ref op w = (w_open w, if w_open w then w\<lparr> w_ops := w_ops w @ [op] \<rparr> else w)"
  "ch_is_closed channels_ref w \<longleftrightarrow> \<not> w_open w"
  "ch_send_scrub channels_ref i w = (w_open w, if w_open w then w\<lparr> w_scrubs := w_scrubs w @ [i] \<rparr> else w)"
  "ch_send_misc channels_ref s w = (w_open w, if w_open w then w\<lparr> w_miscs := w_miscs w @ [s] \<rparr> else w)"
  "ch_send_result channels_ref t v w = (t \<notin> w_dropped w,
     if t \<notin> w_dropped w then w\<lparr> w_results := (w_results w)(t \<mapsto> v) \<rparr> else w)"
  "ch_send_item channels_ref c u w = (c \<notin> w_dropped w,
     if c \<notin> w_dropped w then w\<lparr> w_items := (w_items w)(c := w_items w c @ [u]) \<rparr> else w)"
  "ch_drop_rx channels_ref c w = w\<lparr> w_dropped := insert c (w_dropped w) \<rparr>"
  "st_send channels_ref = send_ref"
  "st_shutdown channels_ref w = w\<lparr> w_shut := True \<rparr>"
  "st_peer_certificate channels_ref w = Ok None"
  by (simp_all add: channels_ref_def)

text \<open>
  Awaiting a value while other tasks run: \<open>poll\<close> lets one of them take a step, \<open>get\<close> takes the value
  once it is there, and \<open>alive\<close> holds as long as somebody can still send it. The result is \<open>None\<close>
  inside when nobody is left who could, outside when the value never comes. Under a timeout, time
  elapses when no task can take a step.
\<close>

partial_function (option) await_by ::
    "('w \<Rightarrow> 'w option) \<Rightarrow> ('w \<Rightarrow> ('r \<times> 'w) option) \<Rightarrow> ('w \<Rightarrow> bool) \<Rightarrow> 'w \<Rightarrow> ('r option \<times> 'w) option" where
  "await_by poll get alive w =
     (case get w of
        Some (r, w) \<Rightarrow> Some (Some r, w)
      | None \<Rightarrow> if alive w then (case poll w of None \<Rightarrow> None | Some w \<Rightarrow> await_by poll get alive w) else Some (None, w))"

partial_function (option) timeout_by ::
    "('w \<Rightarrow> 'w option) \<Rightarrow> ('w \<Rightarrow> ('r \<times> 'w) option) \<Rightarrow> ('w \<Rightarrow> bool) \<Rightarrow> 'w \<Rightarrow> ('r option option \<times> 'w) option" where
  "timeout_by poll get alive w =
     (case get w of
        Some (r, w) \<Rightarrow> Some (Some (Some r), w)
      | None \<Rightarrow> if alive w then (case poll w of None \<Rightarrow> Some (None, w) | Some w \<Rightarrow> timeout_by poll get alive w)
          else Some (Some None, w))"

declare await_by.simps [code] timeout_by.simps [code]

lemma await_by_get: "get w = Some (r, w') \<Longrightarrow> await_by poll get alive w = Some (Some r, w')"
  by (subst await_by.simps) simp

lemma await_by_poll:
  "get w = None \<Longrightarrow> alive w \<Longrightarrow> poll w = Some w' \<Longrightarrow> await_by poll get alive w = await_by poll get alive w'"
  by (subst await_by.simps) simp

lemma await_by_stuck: "get w = None \<Longrightarrow> alive w \<Longrightarrow> poll w = None \<Longrightarrow> await_by poll get alive w = None"
  by (subst await_by.simps) simp

lemma await_by_gone: "get w = None \<Longrightarrow> \<not> alive w \<Longrightarrow> await_by poll get alive w = Some (None, w)"
  by (subst await_by.simps) simp

lemma timeout_by_poll:
  "get w = None \<Longrightarrow> alive w \<Longrightarrow> poll w = Some w' \<Longrightarrow> timeout_by poll get alive w = timeout_by poll get alive w'"
  by (subst timeout_by.simps) simp

lemma timeout_by_elapsed: "get w = None \<Longrightarrow> alive w \<Longrightarrow> poll w = None \<Longrightarrow> timeout_by poll get alive w = Some (None, w)"
  by (subst timeout_by.simps) simp

lemma timeout_by_get: "get w = Some (r, w') \<Longrightarrow> timeout_by poll get alive w = Some (Some (Some r), w')"
  by (subst timeout_by.simps) simp

lemma timeout_by_gone: "get w = None \<Longrightarrow> \<not> alive w \<Longrightarrow> timeout_by poll get alive w = Some (Some None, w)"
  by (subst timeout_by.simps) simp

text \<open>Taking a value from the reference surroundings.\<close>

definition get_result :: "ticket \<Rightarrow> 'z world_scheme \<Rightarrow> ((Tag \<times> Control list) \<times> 'z world_scheme) option" where
  "get_result t w = map_option (\<lambda>r. (r, w)) (w_results w t)"

definition get_item :: "chan \<Rightarrow> 'z world_scheme \<Rightarrow> ((SearchItem \<times> Control list) \<times> 'z world_scheme) option" where
  "get_item ch w = (case w_items w ch of [] \<Rightarrow> None | x # xs \<Rightarrow> Some (x, w\<lparr> w_items := (w_items w)(ch := xs) \<rparr>))"

definition get_cert :: "ticket \<Rightarrow> 'z world_scheme \<Rightarrow> (bytes option \<times> 'z world_scheme) option" where
  "get_cert t w = map_option (\<lambda>r. (r, w)) (w_certs w t)"

end
