(* ===== verification/Transitions.thy ===== *)
theory Transitions
  imports Main
begin

text \<open>
  Labelled transition systems given by a partial function from label and state to the next
  state: reachable states under a side condition on the steps, runs, invariants, and simulation by
  an abstract step relation.
\<close>

inductive reach :: "'s \<Rightarrow> ('a \<Rightarrow> 's \<Rightarrow> 's option) \<Rightarrow> ('s \<Rightarrow> 'a \<Rightarrow> bool) \<Rightarrow> 's \<Rightarrow> bool"
  for start nxt ok where
  reach_start: "reach start nxt ok start"
| reach_step: "reach start nxt ok s \<Longrightarrow> ok s a \<Longrightarrow> nxt a s = Some s' \<Longrightarrow> reach start nxt ok s'"

text \<open>Runs: every step is allowed and enabled.\<close>

fun runs :: "('a \<Rightarrow> 's \<Rightarrow> 's option) \<Rightarrow> ('s \<Rightarrow> 'a \<Rightarrow> bool) \<Rightarrow> 'a list \<Rightarrow> 's \<Rightarrow> 's option" where
  "runs nxt ok [] s = Some s"
| "runs nxt ok (a # as) s =
     (if ok s a then case nxt a s of None \<Rightarrow> None | Some s' \<Rightarrow> runs nxt ok as s' else None)"

lemma reach_runs: "reach start nxt ok s \<Longrightarrow> runs nxt ok as s = Some s' \<Longrightarrow> reach start nxt ok s'"
  by (induction as arbitrary: s) (auto split: if_splits option.splits intro: reach_step)

lemma reach_iff_runs: "reach start nxt ok s \<longleftrightarrow> (\<exists>as. runs nxt ok as start = Some s)"
proof
  have app: "runs nxt ok as start = Some t \<Longrightarrow> ok t a \<Longrightarrow> nxt a t = Some u \<Longrightarrow> runs nxt ok (as @ [a]) start = Some u"
    for as t a u by (induction as arbitrary: start) (auto split: if_splits option.splits)
  show "reach start nxt ok s \<Longrightarrow> \<exists>as. runs nxt ok as start = Some s"
  proof (induction rule: reach.induct)
    case reach_start
    show ?case by (intro exI [of _ "[]"]) simp
  next
    case (reach_step s a s')
    then show ?case using app by blast
  qed
  show "\<exists>as. runs nxt ok as start = Some s \<Longrightarrow> reach start nxt ok s"
    using reach_runs reach_start by metis
qed

text \<open>An invariant holds at the start and is kept by every allowed step.\<close>

locale invariant =
  fixes start :: 's
    and nxt :: "'a \<Rightarrow> 's \<Rightarrow> 's option"
    and ok :: "'s \<Rightarrow> 'a \<Rightarrow> bool"
    and inv :: "'s \<Rightarrow> bool"
  assumes inv_start: "inv start"
    and inv_step: "inv s \<Longrightarrow> ok s a \<Longrightarrow> nxt a s = Some s' \<Longrightarrow> inv s'"
begin

lemma inv_reach: "reach start nxt ok s \<Longrightarrow> inv s"
  by (induction rule: reach.induct) (auto intro: inv_start inv_step)

lemma inv_runs: "inv s \<Longrightarrow> runs nxt ok as s = Some s' \<Longrightarrow> inv s'"
  by (induction as arbitrary: s) (auto split: if_splits option.splits dest: inv_step)

end

text \<open>Sequences of abstract steps.\<close>

inductive arun :: "('a \<Rightarrow> 't \<Rightarrow> 't \<Rightarrow> bool) \<Rightarrow> 'a list \<Rightarrow> 't \<Rightarrow> 't \<Rightarrow> bool" for astep where
  arun_Nil: "arun astep [] t t"
| arun_Cons: "astep a t u \<Longrightarrow> arun astep as u v \<Longrightarrow> arun astep (a # as) t v"

text \<open>
  A functional refinement: under the invariant, every allowed concrete step is an abstract step
  with the same label between the abstractions.
\<close>

locale refinement = invariant +
  fixes abs :: "'a \<Rightarrow> 't"
    and astep :: "'b \<Rightarrow> 't \<Rightarrow> 't \<Rightarrow> bool"
  assumes abs_step: "inv s \<Longrightarrow> ok s a \<Longrightarrow> nxt a s = Some s' \<Longrightarrow> astep a (abs s) (abs s')"
begin

lemma abs_runs: "inv s \<Longrightarrow> runs nxt ok as s = Some s' \<Longrightarrow> arun astep as (abs s) (abs s')"
proof (induction as arbitrary: s)
  case Nil
  then show ?case by (simp add: arun_Nil)
next
  case (Cons a as)
  then obtain s1 where s1: "ok s a" "nxt a s = Some s1" "runs nxt ok as s1 = Some s'"
    by (auto split: if_splits option.splits)
  then have "arun astep as (abs s1) (abs s')" using Cons.IH inv_step Cons.prems(1) by blast
  then show ?case using abs_step [OF Cons.prems(1) s1(1,2)] by (rule arun_Cons [rotated])
qed

lemma abs_runs_start: "runs nxt ok as start = Some s \<Longrightarrow> arun astep as (abs start) (abs s)"
  by (rule abs_runs [OF inv_start])

end

end
