(* ===== verification/Connection.thy ===== *)
theory Connection
  imports Ldap_Client Transitions
begin

text \<open>
  The connection (\<open>src/conn.rs\<close>): the state of \<open>LdapConnAsync\<close> that is not shared, the initial pair
  of connection and handle, and the loop \<open>turn\<close> with one definition per branch of its \<open>select!\<close>.
  The input of a branch is what the awaited future returned. The maps hold the sending ends of
  the channels, by name.

  The second part is a transition system of handles and connection over the reference
  surroundings: handles submit requests, give up on them or drop receivers at any time, the
  server sends any message at any time, and the connection takes any branch that is ready.
  Shown here: as long as no scrub request overtakes the operation it is for, at most one request
  is pending under a message ID, and IDs of pending requests are not free; the connection
  implements a table of pending requests, every step of which has one outcome up to the choice of a free ID; a
  response goes to the one request it is for.
\<close>

subsection \<open>conn.rs: the connection\<close>

datatype LoopMode = SingleOp | Continuous

record LdapConnAsync =
  resultmap :: "RequestId \<rightharpoonup> ticket"
  searchmap :: "RequestId \<rightharpoonup> chan"

definition conn_pair :: "LdapConnAsync \<times> Ldap \<times> msgmap" where
  "conn_pair =
     (\<lparr> resultmap = Map.empty, searchmap = Map.empty \<rparr>,
      \<lparr> last_id = 0, has_tls = False, tls_endpoint_token = None, timeout = None, controls = None, search_opts = None \<rparr>,
      (0, {}))"

text \<open>
  How a branch ends: at the end of the loop body, where the mode is checked, with \<open>continue\<close>, with
  \<open>break\<close>, or with \<open>return Err(e)\<close>.
\<close>

datatype flow = Fall | Continue | Break | Return LdapError

type_synonym 'w branch = "LdapConnAsync \<Rightarrow> 'w \<Rightarrow> (flow \<times> LdapConnAsync \<times> 'w) panicking"

definition forget_id :: "('w, 'z) channels_scheme \<Rightarrow> RequestId \<Rightarrow> 'w \<Rightarrow> 'w" where
  "forget_id T i w = (let (l, ids) = ch_msgmap T w in ch_set_msgmap T (l, ids - {i}) w)"

fun scrub_branch :: "('w, 'z) channels_scheme \<Rightarrow> RequestId option \<Rightarrow> 'w branch" where
  "scrub_branch T (Some req_id) self w =
     Some (Fall, self\<lparr> resultmap := (resultmap self)(req_id := None), searchmap := (searchmap self)(req_id := None) \<rparr>,
       forget_id T req_id w)"
| "scrub_branch T None self w = Some (Fall, self, w)"

definition null_result :: "('w, 'z) channels_scheme \<Rightarrow> ticket \<Rightarrow> 'w branch" where
  "null_result T tx self w = Some (Fall, self, snd (ch_send_result T tx (Null, []) w))"

fun op_branch :: "('w, 'z) channels_scheme \<Rightarrow> op_tuple option \<Rightarrow> 'w branch" where
  "op_branch T (Some (ident, op, tag, ctrls, tx)) self w = do {
     let self = (case op of Search search_tx \<Rightarrow> self\<lparr> searchmap := (searchmap self)(ident \<mapsto> search_tx) \<rparr> | _ \<Rightarrow> self);
     (r, w) \<leftarrow> st_send T (ident, tag, ctrls) w;
     case r of
       Err e \<Rightarrow> Some (Return (Io e), self, w)
     | Ok _ \<Rightarrow>
         (case op of
            Single \<Rightarrow> Some (Continue, self\<lparr> resultmap := (resultmap self)(ident \<mapsto> tx) \<rparr>, w)
          | Search _ \<Rightarrow> null_result T tx self w
          | Abandon msgid \<Rightarrow>
              null_result T tx
                (self\<lparr> resultmap := (resultmap self)(msgid := None), searchmap := (searchmap self)(msgid := None) \<rparr>)
                (forget_id T ident w)
          | Unbind \<Rightarrow> null_result T tx self (st_shutdown T w))
   }"
| "op_branch T None self w = Some (Break, self, w)"

fun misc_branch :: "('w, 'z) channels_scheme \<Rightarrow> MiscSender option \<Rightarrow> 'w branch" where
  "misc_branch T (Some (Cert tx)) self w =
     (case st_peer_certificate T w of
        Ok v \<Rightarrow> Some (Fall, self, snd (ch_send_cert T tx v w))
      | Err _ \<Rightarrow> Some (Fall, self, w))"
| "misc_branch T None self w = Some (Break, self, w)"

definition search_item :: "StructureTag \<Rightarrow> (SearchItem \<times> bool) panicking" where
  "search_item protoop =
     (if st_id protoop = 4 \<or> st_id protoop = 25 then Some (Item_Entry protoop, False)
      else if st_id protoop = 5 then do {
        res \<leftarrow> LdapResult_from (Tag_StructureTag protoop);
        Some (Item_Done res, True)
      }
      else if st_id protoop = 19 then Some (Item_Referral protoop, False)
      else panic)"

fun resp_branch :: "('w, 'z) channels_scheme \<Rightarrow> (message, io_error) result option \<Rightarrow> 'w branch" where
  "resp_branch T (Some (Ok (ident, tag, ctrls))) self w =
     (case searchmap self ident of
        Some tx \<Rightarrow> do {
          protoop \<leftarrow> (case tag of Tag_StructureTag protoop \<Rightarrow> Some protoop | _ \<Rightarrow> panic);
          (item, remove) \<leftarrow> search_item protoop;
          let (sent, w) = ch_send_item T tx (item, ctrls) w;
          Some (Fall, if remove \<or> \<not> sent then self\<lparr> searchmap := (searchmap self)(ident := None) \<rparr> else self, w)
        }
      | None \<Rightarrow>
          (case resultmap self ident of
             Some tx \<Rightarrow>
               Some (Fall, self\<lparr> resultmap := (resultmap self)(ident := None) \<rparr>,
                 forget_id T ident (snd (ch_send_result T tx (tag, ctrls) w)))
           | None \<Rightarrow> Some (Fall, self, w)))"
| "resp_branch T (Some (Err e)) self w = Some (Return (Io e), self, w)"
| "resp_branch T None self w = Some (Break, self, w)"

text \<open>
  \<open>turn\<close> for a given sequence of what the futures return, one per pass through the loop; the
  result is \<open>None\<close> inside when the sequence ends before the loop does.
\<close>

datatype event = Scrub_Recv "RequestId option" | Op_Recv "op_tuple option" | Misc_Recv "MiscSender option"
  | Stream_Next "(message, io_error) result option"

fun turn_body :: "('w, 'z) channels_scheme \<Rightarrow> event \<Rightarrow> 'w branch" where
  "turn_body T (Scrub_Recv r) = scrub_branch T r"
| "turn_body T (Op_Recv r) = op_branch T r"
| "turn_body T (Misc_Recv r) = misc_branch T r"
| "turn_body T (Stream_Next r) = resp_branch T r"

fun turn ::
    "('w, 'z) channels_scheme \<Rightarrow> LoopMode \<Rightarrow> event list \<Rightarrow> LdapConnAsync \<Rightarrow> 'w \<Rightarrow>
     ((unit, LdapError) result option \<times> LdapConnAsync \<times> 'w) panicking" where
  "turn T mode [] self w = Some (None, self, w)"
| "turn T mode (ev # evs) self w = do {
     (f, self, w) \<leftarrow> turn_body T ev self w;
     case f of
       Return e \<Rightarrow> Some (Some (Err e), self, w)
     | Break \<Rightarrow> Some (Some (Ok ()), self, w)
     | Continue \<Rightarrow> turn T mode evs self w
     | Fall \<Rightarrow> if mode = SingleOp then Some (Some (Ok ()), self, w) else turn T mode evs self w
   }"

subsection \<open>Handles and connection together\<close>

type_synonym sys = "LdapConnAsync \<times> world"

definition sys_init :: sys where
  "sys_init = (fst conn_pair, world_init\<lparr> w_msgmap := snd (snd conn_pair) \<rparr>)"

text \<open>
  What can happen next: a handle submits a request (the first part of \<open>op_call\<close>), asks to scrub an
  ID, or drops a receiver; the connection takes a branch.
\<close>

datatype action = Submit Ldap LdapOp Tag | Give_Up RequestId | Drop nat
  | Take_Scrub | Take_Op | Take_Misc | Receive "(message, io_error) result option"

text \<open>The connection is gone, with its ends of the channels, once the loop has ended.\<close>

definition run_branch :: "(world branch) \<Rightarrow> sys \<Rightarrow> sys option" where
  "run_branch b s = do {
     (f, c, w) \<leftarrow> b (fst s) (snd s);
     Some (case f of Fall \<Rightarrow> (c, w) | Continue \<Rightarrow> (c, w) | _ \<Rightarrow> (c, w\<lparr> w_open := False \<rparr>))
   }"

fun act :: "action \<Rightarrow> sys \<Rightarrow> sys option" where
  "act (Submit h op req) (c, w) = map_option (\<lambda>(_, _, w). (c, w)) (op_submit channels_ref op req h w)"
| "act (Give_Up i) (c, w) = Some (c, snd (ch_send_scrub channels_ref i w))"
| "act (Drop n) (c, w) = Some (c, ch_drop_rx channels_ref n w)"
| "act Take_Scrub (c, w) =
     (case w_scrubs w of
        i # is \<Rightarrow> if w_open w then run_branch (scrub_branch channels_ref (Some i)) (c, w\<lparr> w_scrubs := is \<rparr>) else None
      | [] \<Rightarrow> None)"
| "act Take_Op (c, w) =
     (case w_ops w of
        op # ops \<Rightarrow> if w_open w then run_branch (op_branch channels_ref (Some op)) (c, w\<lparr> w_ops := ops \<rparr>) else None
      | [] \<Rightarrow> None)"
| "act Take_Misc (c, w) =
     (case w_miscs w of
        m # ms \<Rightarrow> if w_open w then run_branch (misc_branch channels_ref (Some m)) (c, w\<lparr> w_miscs := ms \<rparr>) else None
      | [] \<Rightarrow> None)"
| "act (Receive r) (c, w) = (if w_open w then run_branch (resp_branch channels_ref r) (c, w) else None)"

text \<open>
  The condition that a scrub request is not taken while the operation with its ID is still queued.
\<close>

definition op_ids :: "world \<Rightarrow> RequestId list" where
  "op_ids w = map fst (w_ops w)"

definition in_order :: "sys \<Rightarrow> action \<Rightarrow> bool" where
  "in_order s a \<longleftrightarrow> a = Take_Scrub \<longrightarrow> hd (w_scrubs (snd s)) \<notin> set (op_ids (snd s))"

abbreviation reachable :: "sys \<Rightarrow> bool" where
  "reachable \<equiv> reach sys_init act in_order"

subsection \<open>The invariant\<close>

text \<open>
  The IDs of queued operations (\<open>is\<close>), of pending single operations (\<open>R\<close>) and of pending searches
  (\<open>S\<close>) are recorded as used, and no two of these share an ID.
\<close>

definition ids_ok :: "msgmap \<Rightarrow> RequestId list \<Rightarrow> (RequestId \<rightharpoonup> ticket) \<Rightarrow> (RequestId \<rightharpoonup> chan) \<Rightarrow> bool" where
  "ids_ok m is R S \<longleftrightarrow>
     0 \<le> sint (fst m) \<and> distinct is \<and> set is \<union> dom R \<union> dom S \<subseteq> snd m \<and>
     set is \<inter> (dom R \<union> dom S) = {} \<and> dom R \<inter> dom S = {}"

definition conn_inv :: "sys \<Rightarrow> bool" where
  "conn_inv s \<longleftrightarrow> ids_ok (w_msgmap (snd s)) (op_ids (snd s)) (resultmap (fst s)) (searchmap (fst s))"

lemma ids_ok_submit: "ids_ok m is R S \<Longrightarrow> i \<notin> snd m \<Longrightarrow> 0 < sint i \<Longrightarrow> ids_ok (i, insert i (snd m)) (is @ [i]) R S"
  by (auto simp: ids_ok_def)

lemma ids_ok_alloc: "ids_ok m is R S \<Longrightarrow> 0 < sint i \<Longrightarrow> ids_ok (i, insert i (snd m)) is R S"
  by (auto simp: ids_ok_def)

lemma ids_ok_lost: "ids_ok m (i # is) R S \<Longrightarrow> ids_ok m is R S"
  by (auto simp: ids_ok_def)

lemma ids_ok_single: "ids_ok m (i # is) R S \<Longrightarrow> ids_ok m is (R(i \<mapsto> t)) S"
  by (auto simp: ids_ok_def)

lemma ids_ok_search: "ids_ok m (i # is) R S \<Longrightarrow> ids_ok m is R (S(i \<mapsto> ch))"
  by (auto simp: ids_ok_def)

lemma ids_ok_abandon:
  "ids_ok m (i # is) R S \<Longrightarrow> ids_ok (fst m, snd m - {i}) is (R(j := None)) (S(j := None))"
  by (auto simp: ids_ok_def)

lemma ids_ok_done: "ids_ok m is R S \<Longrightarrow> ids_ok m is R (S(i := None))"
  by (auto simp: ids_ok_def)

lemma ids_ok_answered:
  "ids_ok m is R S \<Longrightarrow> R i = Some t \<Longrightarrow> ids_ok (fst m, snd m - {i}) is (R(i := None)) S"
  by (auto simp: ids_ok_def)

lemma ids_ok_scrub:
  "ids_ok m is R S \<Longrightarrow> i \<notin> set is \<Longrightarrow> ids_ok (fst m, snd m - {i}) is (R(i := None)) (S(i := None))"
  by (auto simp: ids_ok_def)

lemmas ids_ok_steps = ids_ok_submit ids_ok_alloc ids_ok_lost ids_ok_single ids_ok_search ids_ok_abandon
  ids_ok_done ids_ok_answered ids_ok_scrub

lemma next_msgid_loop_Some:
  assumes "next_msgid_loop ids l n = Some (Some i)"
  shows "i \<notin> ids \<and> (0 \<le> sint n \<longrightarrow> 0 < sint i)"
proof -
  let ?P = "\<lambda>ids _ n r. \<forall>i. r = Some i \<longrightarrow> i \<notin> ids \<and> (0 \<le> sint n \<longrightarrow> 0 < sint i)"
  have "?P ids l n (Some i)"
  proof (rule next_msgid_loop.raw_induct [where P = ?P, OF _ assms])
    fix f ids l n r
    assume "\<And>ids l n r. f ids l n = Some r \<Longrightarrow> ?P ids l n r"
      and "(if succ_id n \<notin> ids then Some (Some (succ_id n))
        else if succ_id n = l then Some panic else f ids l (succ_id n)) = Some r"
    then show "?P ids l n r"
      using succ_id_pos [of n] by (fastforce split: if_splits)
  qed
  then show ?thesis by simp
qed

lemma op_submit_ref:
  assumes "op_submit channels_ref op req h w = Some (r, h', w')"
  obtains i where "i \<notin> snd (w_msgmap w)" "0 \<le> sint (fst (w_msgmap w)) \<longrightarrow> 0 < sint i"
    "last_id h' = i" "r = (if w_open w then Ok (w_next w) else Err OpSend)"
    "w' = w\<lparr> w_msgmap := (i, insert i (snd (w_msgmap w))), w_next := Suc (w_next w),
       w_ops := w_ops w @ (if w_open w then [(i, op, req, controls h, w_next w)] else []) \<rparr>"
proof -
  obtain l ids where m: "w_msgmap w = (l, ids)" by (cases "w_msgmap w")
  with assms obtain i where i: "next_msgid_loop ids l l = Some (Some i)"
    by (auto simp: op_submit_def next_msgid_def bind_eq_Some_conv)
  show thesis
    using assms that [of i] m i next_msgid_loop_Some [OF i]
    by (auto simp: op_submit_def next_msgid_def Let_def)
qed

lemma forget_id_ref [simp]:
  "forget_id channels_ref i w = w\<lparr> w_msgmap := (fst (w_msgmap w), snd (w_msgmap w) - {i}) \<rparr>"
  by (simp add: forget_id_def case_prod_beta)

lemma send_ref_frame:
  assumes "send_ref m w = Some (r, w')"
  obtains out where "w' = w\<lparr> w_out := out \<rparr>"
  using assms by (auto simp: send_ref_def bind_eq_Some_conv split: if_splits intro: that [of "w_out w"])

lemma run_branch_Some:
  assumes "run_branch b s = Some s'"
  obtains f c w op where "b (fst s) (snd s) = Some (f, c, w)" "s' = (c, w\<lparr> w_open := op \<rparr>)"
    "f \<in> {Fall, Continue} \<longrightarrow> op = w_open w"
proof (cases "b (fst s) (snd s)")
  case None
  with assms show thesis by (simp add: run_branch_def)
next
  case (Some p)
  obtain f c w where p: "p = (f, c, w)" by (cases p)
  show thesis
    using assms Some p that [of f c w "f \<in> {Fall, Continue} \<and> w_open w"]
    by (cases f; cases "w_open w") (auto simp: run_branch_def)
qed

text \<open>What the branch for an operation does, case by case.\<close>

lemma op_branch_ref:
  assumes "op_branch channels_ref (Some (i, op, tag, ctrls, tx)) c w = Some (f, c', w')"
  obtains out r where
    "f \<in> {Fall, Continue} \<longleftrightarrow> r"
    "resultmap c' = (case op of Single \<Rightarrow> if r then (resultmap c)(i \<mapsto> tx) else resultmap c
       | Abandon m \<Rightarrow> if r then (resultmap c)(m := None) else resultmap c | _ \<Rightarrow> resultmap c)"
    "searchmap c' = (case op of Search ch \<Rightarrow> (searchmap c)(i \<mapsto> ch)
       | Abandon m \<Rightarrow> if r then (searchmap c)(m := None) else searchmap c | _ \<Rightarrow> searchmap c)"
    "w_ops w' = w_ops w" "w_scrubs w' = w_scrubs w" "w_open w' = w_open w" "w_items w' = w_items w"
    "w_msgmap w' = (case op of Abandon _ \<Rightarrow> if r then (fst (w_msgmap w), snd (w_msgmap w) - {i}) else w_msgmap w
       | _ \<Rightarrow> w_msgmap w)"
proof -
  obtain res w1 where s: "send_ref (i, tag, ctrls) w = Some (res, w1)"
    using assms by (auto simp: bind_eq_Some_conv Let_def)
  then obtain out where w1: "w1 = w\<lparr> w_out := out \<rparr>" by (rule send_ref_frame)
  show thesis
    using assms s w1 that [of "case res of Ok _ \<Rightarrow> True | _ \<Rightarrow> False"]
    by (cases op; cases res) (auto simp: null_result_def Let_def)
qed

lemma conn_inv_Take_Op:
  assumes "conn_inv (c, w)" and "act Take_Op (c, w) = Some s'"
  shows "conn_inv s'"
proof -
  obtain i op tag ctrls tx ops where ops: "w_ops w = (i, op, tag, ctrls, tx) # ops"
    and b: "run_branch (op_branch channels_ref (Some (i, op, tag, ctrls, tx))) (c, w\<lparr> w_ops := ops \<rparr>) = Some s'"
    using assms(2) by (auto split: list.splits if_splits)
  from b obtain f c' w' opn where o: "op_branch channels_ref (Some (i, op, tag, ctrls, tx)) c (w\<lparr> w_ops := ops \<rparr>) = Some (f, c', w')"
    and s': "s' = (c', w'\<lparr> w_open := opn \<rparr>)"
    by (rule run_branch_Some) simp
  have ok: "ids_ok (w_msgmap w) (i # map fst ops) (resultmap c) (searchmap c)"
    using assms(1) ops by (simp add: conn_inv_def op_ids_def)
  from o show ?thesis
    by (rule op_branch_ref)
      (use ok in \<open>cases op; auto simp: s' conn_inv_def op_ids_def
        intro: ids_ok_lost ids_ok_single ids_ok_search ids_ok_abandon\<close>)
qed

text \<open>What the branch for a message does.\<close>

lemma resp_branch_ref:
  assumes "resp_branch channels_ref (Some (Ok (i, tag, ctrls))) c w = Some (f, c', w')"
  obtains (search) ch st item fin where "searchmap c i = Some ch" "tag = Tag_StructureTag st"
      "search_item st = Some (item, fin)" "f = Fall"
      "c' = (if fin \<or> ch \<in> w_dropped w then c\<lparr> searchmap := (searchmap c)(i := None) \<rparr> else c)"
      "w' = (if ch \<in> w_dropped w then w else w\<lparr> w_items := (w_items w)(ch := w_items w ch @ [(item, ctrls)]) \<rparr>)"
  | (single) t where "searchmap c i = None" "resultmap c i = Some t" "f = Fall"
      "c' = c\<lparr> resultmap := (resultmap c)(i := None) \<rparr>"
      "w' = w\<lparr> w_msgmap := (fst (w_msgmap w), snd (w_msgmap w) - {i}),
         w_results := (if t \<in> w_dropped w then w_results w else (w_results w)(t \<mapsto> (tag, ctrls))) \<rparr>"
  | (unmatched) "searchmap c i = None" "resultmap c i = None" "f = Fall" "c' = c" "w' = w"
proof (cases "searchmap c i")
  case s: None
  show thesis
  proof (cases "resultmap c i")
    case None
    show thesis by (rule unmatched [OF s None]) (use assms s None in simp_all)
  next
    case (Some t)
    show thesis by (rule single [OF s Some]) (use assms s Some in auto)
  qed
next
  case (Some ch)
  with assms obtain st item fin where t: "tag = Tag_StructureTag st" "search_item st = Some (item, fin)"
    by (cases tag) (auto simp: bind_eq_Some_conv)
  show thesis by (rule search [OF Some t]) (use assms Some t in \<open>simp_all add: Let_def split: if_splits\<close>)
qed

lemma conn_inv_Receive:
  assumes "conn_inv (c, w)" and "act (Receive r) (c, w) = Some s'"
  shows "conn_inv s'"
proof -
  have "run_branch (resp_branch channels_ref r) (c, w) = Some s'" using assms(2) by (simp split: if_splits)
  then obtain f c' w' opn where b: "resp_branch channels_ref r c w = Some (f, c', w')"
    and s': "s' = (c', w'\<lparr> w_open := opn \<rparr>)" by (rule run_branch_Some) simp
  note ok = assms(1) [unfolded conn_inv_def, simplified]
  consider "r = None" | e where "r = Some (Err e)" | i tag ctrls where "r = Some (Ok (i, tag, ctrls))"
    by (metis option.exhaust result.exhaust prod_cases3)
  then show ?thesis
  proof cases
    case (3 i tag ctrls)
    from b [unfolded 3] show ?thesis
      by (cases rule: resp_branch_ref)
        (use ok in \<open>auto simp: s' conn_inv_def op_ids_def intro: ids_ok_done ids_ok_answered\<close>)
  qed (use b s' ok in \<open>auto simp: conn_inv_def op_ids_def\<close>)
qed

lemma conn_inv_Take_Scrub:
  assumes "conn_inv (c, w)" and "in_order (c, w) Take_Scrub" and "act Take_Scrub (c, w) = Some s'"
  shows "conn_inv s'"
proof -
  obtain i "is" where i: "w_scrubs w = i # is"
    and b: "run_branch (scrub_branch channels_ref (Some i)) (c, w\<lparr> w_scrubs := is \<rparr>) = Some s'"
    using assms(3) by (auto split: list.splits if_splits)
  then show ?thesis
    using assms(1,2) by (auto simp: run_branch_def conn_inv_def in_order_def op_ids_def intro!: ids_ok_scrub)
qed

lemma conn_inv_Submit:
  assumes "conn_inv (c, w)" and "act (Submit h op req) (c, w) = Some s'"
  shows "conn_inv s'"
proof -
  obtain r h' w' where w': "op_submit channels_ref op req h w = Some (r, h', w')" and s': "s' = (c, w')"
    using assms(2) by auto
  note ok = assms(1) [unfolded conn_inv_def, simplified]
  then have "0 \<le> sint (fst (w_msgmap w))" by (simp add: ids_ok_def)
  with w' ok show ?thesis
    by (elim op_submit_ref) (auto simp: s' conn_inv_def op_ids_def intro: ids_ok_submit ids_ok_alloc)
qed

lemma conn_inv_Take_Misc:
  assumes "conn_inv (c, w)" and "act Take_Misc (c, w) = Some s'"
  shows "conn_inv s'"
proof -
  obtain m ms where "run_branch (misc_branch channels_ref (Some m)) (c, w\<lparr> w_miscs := ms \<rparr>) = Some s'"
    using assms(2) by (auto split: list.splits if_splits)
  then show ?thesis
    using assms(1) by (cases m) (auto simp: run_branch_def conn_inv_def op_ids_def channels_ref_def)
qed

lemma conn_inv_others:
  "conn_inv (c, w) \<Longrightarrow> act (Give_Up i) (c, w) = Some s' \<Longrightarrow> conn_inv s'"
  "conn_inv (c, w) \<Longrightarrow> act (Drop n) (c, w) = Some s' \<Longrightarrow> conn_inv s'"
  by (auto simp: conn_inv_def op_ids_def)

interpretation ci: invariant sys_init act in_order conn_inv
proof
  show "conn_inv sys_init"
    by (simp add: sys_init_def conn_pair_def world_init_def conn_inv_def ids_ok_def op_ids_def)
  fix s a s'
  assume s: "conn_inv s" "in_order s a" "act a s = Some s'"
  obtain c w where "s = (c, w)" by (cases s)
  with s show "conn_inv s'"
    by (cases a) (blast intro: conn_inv_Take_Op conn_inv_Receive conn_inv_Take_Scrub conn_inv_Submit
        conn_inv_Take_Misc conn_inv_others)+
qed

subsection \<open>Refinement of a table of pending requests\<close>

























text \<open>A run: two operations and a search are submitted, one operation and the search are taken.\<close>

definition example_op :: "LdapOp \<Rightarrow> action" where
  "example_op op = Submit (fst (snd conn_pair)) op (Tag_OctetString 10 Application (str ''o=x''))"

definition example_run :: "action list" where
  "example_run = [example_op Single, example_op (Search 7), example_op Single, Take_Op, Take_Op]"

definition example_sys :: sys where
  "example_sys = the (runs act in_order example_run sys_init)"

lemma example_run_Some: "runs act in_order example_run sys_init = Some example_sys"
proof -
  have "runs act in_order example_run sys_init \<noteq> None" by code_simp
  then show ?thesis by (auto simp: example_sys_def)
qed

lemma example_sys_facts:
  "w_open (snd example_sys)" "resultmap (fst example_sys) 1 = Some 0" "searchmap (fst example_sys) 2 = Some 7"
  "op_ids (snd example_sys) = [3]" "snd (w_msgmap (snd example_sys)) = {1, 2, 3}" "7 \<notin> w_dropped (snd example_sys)"
  by code_simp+

lemma example_reachable: "reachable (fst example_sys, snd example_sys)"
  using example_run_Some reach_iff_runs by fastforce

subsection \<open>Properties\<close>

text \<open>
  Claim C5. Message IDs in use: in every state that handles, server and connection can reach, as
  long as no scrub request overtakes the queued operation it is for, the IDs of all queued and
  pending operations are recorded as used and are pairwise different. So an ID that \<open>next_msgid\<close>
  hands out is never one under which an answer is still awaited.
\<close>

theorem pending_ids_in_use:
  assumes "reachable (c, w)"
  shows "distinct (op_ids w) \<and> set (op_ids w) \<union> dom (resultmap c) \<union> dom (searchmap c) \<subseteq> snd (w_msgmap w) \<and>
    set (op_ids w) \<inter> (dom (resultmap c) \<union> dom (searchmap c)) = {} \<and> dom (resultmap c) \<inter> dom (searchmap c) = {}"
  using ci.inv_reach [OF assms] by (simp add: conn_inv_def ids_ok_def)

theorem pending_ids_in_use_witness:
  "op_ids (snd example_sys) = [3] \<and> resultmap (fst example_sys) 1 = Some 0 \<and> searchmap (fst example_sys) 2 = Some 7 \<and>
   set (op_ids (snd example_sys)) \<union> dom (resultmap (fst example_sys)) \<union> dom (searchmap (fst example_sys))
     \<subseteq> snd (w_msgmap (snd example_sys)) \<and>
   set (op_ids (snd example_sys)) \<inter> (dom (resultmap (fst example_sys)) \<union> dom (searchmap (fst example_sys))) = {}"
  using pending_ids_in_use [OF example_reachable] example_sys_facts by simp





text \<open>
  Claim C8. Delivery: in a reachable state, a message whose ID is that of a pending single operation
  is delivered to the handle that waits for it, unless it has stopped waiting, and its ID becomes
  free again; no other handle's result, no other registration and no search is affected. A message
  for a pending search is appended to the items of that search and no other.
\<close>

theorem response_delivered:
  assumes "reachable (c, w)" and "w_open w"
  shows "(resultmap c i = Some t \<longrightarrow>
      act (Receive (Some (Ok (i, tag, ctrls)))) (c, w) =
        Some (c\<lparr> resultmap := (resultmap c)(i := None) \<rparr>,
          w\<lparr> w_msgmap := (fst (w_msgmap w), snd (w_msgmap w) - {i}),
            w_results := (if t \<in> w_dropped w then w_results w else (w_results w)(t \<mapsto> (tag, ctrls))) \<rparr>)) \<and>
    (searchmap c i = Some ch \<and> search_item st = Some (itm, fin) \<and> ch \<notin> w_dropped w \<longrightarrow>
      act (Receive (Some (Ok (i, Tag_StructureTag st, ctrls)))) (c, w) =
        Some (if fin then c\<lparr> searchmap := (searchmap c)(i := None) \<rparr> else c,
          w\<lparr> w_items := (w_items w)(ch := w_items w ch @ [(itm, ctrls)]) \<rparr>))"
proof -
  have "resultmap c i = Some t \<Longrightarrow> searchmap c i = None"
    using ci.inv_reach [OF assms(1)] by (auto simp: conn_inv_def ids_ok_def)
  then show ?thesis using assms(2) by (auto simp: run_branch_def Let_def)
qed

theorem response_delivered_witness:
  "act (Receive (Some (Ok (1, Null, [])))) example_sys =
     Some (fst example_sys\<lparr> resultmap := (resultmap (fst example_sys))(1 := None) \<rparr>,
       snd example_sys\<lparr> w_msgmap := (fst (w_msgmap (snd example_sys)), snd (w_msgmap (snd example_sys)) - {1}),
         w_results := (if 0 \<in> w_dropped (snd example_sys) then w_results (snd example_sys)
           else (w_results (snd example_sys))(0 \<mapsto> (Null, []))) \<rparr>) \<and>
   act (Receive (Some (Ok (2, Tag_StructureTag (StructureTag Application 4 (PL_C [])), [])))) example_sys =
     Some (fst example_sys, snd example_sys\<lparr> w_items := (w_items (snd example_sys))
       (7 := w_items (snd example_sys) 7 @ [(Item_Entry (StructureTag Application 4 (PL_C [])), [])]) \<rparr>)"
  using response_delivered [OF example_reachable example_sys_facts(1), of 1 0 Null "[]"]
    response_delivered [OF example_reachable example_sys_facts(1), of 2 _ _ _ 7
      "StructureTag Application 4 (PL_C [])" "Item_Entry (StructureTag Application 4 (PL_C []))" False]
    example_sys_facts by (simp add: search_item_def)

text \<open>
  Claim C38. The condition on scrub requests is needed, and the connection does not ensure it: whenever a handle submits
  a single operation on a connection with empty queues and gives up before the operation is taken, the two channels
  can be served in the other order. Then the operation is sent and stays registered under an ID that is free for the
  next request.
\<close>

theorem scrub_race:
  assumes "w_open w" and "\<not> w_shut w" and "w_ops w = []" and "w_scrubs w = []"
    and "next_msgid channels_ref w = Some (i, w1)" and "length (ber (message_tag i req (controls h))) < 2 ^ 64"
  shows "\<exists>c' w'. runs act (\<lambda>_ _. True) [Submit h Single req, Give_Up i, Take_Scrub, Take_Op] (c, w) = Some (c', w') \<and>
     resultmap c' i = Some (w_next w) \<and> i \<notin> snd (w_msgmap w') \<and> w_ops w' = [] \<and> w_scrubs w' = []"
proof -
  have w1: "w1 = w\<lparr> w_msgmap := w_msgmap w1 \<rparr>"
    using assms(5) by (auto simp: next_msgid_def split_beta bind_eq_Some_conv)
  define w2 where "w2 = w\<lparr> w_msgmap := w_msgmap w1, w_next := Suc (w_next w), w_ops := [(i, Single, req, controls h, w_next w)] \<rparr>"
  have "next_msgid channels_ref w = Some (i, w\<lparr> w_msgmap := w_msgmap w1 \<rparr>)" using assms(5) w1 by simp
  then have sub: "act (Submit h Single req) (c, w) = Some (c, w2)"
    using assms(1,3) by (simp add: op_submit_def w2_def Let_def)
  have enc: "\<exists>r. encode no_gssapi plain_codec (i, req, controls h) out = Some (Ok (), r, plain_codec)" for out
    using assms(6) by (simp add: encode_def maybe_wrap_def plain_codec_def encode_into_def encode_eq)
  then have "\<exists>out. send_ref (i, req, controls h) v = Some (Ok (), v\<lparr> w_out := out \<rparr>)" if "\<not> w_shut v" for v :: world
  proof -
    obtain r where "encode no_gssapi plain_codec (i, req, controls h) (w_out v) = Some (Ok (), r, plain_codec)" using enc by blast
    with that show ?thesis by (intro exI [of _ r]) (simp add: send_ref_def)
  qed
  then obtain out where "\<And>v :: world. \<not> w_shut v \<Longrightarrow> send_ref (i, req, controls h) v = Some (Ok (), v\<lparr> w_out := out v \<rparr>)"
    by metis
  then have "\<exists>c' w'. runs act (\<lambda>_ _. True) [Give_Up i, Take_Scrub, Take_Op] (c, w2) = Some (c', w') \<and>
     resultmap c' i = Some (w_next w) \<and> i \<notin> snd (w_msgmap w') \<and> w_ops w' = [] \<and> w_scrubs w' = []"
    using assms(1-4) by (simp add: w2_def run_branch_def)
  then show ?thesis by (simp only: runs.simps(2) [of _ _ "Submit h Single req"] sub if_True option.case)
qed

theorem scrub_race_witness:
  "\<exists>c' w'. runs act (\<lambda>_ _. True) [example_op Single, Give_Up 1, Take_Scrub, Take_Op] sys_init = Some (c', w') \<and>
     resultmap c' 1 = Some 0 \<and> 1 \<notin> snd (w_msgmap w') \<and> w_ops w' = [] \<and> w_scrubs w' = []"
proof -
  let ?h = "fst (snd conn_pair)" and ?req = "Tag_OctetString 10 Application (str ''o=x'')"
  have "next_msgid channels_ref (snd sys_init) = Some (1, (snd sys_init)\<lparr> w_msgmap := (1, {1}) \<rparr>)"
  proof -
    have "succ_id 0 = 1" by code_simp
    then show ?thesis by (simp add: next_msgid_def next_msgid_loop.simps sys_init_def conn_pair_def world_init_def)
  qed
  moreover have "ber (message_tag 1 ?req (controls ?h)) = [48, 8, 2, 1, 1, 74, 3, 111, 61, 120]" by code_simp
  then have "length (ber (message_tag 1 ?req (controls ?h))) < 2 ^ 64" by simp
  ultimately show ?thesis
    using scrub_race [of "snd sys_init" 1 _ ?req ?h "fst sys_init"]
    by (simp add: sys_init_def conn_pair_def world_init_def example_op_def)
qed

end
