(* ===== verification/Search_Stream.thy ===== *)
theory Search_Stream
  imports Connection
begin

text \<open>
  Searches (second part of \<open>src/search.rs\<close>, \<open>src/adapters.rs\<close> and the search methods of
  \<open>src/ldap.rs\<close>): the stream and its states, the direct operations, the chain of adapters with the
  two adapters of the library, and the searches built on them. An adapter is called with the
  stream; it calls the stream's own operation for the rest of the chain, which \<open>ax\<close> marks. The
  chain operations have the number of adapters that remain as their first argument, so that the
  recursion is structural; the loops of the adapters, which end only if the server lets them, are
  partial functions.

  A stream operation returns \<open>None\<close> for a panic or when it never returns.
\<close>

subsection \<open>search.rs: the stream\<close>

datatype StreamState = Fresh | Active | Done | Closed | Error_State

record PagedResults_adapter =
  pa_page_size :: i32
  pa_ldap :: "Ldap option"
  pa_base :: bytes
  pa_scope :: Scope
  pa_filter :: bytes
  pa_attrs :: "bytes list option"

datatype Adapter = EntriesOnly "bytes list" | Paged PagedResults_adapter

definition EntriesOnly_new :: Adapter where
  "EntriesOnly_new = EntriesOnly []"

text \<open>\<open>IntoAdapterVec\<close>: a chain of adapters, or a single one with \<open>SoloMarker\<close>.\<close>

datatype adapter_arg = Adapter_Vec "Adapter list" | Solo Adapter

fun into_adapters :: "adapter_arg \<Rightarrow> Adapter list" where
  "into_adapters (Adapter_Vec as) = as"
| "into_adapters (Solo a) = [a]"

definition PagedResults_new :: "i32 \<Rightarrow> Adapter" where
  "PagedResults_new page_size = Paged \<lparr> pa_page_size = page_size, pa_ldap = None, pa_base = [],
     pa_scope = Base, pa_filter = [], pa_attrs = None \<rparr>"

record SearchStream =
  ss_ldap :: Ldap
  ss_rx :: "chan option"
  ss_state :: StreamState
  ss_adapters :: "Adapter list"
  ss_ax :: nat
  ss_timeout :: "duration option"
  ss_res :: "LdapResult option"

definition SearchStream_new :: "Ldap \<Rightarrow> Adapter list \<Rightarrow> SearchStream" where
  "SearchStream_new ldap adapters = \<lparr> ss_ldap = ldap, ss_rx = None, ss_state = Fresh, ss_adapters = adapters,
     ss_ax = 0, ss_timeout = None, ss_res = None \<rparr>"

definition SearchStream_state :: "SearchStream \<Rightarrow> StreamState" where
  "SearchStream_state self = ss_state self"

definition ldap_handle :: "SearchStream \<Rightarrow> Ldap" where
  "ldap_handle self = ss_ldap self"

text \<open>Setting \<open>rx\<close> to \<open>None\<close>, or dropping the stream, drops the receiver.\<close>

definition drop_rx :: "('w, 'z) channels_scheme \<Rightarrow> SearchStream \<Rightarrow> 'w \<Rightarrow> 'w" where
  "drop_rx T self w = (case ss_rx self of None \<Rightarrow> w | Some rx \<Rightarrow> ch_drop_rx T rx w)"

definition search_req :: "SearchOptions \<Rightarrow> bytes \<Rightarrow> Scope \<Rightarrow> Tag \<Rightarrow> bytes list \<Rightarrow> Tag" where
  "search_req opts base scope filt attrs =
     Tag_Sequence 3 Application
       [OctetString base, Enumerated (Scope_i64 scope), Enumerated (DerefAliases_i64 (so_deref opts)),
        Integer (scast (so_sizelimit opts)), Integer (scast (so_timelimit opts)), Boolean (so_typesonly opts),
        filt, Sequence (map OctetString attrs)]"

definition start_inner ::
    "'w tokio \<Rightarrow> nom_complete \<Rightarrow> bytes \<Rightarrow> Scope \<Rightarrow> bytes \<Rightarrow> bytes list \<Rightarrow> (unit, SearchStream, 'w) async" where
  "start_inner T N base scope filt attrs self w = do {
     let opts = (case search_opts (ss_ldap self) of Some opts \<Rightarrow> opts | None \<Rightarrow> SearchOptions_new);
     let self = self\<lparr> ss_ldap := (ss_ldap self)\<lparr> search_opts := None \<rparr>, ss_timeout := timeout (ss_ldap self) \<rparr>;
     filt \<leftarrow> parse N filt;
     case filt of
       Err _ \<Rightarrow> Some (Err FilterParsing, self, w)
     | Ok filt \<Rightarrow> do {
         let (ch, w) = ch_unbounded T w;
         let self = self\<lparr> ss_rx := Some ch \<rparr>;
         let ldap = (case ss_timeout self of Some t \<Rightarrow> with_timeout t (ss_ldap self) | None \<Rightarrow> ss_ldap self);
         (r, ldap, w) \<leftarrow> op_call T (Search ch) (search_req opts base scope filt attrs) ldap w;
         let self = self\<lparr> ss_ldap := ldap \<rparr>;
         case r of
           Err e \<Rightarrow> Some (Err e, self, w)
         | Ok _ \<Rightarrow> Some (Ok (), self\<lparr> ss_state := Active \<rparr>, w)
       }
   }"

text \<open>The awaited item of \<open>next_inner\<close>, then what is made of it.\<close>

definition next_item :: "'w tokio \<Rightarrow> ((SearchItem \<times> Control list) option, SearchStream, 'w) async" where
  "next_item T self w =
     (case ss_timeout self of
        Some t \<Rightarrow> do {
          rx \<leftarrow> expect (ss_rx self);
          (res, w) \<leftarrow> timeout_item T t rx w;
          case res of
            None \<Rightarrow> let (sent, w) = ch_send_scrub T (last_id (ss_ldap self)) w in
              Some (Err (if sent then Timeout else IdScrubSend), self, w)
          | Some itm \<Rightarrow> Some (Ok itm, self, w)
        }
      | None \<Rightarrow> do {
          rx \<leftarrow> expect (ss_rx self);
          (itm, w) \<leftarrow> await_item T rx w;
          Some (Ok itm, self, w)
        })"

definition take_item ::
    "'w tokio \<Rightarrow> (SearchItem \<times> Control list) option \<Rightarrow> (ResultEntry option, SearchStream, 'w) async" where
  "take_item T itm self w =
     (case itm of
        None \<Rightarrow> Some (Err EndOfStream, self\<lparr> ss_rx := None \<rparr>, drop_rx T self w)
      | Some (Item_Entry tag, ctrls) \<Rightarrow> Some (Ok (Some (ResultEntry tag ctrls)), self, w)
      | Some (Item_Referral tag, ctrls) \<Rightarrow> Some (Ok (Some (ResultEntry tag ctrls)), self, w)
      | Some (Item_Done res, ctrls) \<Rightarrow>
          Some (Ok None, self\<lparr> ss_res := Some (res\<lparr> lr_ctrls := ctrls \<rparr>), ss_rx := None \<rparr>, drop_rx T self w))"

definition next_inner :: "'w tokio \<Rightarrow> (ResultEntry option, SearchStream, 'w) async" where
  "next_inner T = await_ok (next_item T) (take_item T)"

definition synthetic_result :: "u32 \<Rightarrow> bytes \<Rightarrow> LdapResult" where
  "synthetic_result code msg = \<lparr> lr_rc = code, lr_matched = [], lr_text = msg, lr_refs = [], lr_ctrls = [] \<rparr>"

definition finish_inner :: "('w, 'z) channels_scheme \<Rightarrow> SearchStream \<Rightarrow> 'w \<Rightarrow> LdapResult \<times> SearchStream \<times> 'w" where
  "finish_inner T self w =
     (let w = (if ss_state self \<noteq> Done then snd (ch_send_scrub T (last_id (ss_ldap self)) w) else w);
          w = drop_rx T self w;
          res = (case ss_res self of Some res \<Rightarrow> res | None \<Rightarrow> synthetic_result 88 (str ''user cancelled''))
      in (res, self\<lparr> ss_state := Closed, ss_rx := None, ss_res := None \<rparr>, w))"

definition adapter_chain_tail :: "SearchStream \<Rightarrow> Adapter list" where
  "adapter_chain_tail self = drop (ss_ax self) (ss_adapters self)"

subsection \<open>Starting a stream\<close>

text \<open>
  A call of an adapter: the adapter at \<open>ax\<close>, which is advanced during the call, and the adapter's
  new state stored at the end.
\<close>

definition call_adapter ::
    "(Adapter \<Rightarrow> SearchStream \<Rightarrow> 'w \<Rightarrow> ('r \<times> Adapter \<times> SearchStream \<times> 'w) panicking) \<Rightarrow>
     SearchStream \<Rightarrow> 'w \<Rightarrow> ('r \<times> SearchStream \<times> 'w) panicking" where
  "call_adapter f self w = do {
     adapter \<leftarrow> vec_index (ss_adapters self) (ss_ax self);
     (r, adapter, self, w) \<leftarrow> f adapter (self\<lparr> ss_ax := Suc (ss_ax self) \<rparr>) w;
     let ax = ss_ax self - 1;
     Some (r, self\<lparr> ss_ax := ax, ss_adapters := (ss_adapters self)[ax := adapter] \<rparr>, w)
   }"

type_synonym 'w start_fn = "bytes \<Rightarrow> Scope \<Rightarrow> bytes \<Rightarrow> bytes list \<Rightarrow> (unit, SearchStream, 'w) async"

definition EntriesOnly_start ::
    "'w start_fn \<Rightarrow> bytes \<Rightarrow> Scope \<Rightarrow> bytes \<Rightarrow> bytes list \<Rightarrow> SearchStream \<Rightarrow> 'w \<Rightarrow>
     ((unit, LdapError) result \<times> Adapter \<times> SearchStream \<times> 'w) panicking" where
  "EntriesOnly_start start base scope filt attrs stream w = do {
     (r, stream, w) \<leftarrow> start base scope filt attrs stream w;
     Some (r, EntriesOnly [], stream, w)
   }"

definition PagedResults_start ::
    "'w start_fn \<Rightarrow> PagedResults_adapter \<Rightarrow> bytes \<Rightarrow> Scope \<Rightarrow> bytes \<Rightarrow> bytes list \<Rightarrow> SearchStream \<Rightarrow> 'w \<Rightarrow>
     ((unit, LdapError) result \<times> Adapter \<times> SearchStream \<times> 'w) panicking" where
  "PagedResults_start start self base scope filt attrs stream w = do {
     let stream_ldap = ss_ldap stream;
     let ldap = (Ldap_clone stream_ldap)\<lparr> timeout := timeout stream_ldap, search_opts := search_opts stream_ldap \<rparr>;
     let all_ctrls = (case controls stream_ldap of Some cs \<Rightarrow> cs | None \<Rightarrow> []);
     let ctrls = filter (\<lambda>c. ctype c \<noteq> PAGED_RESULTS_OID) all_ctrls;
     if list_ex (\<lambda>c. ctype c = PAGED_RESULTS_OID) all_ctrls
     then Some (Err (AdapterInit (str ''found Paged Results control in op set'')), Paged self, stream, w)
     else do {
       let ldap = ldap\<lparr> controls := Some ctrls \<rparr>;
       pr \<leftarrow> PagedResults_into \<lparr> pr_size = pa_page_size self, pr_cookie = [] \<rparr>;
       let stream = stream\<lparr> ss_ldap := stream_ldap\<lparr> controls := Some (ctrls @ [pr]) \<rparr> \<rparr>;
       let self = self\<lparr> pa_ldap := Some ldap, pa_base := base, pa_scope := scope, pa_filter := filt, pa_attrs := Some attrs \<rparr>;
       (r, stream, w) \<leftarrow> start base scope filt attrs stream w;
       Some (r, Paged self, stream, w)
     }
   }"

definition fail_state :: "('a, LdapError) result \<Rightarrow> SearchStream \<Rightarrow> SearchStream" where
  "fail_state r self = (case r of Err _ \<Rightarrow> self\<lparr> ss_state := Error_State \<rparr> | Ok _ \<Rightarrow> self)"

fun start_at :: "nat \<Rightarrow> 'w tokio \<Rightarrow> nom_complete \<Rightarrow> 'w start_fn" where
  "start_at n T N base scope filt attrs self w =
     (if ss_state self \<noteq> Fresh then Some (Ok (), self, w)
      else if ss_ax self = length (ss_adapters self) then do {
        (r, self, w) \<leftarrow> start_inner T N base scope filt attrs self w;
        Some (r, fail_state r self, w)
      }
      else (case n of
        0 \<Rightarrow> panic
      | Suc n \<Rightarrow> do {
          (r, self, w) \<leftarrow> call_adapter (\<lambda>a. case a of
              EntriesOnly _ \<Rightarrow> EntriesOnly_start (start_at n T N) base scope filt attrs
            | Paged p \<Rightarrow> PagedResults_start (start_at n T N) p base scope filt attrs) self w;
          Some (r, fail_state r self, w)
        }))"

definition stream_start :: "'w tokio \<Rightarrow> nom_complete \<Rightarrow> 'w start_fn" where
  "stream_start T N base scope filt attrs self w =
     start_at (length (ss_adapters self) - ss_ax self) T N base scope filt attrs self w"

definition streaming_search_with ::
    "'w tokio \<Rightarrow> nom_complete \<Rightarrow> Adapter list \<Rightarrow> bytes \<Rightarrow> Scope \<Rightarrow> bytes \<Rightarrow> bytes list \<Rightarrow> (SearchStream, Ldap, 'w) async" where
  "streaming_search_with T N adapters base scope filt attrs self w = do {
     let ldap = (Ldap_clone self)\<lparr> controls := controls self, timeout := timeout self, search_opts := search_opts self \<rparr>;
     let self = self\<lparr> controls := None, timeout := None, search_opts := None \<rparr>;
     (r, stream, w) \<leftarrow> stream_start T N base scope filt attrs (SearchStream_new ldap adapters) w;
     case r of
       Err e \<Rightarrow> Some (Err e, self, drop_rx T stream w)
     | Ok _ \<Rightarrow> Some (Ok stream, self, w)
   }"

definition streaming_search ::
    "'w tokio \<Rightarrow> nom_complete \<Rightarrow> bytes \<Rightarrow> Scope \<Rightarrow> bytes \<Rightarrow> bytes list \<Rightarrow> (SearchStream, Ldap, 'w) async" where
  "streaming_search T N = streaming_search_with T N []"

subsection \<open>Iterating through a stream\<close>

text \<open>The loop of \<open>EntriesOnly::next\<close>, over the operation for the rest of the chain.\<close>

partial_function (option) entries_loop ::
    "(ResultEntry option, SearchStream, 'w) async \<Rightarrow> bytes list \<Rightarrow> SearchStream \<Rightarrow> 'w \<Rightarrow>
     ((ResultEntry option, LdapError) result \<times> bytes list \<times> SearchStream \<times> 'w) option" where
  "entries_loop nxt refs stream w =
     (case nxt stream w of
        None \<Rightarrow> None
      | Some (Ok (Some re), stream, w) \<Rightarrow>
          if is_intermediate re then entries_loop nxt refs stream w
          else if is_ref re then
            (case parse_refs (re_tag re) of
               None \<Rightarrow> panic
             | Some rs \<Rightarrow> entries_loop nxt (refs @ rs) stream w)
          else Some (Ok (Some re), refs, stream, w)
      | Some (r, stream, w) \<Rightarrow> Some (r, refs, stream, w))"

declare entries_loop.simps [code]

text \<open>The first Paged Results control of a result, with its position.\<close>

fun find_paged :: "nat \<Rightarrow> Control list \<Rightarrow> (nat \<times> RawControl) option" where
  "find_paged cno [] = None"
| "find_paged cno (Control t raw # cs) =
     (if t = Some CT_PagedResults then Some (cno, raw) else find_paged (Suc cno) cs)"

text \<open>
  What \<open>PagedResults::next\<close> does at the end of a page: it ends the search (\<open>Inl\<close>) or continues with
  the stream of the next page (\<open>Inr\<close>).
\<close>

definition vec_remove :: "nat \<Rightarrow> 'a list \<Rightarrow> 'a list" where
  "vec_remove i xs = take i xs @ drop (Suc i) xs"

definition next_page ::
    "'w tokio \<Rightarrow> nom_complete \<Rightarrow> nom_streaming \<Rightarrow> PagedResults_adapter \<Rightarrow> SearchStream \<Rightarrow> 'w \<Rightarrow>
     (((ResultEntry option, LdapError) result \<times> SearchStream \<times> 'w) + (SearchStream \<times> 'w)) panicking" where
  "next_page T N S self stream w =
     (case ss_res stream of
        None \<Rightarrow> Some (Inl (Ok None, stream, w))
      | Some res \<Rightarrow>
          (case find_paged 0 (lr_ctrls res) of
             None \<Rightarrow> Some (Inl (Ok None, stream, w))
           | Some (cno, raw) \<Rightarrow> do {
               pr \<leftarrow> RawControl_parse (PagedResults_parse S) raw;
               if pr_cookie pr = [] then
                 Some (Inl (Ok None, stream\<lparr> ss_res := Some (res\<lparr> lr_ctrls := vec_remove cno (lr_ctrls res) \<rparr>) \<rparr>, w))
               else do {
                 ldap_ref \<leftarrow> expect (pa_ldap self);
                 let ldap = (Ldap_clone ldap_ref)\<lparr> timeout := timeout ldap_ref, search_opts := search_opts ldap_ref \<rparr>;
                 ctrls \<leftarrow> expect (controls ldap_ref);
                 pr \<leftarrow> PagedResults_into \<lparr> pr_size = pa_page_size self, pr_cookie = pr_cookie pr \<rparr>;
                 let ldap = ldap\<lparr> controls := Some (ctrls @ [pr]) \<rparr>;
                 attrs \<leftarrow> expect (pa_attrs self);
                 (r, _, w) \<leftarrow> streaming_search T N (pa_base self) (pa_scope self) (pa_filter self) attrs ldap w;
                 Some (case r of
                     Err e \<Rightarrow> Inl (Err e, stream, w)
                   | Ok new_stream \<Rightarrow> Inr (stream\<lparr> ss_ldap := ss_ldap new_stream, ss_rx := ss_rx new_stream \<rparr>, w))
               }
             }))"

partial_function (option) paged_loop ::
    "'w tokio \<Rightarrow> nom_complete \<Rightarrow> nom_streaming \<Rightarrow> (ResultEntry option, SearchStream, 'w) async \<Rightarrow>
     PagedResults_adapter \<Rightarrow> SearchStream \<Rightarrow> 'w \<Rightarrow> ((ResultEntry option, LdapError) result \<times> SearchStream \<times> 'w) option" where
  "paged_loop T N S nxt self stream w =
     (case nxt stream w of
        None \<Rightarrow> None
      | Some (Ok None, stream, w) \<Rightarrow>
          (case next_page T N S self stream w of
             None \<Rightarrow> None
           | Some (Inl r) \<Rightarrow> Some r
           | Some (Inr (stream, w)) \<Rightarrow> paged_loop T N S nxt self stream w)
      | Some any_r \<Rightarrow> Some any_r)"

declare paged_loop.simps [code]

definition adapter_next ::
    "'w tokio \<Rightarrow> nom_complete \<Rightarrow> nom_streaming \<Rightarrow> (ResultEntry option, SearchStream, 'w) async \<Rightarrow> Adapter \<Rightarrow> SearchStream \<Rightarrow> 'w \<Rightarrow>
     ((ResultEntry option, LdapError) result \<times> Adapter \<times> SearchStream \<times> 'w) panicking" where
  "adapter_next T N S nxt a stream w =
     (case a of
        EntriesOnly refs \<Rightarrow> do {
          (r, refs, stream, w) \<leftarrow> entries_loop nxt refs stream w;
          Some (r, EntriesOnly refs, stream, w)
        }
      | Paged p \<Rightarrow> do {
          (r, stream, w) \<leftarrow> paged_loop T N S nxt p stream w;
          Some (r, Paged p, stream, w)
        })"

definition after_next :: "(ResultEntry option, LdapError) result \<Rightarrow> SearchStream \<Rightarrow> SearchStream" where
  "after_next r self =
     (case r of
        Ok None \<Rightarrow> if ss_ax self = 0 then self\<lparr> ss_state := Done \<rparr> else self
      | Err _ \<Rightarrow> self\<lparr> ss_state := Error_State \<rparr>
      | _ \<Rightarrow> self)"

fun next_at :: "nat \<Rightarrow> 'w tokio \<Rightarrow> nom_complete \<Rightarrow> nom_streaming \<Rightarrow> (ResultEntry option, SearchStream, 'w) async" where
  "next_at n T N S self w =
     (if ss_state self \<noteq> Active then Some (Ok None, self, w)
      else if ss_ax self = length (ss_adapters self) then do {
        (r, self, w) \<leftarrow> next_inner T self w;
        Some (r, fail_state r self, w)
      }
      else (case n of
        0 \<Rightarrow> panic
      | Suc n \<Rightarrow> do {
          (r, self, w) \<leftarrow> call_adapter (adapter_next T N S (next_at n T N S)) self w;
          Some (r, after_next r self, w)
        }))"

definition stream_next :: "'w tokio \<Rightarrow> nom_complete \<Rightarrow> nom_streaming \<Rightarrow> (ResultEntry option, SearchStream, 'w) async" where
  "stream_next T N S self w = next_at (length (ss_adapters self) - ss_ax self) T N S self w"

subsection \<open>Finishing a stream\<close>

definition EntriesOnly_finish ::
    "(SearchStream \<Rightarrow> 'w \<Rightarrow> (LdapResult \<times> SearchStream \<times> 'w) panicking) \<Rightarrow> bytes list \<Rightarrow> SearchStream \<Rightarrow> 'w \<Rightarrow>
     (LdapResult \<times> Adapter \<times> SearchStream \<times> 'w) panicking" where
  "EntriesOnly_finish fin refs stream w = do {
     (res, stream, w) \<leftarrow> fin stream w;
     Some (res\<lparr> lr_refs := lr_refs res @ refs \<rparr>, EntriesOnly [], stream, w)
   }"

definition PagedResults_finish ::
    "(SearchStream \<Rightarrow> 'w \<Rightarrow> (LdapResult \<times> SearchStream \<times> 'w) panicking) \<Rightarrow> PagedResults_adapter \<Rightarrow> SearchStream \<Rightarrow> 'w \<Rightarrow>
     (LdapResult \<times> Adapter \<times> SearchStream \<times> 'w) panicking" where
  "PagedResults_finish fin p stream w = do {
     (res, stream, w) \<leftarrow> fin stream w;
     Some (res, Paged p, stream, w)
   }"

definition adapter_finish ::
    "(SearchStream \<Rightarrow> 'w \<Rightarrow> (LdapResult \<times> SearchStream \<times> 'w) panicking) \<Rightarrow> Adapter \<Rightarrow> SearchStream \<Rightarrow> 'w \<Rightarrow>
     (LdapResult \<times> Adapter \<times> SearchStream \<times> 'w) panicking" where
  "adapter_finish fin a =
     (case a of EntriesOnly refs \<Rightarrow> EntriesOnly_finish fin refs | Paged p \<Rightarrow> PagedResults_finish fin p)"

lemmas adapter_finish_defs = adapter_finish_def EntriesOnly_finish_def PagedResults_finish_def

fun finish_at :: "nat \<Rightarrow> ('w, 'z) channels_scheme \<Rightarrow> SearchStream \<Rightarrow> 'w \<Rightarrow> (LdapResult \<times> SearchStream \<times> 'w) panicking" where
  "finish_at n T self w =
     (if ss_state self = Closed then Some (synthetic_result 80 (str ''stream already finalized''), self, w)
      else if ss_ax self = length (ss_adapters self) then Some (finish_inner T self w)
      else (case n of
        0 \<Rightarrow> panic
      | Suc n \<Rightarrow> call_adapter (adapter_finish (finish_at n T)) self w))"

definition stream_finish :: "('w, 'z) channels_scheme \<Rightarrow> SearchStream \<Rightarrow> 'w \<Rightarrow> (LdapResult \<times> SearchStream \<times> 'w) panicking" where
  "stream_finish T self w = finish_at (length (ss_adapters self) - ss_ax self) T self w"

declare start_at.simps [simp del] next_at.simps [simp del] finish_at.simps [simp del]

subsection \<open>ldap.rs: search\<close>

text \<open>\<open>while let Some(entry) = stream.next().await? { re_vec.push(entry); }\<close>\<close>

partial_function (option) collect_loop ::
    "(ResultEntry option, SearchStream, 'w) async \<Rightarrow> ResultEntry list \<Rightarrow> SearchStream \<Rightarrow> 'w \<Rightarrow>
     ((ResultEntry list, LdapError) result \<times> SearchStream \<times> 'w) option" where
  "collect_loop nxt re_vec stream w =
     (case nxt stream w of
        None \<Rightarrow> None
      | Some (Ok (Some entry), stream, w) \<Rightarrow> collect_loop nxt (re_vec @ [entry]) stream w
      | Some (Ok None, stream, w) \<Rightarrow> Some (Ok re_vec, stream, w)
      | Some (Err e, stream, w) \<Rightarrow> Some (Err e, stream, w))"

declare collect_loop.simps [code]

definition Ldap_search ::
    "'w tokio \<Rightarrow> nom_complete \<Rightarrow> nom_streaming \<Rightarrow> bytes \<Rightarrow> Scope \<Rightarrow> bytes \<Rightarrow> bytes list \<Rightarrow> (SearchResult, Ldap, 'w) async" where
  "Ldap_search T N S base scope filt attrs =
     await_ok (streaming_search_with T N [EntriesOnly_new] base scope filt attrs) (\<lambda>stream self w. do {
       (r, stream, w) \<leftarrow> collect_loop (stream_next T N S) [] stream w;
       case r of
         Err e \<Rightarrow> Some (Err e, self, drop_rx T stream w)
       | Ok re_vec \<Rightarrow> do {
           (res, stream, w) \<leftarrow> stream_finish T stream w;
           Some (Ok (SearchResult re_vec res), self, w)
         }
     })"

subsection \<open>Properties\<close>

lemma adapter_finish_stream:
  "adapter_finish fin a s w = Some (r, a', s', w') \<Longrightarrow> \<exists>r0. fin s w = Some (r0, s', w')"
  by (cases a) (auto simp: adapter_finish_defs bind_eq_Some_conv)

lemma finish_at_Closed: "finish_at n T s w = Some (res, s', w') \<Longrightarrow> ss_state s' = Closed"
proof (induction n arbitrary: s w res s' w')
  case 0
  then show ?case by (subst (asm) finish_at.simps) (auto simp: finish_inner_def Let_def split: if_splits)
next
  case (Suc n)
  from Suc.prems show ?case
    by (subst (asm) finish_at.simps)
      (auto simp: finish_inner_def Let_def call_adapter_def bind_eq_Some_conv split: if_splits
        dest!: adapter_finish_stream Suc.IH)
qed

text \<open>
  Claim C29. Once \<open>finish\<close> has returned, with any chain of adapters and in any state of the stream,
  the stream is closed for good: \<open>next\<close> returns \<open>Ok(None)\<close>, \<open>start\<close> does nothing and another
  \<open>finish\<close> returns the synthetic result 80, none of them changing the stream or anything shared.
\<close>

theorem finished_stream_closed:
  assumes "stream_finish T s w = Some (res, s', w')"
  shows "ss_state s' = Closed \<and> stream_next T' N S s' v = Some (Ok None, s', v) \<and>
    stream_start T' N base scope filt attrs s' v = Some (Ok (), s', v) \<and>
    stream_finish T s' w' = Some (synthetic_result 80 (str ''stream already finalized''), s', w')"
  using finish_at_Closed [OF assms [unfolded stream_finish_def]]
  by (simp add: stream_next_def next_at.simps stream_start_def start_at.simps stream_finish_def finish_at.simps)

theorem finished_stream_closed_witness:
  "\<exists>res s' w'. stream_finish channels_ref (SearchStream_new (fst (snd conn_pair)) [EntriesOnly_new, PagedResults_new 10]) world_init =
      Some (res, s', w') \<and> lr_rc res = 88 \<and> w_scrubs w' = [0] \<and> ss_state s' = Closed \<and>
      stream_finish channels_ref s' w' = Some (synthetic_result 80 (str ''stream already finalized''), s', w')"
proof -
  obtain res s' w' where s': "stream_finish channels_ref (SearchStream_new (fst (snd conn_pair)) [EntriesOnly_new, PagedResults_new 10])
      world_init = Some (res, s', w')" "lr_rc res = 88" "w_scrubs w' = [0]"
    by (auto simp: stream_finish_def finish_at.simps SearchStream_new_def EntriesOnly_new_def PagedResults_new_def
        call_adapter_def vec_index_def adapter_finish_defs finish_inner_def drop_rx_def conn_pair_def world_init_def synthetic_result_def)
  note closed = finished_stream_closed [OF s'(1), where T' = "undefined :: unit tokio" and N = nom_complete_ref
      and S = nom_streaming_ref and v = "()" and base = "[]" and scope = Base and filt = "[]" and attrs = "[]"]
  with s' show ?thesis by blast
qed

end
