(* ===== verification/Stream_Reading.thy ===== *)
theory Stream_Reading
  imports Search_Stream
begin

text \<open>
  Reading search streams to their end. The locale \<open>item_source\<close> is what a stream relies on of its channel,
  \<open>search_server\<close> what a search relies on of connection and server. The operation that a chain of adapters
  offers at any place is an \<open>entry_source\<close>: it returns certain entries, one per call, and then the end.
  The direct stream is one, \<open>PagedResults\<close> makes one out of all pages, and \<open>EntriesOnly\<close> turns one into
  another without referrals and intermediate messages. The results for searches with one adapter and
  with the chain of both are compositions of these.
\<close>

subsection \<open>Streams over a source of items\<close>

text \<open>
  What a stream relies on: receiving from a channel that still has the items \<open>x # xs\<close> to deliver
  returns \<open>x\<close>, and \<open>xs\<close> are left.
\<close>

locale item_source =
  fixes T :: "'w tokio"
    and feeds :: "chan \<Rightarrow> (SearchItem \<times> Control list) list \<Rightarrow> 'w \<Rightarrow> bool"
  assumes receive: "feeds ch (x # xs) w \<Longrightarrow> \<exists>w'. await_item T ch w = Some (Some x, w') \<and> feeds ch xs w'"

text \<open>The items of a search whose entries, referrals and intermediate messages are \<open>es\<close>.\<close>

definition item_of :: "ResultEntry \<Rightarrow> SearchItem \<times> Control list" where
  "item_of re = (if is_ref re then Item_Referral (re_tag re) else Item_Entry (re_tag re), re_ctrls re)"

definition replies :: "ResultEntry list \<Rightarrow> LdapResult \<Rightarrow> Control list \<Rightarrow> (SearchItem \<times> Control list) list" where
  "replies es r cs = map item_of es @ [(Item_Done r, cs)]"

definition plain :: "ResultEntry \<Rightarrow> bool" where
  "plain re \<longleftrightarrow> \<not> is_intermediate re \<and> \<not> is_ref re"

definition refs_of :: "ResultEntry \<Rightarrow> bytes list" where
  "refs_of re = (if is_ref re then the (parse_refs (re_tag re)) else [])"

definition refs_parse :: "ResultEntry \<Rightarrow> bool" where
  "refs_parse re \<longleftrightarrow> (is_ref re \<longrightarrow> parse_refs (re_tag re) \<noteq> None)"

lemma is_ref_not_intermediate: "is_ref re \<Longrightarrow> \<not> is_intermediate re"
  by (simp add: is_ref_def is_intermediate_def)

text \<open>A stream that is being read, at the end of the chain.\<close>

definition reading :: "chan \<Rightarrow> SearchStream \<Rightarrow> bool" where
  "reading ch s \<longleftrightarrow> ss_state s = Active \<and> ss_rx s = Some ch \<and> ss_timeout s = None"

definition ended :: "LdapResult \<Rightarrow> Control list \<Rightarrow> SearchStream \<Rightarrow> SearchStream" where
  "ended r cs s = s\<lparr> ss_res := Some (r\<lparr> lr_ctrls := cs \<rparr>), ss_rx := None \<rparr>"

subsection \<open>Loops over a source of entries\<close>

text \<open>
  \<open>P es s w\<close> says that repeated calls of \<open>nxt\<close> from \<open>s\<close> and \<open>w\<close> return the entries \<open>es\<close> and then the end, in a
  state for which \<open>E\<close> holds.
\<close>

locale entry_source =
  fixes nxt :: "(ResultEntry option, SearchStream, 'w) async"
    and P :: "ResultEntry list \<Rightarrow> SearchStream \<Rightarrow> 'w \<Rightarrow> bool"
    and E :: "SearchStream \<Rightarrow> 'w \<Rightarrow> bool"
  assumes next_entry: "P (e # es) s w \<Longrightarrow> \<exists>s' w'. nxt s w = Some (Ok (Some e), s', w') \<and> P es s' w'"
    and next_end: "P [] s w \<Longrightarrow> \<exists>s' w'. nxt s w = Some (Ok None, s', w') \<and> E s' w'"
begin

lemma weaken: "(\<And>s w. E s w \<Longrightarrow> F s w) \<Longrightarrow> entry_source nxt P F"
  using next_entry next_end by unfold_locales blast+

lemma collect_all:
  "P es s w \<Longrightarrow> \<exists>s' w'. collect_loop nxt acc s w = Some (Ok (acc @ es), s', w') \<and> E s' w'"
proof (induction es arbitrary: acc s w)
  case Nil
  from next_end [OF Nil] show ?case by (subst collect_loop.simps) auto
next
  case (Cons e es)
  from next_entry [OF Cons.prems] obtain s1 w1 where "nxt s w = Some (Ok (Some e), s1, w1)" "P es s1 w1" by blast
  with Cons.IH [of s1 w1 "acc @ [e]"] show ?case by (subst collect_loop.simps) auto
qed

lemma entries_loop_step:
  assumes "P (e # es) s w" and "refs_parse e"
  shows "\<exists>s' w'. P es s' w' \<and> entries_loop nxt rs s w =
    (if plain e then Some (Ok (Some e), rs, s', w') else entries_loop nxt (rs @ refs_of e) s' w')"
proof -
  from next_entry [OF assms(1)] obtain s1 w1 where s1: "nxt s w = Some (Ok (Some e), s1, w1)" "P es s1 w1" by blast
  then have "entries_loop nxt rs s w =
      (if plain e then Some (Ok (Some e), rs, s1, w1) else entries_loop nxt (rs @ refs_of e) s1 w1)"
    using assms(2) is_ref_not_intermediate [of e]
    by (subst entries_loop.simps) (auto simp: plain_def refs_of_def refs_parse_def)
  with s1 show ?thesis by blast
qed

lemma entries_loop_skips:
  assumes "P es s w" and "list_all refs_parse es"
  shows "case dropWhile (\<lambda>e. \<not> plain e) es of
      e # post \<Rightarrow> \<exists>s' w'. P post s' w' \<and> entries_loop nxt rs s w =
        Some (Ok (Some e), rs @ concat (map refs_of (takeWhile (\<lambda>e. \<not> plain e) es)), s', w')
    | [] \<Rightarrow> \<exists>s' w'. E s' w' \<and> entries_loop nxt rs s w = Some (Ok None, rs @ concat (map refs_of es), s', w')"
  using assms
proof (induction es arbitrary: rs s w)
  case Nil
  from next_end [OF Nil(1)] show ?case by (subst entries_loop.simps) auto
next
  case (Cons e es)
  have "refs_parse e" "list_all refs_parse es" using Cons.prems(2) by simp_all
  from entries_loop_step [OF Cons.prems(1) this(1), of rs] obtain s1 w1 where s1: "P es s1 w1"
    "entries_loop nxt rs s w =
      (if plain e then Some (Ok (Some e), rs, s1, w1) else entries_loop nxt (rs @ refs_of e) s1 w1)"
    by blast
  show ?case
  proof (cases "plain e")
    case True
    with s1 show ?thesis by auto
  next
    case False
    with Cons.IH [OF s1(1) \<open>list_all refs_parse es\<close>, of "rs @ refs_of e"] s1(2) show ?thesis
      by (cases "dropWhile (\<lambda>e. \<not> plain e) es") (simp_all del: dropWhile_eq_Nil_conv)
  qed
qed

end

text \<open>The place in the chain at which a stream is.\<close>

definition at_place :: "nat \<Rightarrow> Adapter list \<Rightarrow> SearchStream \<Rightarrow> bool" where
  "at_place ax as s \<longleftrightarrow> ss_ax s = ax \<and> ss_adapters s = as"

lemma at_place_simps [simp]:
  "at_place ax as (s\<lparr> ss_ldap := l \<rparr>) = at_place ax as s" "at_place ax as (s\<lparr> ss_rx := x \<rparr>) = at_place ax as s"
  "at_place ax as (s\<lparr> ss_res := ro \<rparr>) = at_place ax as s" "at_place ax as (s\<lparr> ss_state := st \<rparr>) = at_place ax as s"
  "at_place ax as (ended r cs s) = at_place ax as s"
  by (simp_all add: at_place_def ended_def)

text \<open>A direct stream that has \<open>es\<close> and the result \<open>r\<close> still to deliver, and a stream that is at its end.\<close>

definition direct_src :: "(chan \<Rightarrow> (SearchItem \<times> Control list) list \<Rightarrow> 'w \<Rightarrow> bool) \<Rightarrow> LdapResult \<Rightarrow> Control list \<Rightarrow>
    ResultEntry list \<Rightarrow> SearchStream \<Rightarrow> 'w \<Rightarrow> bool" where
  "direct_src feeds r cs es s w \<longleftrightarrow> (\<exists>ch. feeds ch (replies es r cs) w \<and> reading ch s)"

definition stream_done :: "('w \<Rightarrow> bool) \<Rightarrow> LdapResult \<Rightarrow> SearchStream \<Rightarrow> 'w \<Rightarrow> bool" where
  "stream_done Q res s w \<longleftrightarrow> Q w \<and> ss_state s = Active \<and> ss_rx s = None \<and> ss_res s = Some res"

lemma source_place:
  "reading ch s \<Longrightarrow> reading ch (s\<lparr> ss_ax := k, ss_adapters := A \<rparr>)"
  "direct_src feeds r cs es s w \<Longrightarrow> direct_src feeds r cs es (s\<lparr> ss_ax := k, ss_adapters := A \<rparr>) w"
  "stream_done Q res s w \<Longrightarrow> stream_done Q res (s\<lparr> ss_ax := k, ss_adapters := A \<rparr>) w"
  by (auto simp: reading_def direct_src_def stream_done_def)

lemma source_active: "direct_src feeds r cs es s w \<Longrightarrow> ss_state s = Active"
  by (auto simp: direct_src_def reading_def)

context item_source
begin

lemma direct_next:
  assumes "feeds ch (replies (e # es) r cs) w" and "reading ch s" and "ss_ax s = length (ss_adapters s)"
  shows "\<exists>w'. next_at n T N S s w = Some (Ok (Some e), s, w') \<and> feeds ch (replies es r cs) w'"
proof -
  obtain w' where "await_item T ch w = Some (Some (item_of e), w')" "feeds ch (replies es r cs) w'"
    using receive [of ch "item_of e" "replies es r cs" w] assms(1) by (auto simp: replies_def)
  with assms(2,3) show ?thesis
    by (cases e) (auto simp: next_at.simps reading_def next_inner_def await_ok_def next_item_def take_item_def item_of_def
        fail_state_def split: if_splits)
qed

lemma direct_end:
  assumes "feeds ch (replies [] r cs) w" and "reading ch s" and "ss_ax s = length (ss_adapters s)"
  shows "\<exists>w'. next_at n T N S s w = Some (Ok None, ended r cs s, ch_drop_rx T ch w') \<and> feeds ch [] w'"
proof -
  obtain w' where "await_item T ch w = Some (Some (Item_Done r, cs), w')" "feeds ch [] w'"
    using receive [of ch _ "[]" w] assms(1) by (auto simp: replies_def)
  with assms(2,3) show ?thesis
    by (auto simp: next_at.simps reading_def next_inner_def await_ok_def next_item_def take_item_def ended_def
        fail_state_def drop_rx_def)
qed

lemma direct_source:
  "entry_source (next_at m T N S) (\<lambda>es s w. direct_src feeds r cs es s w \<and> at_place (length as) as s)
    (\<lambda>s w. stream_done (\<lambda>w. \<exists>ch w0. feeds ch [] w0 \<and> w = ch_drop_rx T ch w0) (r\<lparr> lr_ctrls := cs \<rparr>) s w \<and>
      at_place (length as) as s)"
proof
  fix e es s w
  assume "direct_src feeds r cs (e # es) s w \<and> at_place (length as) as s"
  then show "\<exists>s' w'. next_at m T N S s w = Some (Ok (Some e), s', w') \<and>
      direct_src feeds r cs es s' w' \<and> at_place (length as) as s'"
    using direct_next [of _ e es r cs w s m N S] by (fastforce simp: at_place_def direct_src_def)
next
  fix s w
  assume "direct_src feeds r cs [] s w \<and> at_place (length as) as s"
  then obtain ch where ch: "feeds ch (replies [] r cs) w" "reading ch s" "at_place (length as) as s"
    by (auto simp: direct_src_def)
  then obtain w' where "next_at m T N S s w = Some (Ok None, ended r cs s, ch_drop_rx T ch w')" "feeds ch [] w'"
    using direct_end [of ch r cs w s m N S] by (auto simp: at_place_def)
  with ch show "\<exists>s' w'. next_at m T N S s w = Some (Ok None, s', w') \<and>
      stream_done (\<lambda>w. \<exists>ch w0. feeds ch [] w0 \<and> w = ch_drop_rx T ch w0) (r\<lparr> lr_ctrls := cs \<rparr>) s' w' \<and> at_place (length as) as s'"
    by (auto simp: ended_def reading_def at_place_def stream_done_def)
qed

end

sublocale item_source \<subseteq> direct: entry_source "next_at m T N S"
  "\<lambda>es s w. direct_src feeds r cs es s w \<and> at_place (length as) as s"
  "\<lambda>s w. stream_done (\<lambda>w. \<exists>ch w0. feeds ch [] w0 \<and> w = ch_drop_rx T ch w0) (r\<lparr> lr_ctrls := cs \<rparr>) s w \<and> at_place (length as) as s"
  for m N S r cs as
  by (rule direct_source)

text \<open>\<open>EntriesOnly\<close> in front of a source, at the head of the chain.\<close>

lemma next_at_entries:
  assumes "ss_state s = Active" and "at_place 0 (EntriesOnly rs # as) s"
    and "entries_loop (next_at m T N S) rs (s\<lparr> ss_ax := Suc 0 \<rparr>) w = Some (r, rs', s', w')"
    and "at_place (Suc 0) (EntriesOnly rs # as) s'"
  shows "next_at (Suc m) T N S s w =
    Some (r, after_next r (s'\<lparr> ss_ax := 0, ss_adapters := EntriesOnly rs' # as \<rparr>), w')"
  using assms
  by (simp add: next_at.simps [of "Suc m"] at_place_def call_adapter_def vec_index_def adapter_next_def Let_def)

lemma plain_split:
  "filter plain es = (case dropWhile (\<lambda>e. \<not> plain e) es of [] \<Rightarrow> [] | e # post \<Rightarrow> e # filter plain post)"
  "dropWhile (\<lambda>e. \<not> plain e) es = e # post \<Longrightarrow>
    concat (map refs_of es) = concat (map refs_of (takeWhile (\<lambda>e. \<not> plain e) es)) @ concat (map refs_of post)"
  "dropWhile (\<lambda>e. \<not> plain e) es = e # post \<Longrightarrow> set post \<subseteq> set es"
proof (induction es)
  case (Cons x es)
  have "plain x \<Longrightarrow> refs_of x = []" by (simp add: plain_def refs_of_def)
  with Cons show "dropWhile (\<lambda>e. \<not> plain e) (x # es) = e # post \<Longrightarrow> concat (map refs_of (x # es)) =
      concat (map refs_of (takeWhile (\<lambda>e. \<not> plain e) (x # es))) @ concat (map refs_of post)"
    by (auto split: if_splits)
  from Cons show "filter plain (x # es) = (case dropWhile (\<lambda>e. \<not> plain e) (x # es) of [] \<Rightarrow> [] | e # post \<Rightarrow> e # filter plain post)"
    and "dropWhile (\<lambda>e. \<not> plain e) (x # es) = e # post \<Longrightarrow> set post \<subseteq> set (x # es)"
    by (auto split: if_splits)
qed simp_all

lemma entries_front_loop:
  assumes src: "entry_source (next_at m T N S) (\<lambda>es s w. P es s w \<and> at_place (Suc 0) (EntriesOnly rs # as) s)
      (\<lambda>s w. E s w \<and> at_place (Suc 0) (EntriesOnly rs # as) s)"
    and place: "\<And>es s w k A. P es s w \<Longrightarrow> P es (s\<lparr> ss_ax := k, ss_adapters := A \<rparr>) w"
    and s: "P es s w" "at_place 0 (EntriesOnly rs # as) s" "list_all refs_parse es"
  shows "case dropWhile (\<lambda>e. \<not> plain e) es of
      e # post \<Rightarrow> \<exists>s' w'. (P post s' w' \<and> at_place (Suc 0) (EntriesOnly rs # as) s') \<and>
        entries_loop (next_at m T N S) rs (s\<lparr> ss_ax := Suc 0 \<rparr>) w =
          Some (Ok (Some e), rs @ concat (map refs_of (takeWhile (\<lambda>e. \<not> plain e) es)), s', w')
    | [] \<Rightarrow> \<exists>s' w'. (E s' w' \<and> at_place (Suc 0) (EntriesOnly rs # as) s') \<and>
        entries_loop (next_at m T N S) rs (s\<lparr> ss_ax := Suc 0 \<rparr>) w = Some (Ok None, rs @ concat (map refs_of es), s', w')"
  using place [OF s(1), where k = "Suc 0" and A = "ss_adapters s"] s(2)
  by (intro entry_source.entries_loop_skips [OF src _ s(3)]) (simp add: at_place_def)

lemma entries_front:
  assumes src: "\<And>rs. entry_source (next_at m T N S) (\<lambda>es s w. P es s w \<and> at_place (Suc 0) (EntriesOnly rs # as) s)
      (\<lambda>s w. E s w \<and> at_place (Suc 0) (EntriesOnly rs # as) s)"
    and place: "\<And>es s w k A. P es s w \<Longrightarrow> P es (s\<lparr> ss_ax := k, ss_adapters := A \<rparr>) w"
      "\<And>s w k A. E s w \<Longrightarrow> E (s\<lparr> ss_ax := k, ss_adapters := A \<rparr>) w"
    and active: "\<And>es s w. P es s w \<Longrightarrow> ss_state s = Active"
  shows "entry_source (next_at (Suc m) T N S)
    (\<lambda>xs s w. \<exists>es rs. xs = filter plain es \<and> list_all refs_parse es \<and> P es s w \<and> at_place 0 (EntriesOnly rs # as) s \<and>
      rs @ concat (map refs_of es) = R)
    (\<lambda>s w. \<exists>s0. E s0 w \<and> at_place 0 (EntriesOnly R # as) s0 \<and> s = s0\<lparr> ss_state := Done \<rparr>)"
proof (unfold_locales, goal_cases)
  case (1 e xs s w)
  then obtain es rs where es: "e # xs = filter plain es" "list_all refs_parse es" "P es s w" "at_place 0 (EntriesOnly rs # as) s"
    "rs @ concat (map refs_of es) = R" by blast
  then obtain post where post: "dropWhile (\<lambda>e. \<not> plain e) es = e # post" "xs = filter plain post"
    using plain_split(1) [of es] by (auto split: list.splits)
  define rs' where "rs' = rs @ concat (map refs_of (takeWhile (\<lambda>e. \<not> plain e) es))"
  from entries_front_loop [OF src place(1) es(3,4,2)] post(1) obtain s' w' where s': "P post s' w'" "at_place (Suc 0) (EntriesOnly rs # as) s'"
    "entries_loop (next_at m T N S) rs (s\<lparr> ss_ax := Suc 0 \<rparr>) w = Some (Ok (Some e), rs', s', w')"
    by (auto simp: rs'_def)
  have "list_all refs_parse post" "rs' @ concat (map refs_of post) = R"
    using es(2,5) plain_split(2,3) [OF post(1)] by (auto simp: list_all_iff rs'_def)
  with next_at_entries [OF active [OF es(3)] es(4) s'(3,2)] post(2) place(1) [OF s'(1)] show ?case
    by (force simp: at_place_def after_next_def)
next
  case (2 s w)
  then obtain es rs where es: "[] = filter plain es" "list_all refs_parse es" "P es s w" "at_place 0 (EntriesOnly rs # as) s"
    "rs @ concat (map refs_of es) = R" by blast
  then have "dropWhile (\<lambda>e. \<not> plain e) es = []" by (metis dropWhile_eq_Nil_conv filter_empty_conv)
  with entries_front_loop [OF src place(1) es(3,4,2)] es(5) obtain s' w' where s': "E s' w'" "at_place (Suc 0) (EntriesOnly rs # as) s'"
    "entries_loop (next_at m T N S) rs (s\<lparr> ss_ax := Suc 0 \<rparr>) w = Some (Ok None, R, s', w')"
    by (auto simp del: dropWhile_eq_Nil_conv)
  with next_at_entries [OF active [OF es(3)] es(4) s'(3,2)] place(2) [OF s'(1)] show ?case
    by (force simp: at_place_def after_next_def)
qed

text \<open>The whole chain as a source, and its end.\<close>

lemma stream_source:
  assumes "entry_source (next_at k T N S) P E" and "\<And>es s w. P es s w \<Longrightarrow> length (ss_adapters s) - ss_ax s = k"
  shows "entry_source (stream_next T N S) P E"
  using entry_source.next_entry [OF assms(1)] entry_source.next_end [OF assms(1)] assms(2)
  by unfold_locales (simp_all add: stream_next_def)

lemma finish_done:
  assumes "stream_done Q res s w" and "at_place 0 as s"
  shows "as = [EntriesOnly R] \<or> as = [EntriesOnly R, Paged p] \<Longrightarrow>
      \<exists>s'. stream_finish T (s\<lparr> ss_state := Done \<rparr>) w' = Some (res\<lparr> lr_refs := lr_refs res @ R \<rparr>, s', w')"
    and "as = [Paged p] \<Longrightarrow> \<exists>s'. stream_finish T (s\<lparr> ss_state := Done \<rparr>) w' = Some (res, s', w')"
  using assms
  by (auto simp: stream_done_def at_place_def stream_finish_def finish_at.simps call_adapter_def vec_index_def
      adapter_finish_defs finish_inner_def drop_rx_def)

subsection \<open>Searches over a server\<close>

text \<open>The request of a search on a handle.\<close>

definition request_of :: "Ldap \<Rightarrow> bytes \<Rightarrow> Scope \<Rightarrow> Tag \<Rightarrow> bytes list \<Rightarrow> Tag" where
  "request_of h base scope ft attrs =
     search_req (case search_opts h of Some opts \<Rightarrow> opts | None \<Rightarrow> SearchOptions_new) base scope ft attrs"

text \<open>
  What the searches rely on: from an idle state with a message ID to spare, a Search operation
  without timeout is acknowledged, and its channel then delivers the items of the server's answer
  to the request and its controls; when all items have been received and the receiver is dropped,
  the state is idle again. A search uses up its ID, so the states count how many are left.
\<close>

locale search_server =
  fixes T :: "'w tokio"
    and feeds :: "nat \<Rightarrow> chan \<Rightarrow> (SearchItem \<times> Control list) list \<Rightarrow> 'w \<Rightarrow> bool"
    and idle :: "nat \<Rightarrow> 'w \<Rightarrow> bool"
    and request_ok :: "Tag \<Rightarrow> MaybeControls \<Rightarrow> bool"
    and answer :: "Tag \<Rightarrow> MaybeControls \<Rightarrow> (SearchItem \<times> Control list) list"
  assumes item_call: "feeds n ch (x # xs) w \<Longrightarrow> \<exists>w'. await_item T ch w = Some (Some x, w') \<and> feeds n ch xs w'"
    and search_call: "idle (Suc n) w \<Longrightarrow> timeout h = None \<Longrightarrow> request_ok req (controls h) \<Longrightarrow>
      \<exists>ch w1 x i w'. ch_unbounded T w = (ch, w1) \<and>
        op_call T (Search ch) req h w1 = Some (Ok x, h\<lparr> last_id := i, controls := None \<rparr>, w') \<and>
        feeds n ch (answer req (controls h)) w'"
    and drained: "feeds n ch [] w \<Longrightarrow> idle n (ch_drop_rx T ch w)"

sublocale search_server \<subseteq> src: item_source T "feeds n" for n
  by unfold_locales (rule item_call)

context search_server
begin

lemma start_inner_ok:
  assumes "idle (Suc n) w" and "timeout (ss_ldap s) = None" and "parse N filt = Some (Ok ft)"
    and "request_ok (request_of (ss_ldap s) base scope ft attrs) (controls (ss_ldap s))"
  shows "\<exists>ch i w'. start_inner T N base scope filt attrs s w =
      Some (Ok (), s\<lparr> ss_timeout := None, ss_rx := Some ch,
        ss_ldap := (ss_ldap s)\<lparr> search_opts := None, last_id := i, controls := None \<rparr>, ss_state := Active \<rparr>, w') \<and>
      feeds n ch (answer (request_of (ss_ldap s) base scope ft attrs) (controls (ss_ldap s))) w'"
proof -
  let ?req = "request_of (ss_ldap s) base scope ft attrs"
  obtain ch w1 x i w' where "ch_unbounded T w = (ch, w1)"
    "op_call T (Search ch) ?req ((ss_ldap s)\<lparr> search_opts := None \<rparr>) w1 =
      Some (Ok x, (ss_ldap s)\<lparr> search_opts := None, last_id := i, controls := None \<rparr>, w')"
    "feeds n ch (answer ?req (controls (ss_ldap s))) w'"
    using search_call [OF assms(1), of "(ss_ldap s)\<lparr> search_opts := None \<rparr>" ?req] assms(2,4) by auto
  with assms(2,3) show ?thesis
    by (intro exI [of _ ch] exI [of _ i]) (simp add: start_inner_def request_of_def Let_def)
qed

lemma streaming_search_ok:
  assumes "idle (Suc n) w" and "timeout h = None" and "parse N filt = Some (Ok ft)"
    and "request_ok (request_of h base scope ft attrs) (controls h)"
  shows "\<exists>s ch w'. streaming_search T N base scope filt attrs h w =
      Some (Ok s, h\<lparr> controls := None, search_opts := None \<rparr>, w') \<and> ss_rx s = Some ch \<and>
      feeds n ch (answer (request_of h base scope ft attrs) (controls h)) w'"
  using start_inner_ok [OF assms(1), of
      "SearchStream_new ((Ldap_clone h)\<lparr> controls := controls h, timeout := timeout h, search_opts := search_opts h \<rparr>) []"] assms(2-)
  by (fastforce simp: streaming_search_def streaming_search_with_def stream_start_def start_at.simps
      SearchStream_new_def fail_state_def request_of_def Let_def)

lemma streaming_search_entries:
  assumes "idle (Suc n) w" and "timeout h = None" and "parse N filt = Some (Ok ft)"
    and "request_ok (request_of h base scope ft attrs) (controls h)"
  shows "\<exists>s ch w'. streaming_search_with T N [EntriesOnly_new] base scope filt attrs h w =
      Some (Ok s, h\<lparr> controls := None, search_opts := None \<rparr>, w') \<and> reading ch s \<and> ss_ax s = 0 \<and>
      ss_adapters s = [EntriesOnly []] \<and> ss_res s = None \<and>
      feeds n ch (answer (request_of h base scope ft attrs) (controls h)) w'"
  using start_inner_ok [OF assms(1), of
      "(SearchStream_new ((Ldap_clone h)\<lparr> controls := controls h, timeout := timeout h, search_opts := search_opts h \<rparr>)
         [EntriesOnly_new])\<lparr> ss_ax := Suc 0 \<rparr>"] assms(2-)
  by (fastforce simp: streaming_search_with_def stream_start_def start_at.simps EntriesOnly_new_def call_adapter_def
      EntriesOnly_start_def SearchStream_new_def fail_state_def request_of_def reading_def Let_def)

lemma direct_idle:
  "entry_source (next_at m T N S) (\<lambda>es s w. direct_src (feeds n) r cs es s w \<and> at_place (length as) as s)
    (\<lambda>s w. stream_done (idle n) (r\<lparr> lr_ctrls := cs \<rparr>) s w \<and> at_place (length as) as s)"
  by (rule entry_source.weaken [OF src.direct_source]) (auto simp: stream_done_def drained)

lemma search_returns:
  assumes "idle (Suc n) w" and "timeout h = None" and "parse N filt = Some (Ok ft)"
    and "request_ok (request_of h base scope ft attrs) (controls h)"
    and "answer (request_of h base scope ft attrs) (controls h) = replies es r cs" and "list_all refs_parse es"
  shows "\<exists>w'. idle n w' \<and> Ldap_search T N S base scope filt attrs h w =
    Some (Ok (SearchResult (filter plain es) (r\<lparr> lr_ctrls := cs, lr_refs := lr_refs r @ concat (map refs_of es) \<rparr>)),
      h\<lparr> controls := None, search_opts := None \<rparr>, w')"
proof -
  obtain s ch w1 where s: "streaming_search_with T N [EntriesOnly_new] base scope filt attrs h w =
      Some (Ok s, h\<lparr> controls := None, search_opts := None \<rparr>, w1)" "reading ch s" "ss_ax s = 0"
    "ss_adapters s = [EntriesOnly []]" "feeds n ch (replies es r cs) w1"
    using streaming_search_entries [OF assms(1-4)] assms(5) by auto
  let ?R = "concat (map refs_of es)"
  have "entry_source (stream_next T N S)
    (\<lambda>xs s w. \<exists>es rs. xs = filter plain es \<and> list_all refs_parse es \<and> direct_src (feeds n) r cs es s w \<and>
      at_place 0 [EntriesOnly rs] s \<and> rs @ concat (map refs_of es) = ?R)
    (\<lambda>s w. \<exists>s0. stream_done (idle n) (r\<lparr> lr_ctrls := cs \<rparr>) s0 w \<and> at_place 0 [EntriesOnly ?R] s0 \<and> s = s0\<lparr> ss_state := Done \<rparr>)"
    by (rule stream_source [OF entries_front [OF direct_idle [where as = "[_]", simplified]]])
      (auto simp: at_place_def intro: source_place source_active)
  from entry_source.collect_all [OF this, of "filter plain es" s w1 "[]"] s(2-5) assms(6) obtain s0 w2 where
    c: "collect_loop (stream_next T N S) [] s w1 = Some (Ok (filter plain es), s0\<lparr> ss_state := Done \<rparr>, w2)"
      "stream_done (idle n) (r\<lparr> lr_ctrls := cs \<rparr>) s0 w2" "at_place 0 [EntriesOnly ?R] s0"
    by (force simp: direct_src_def at_place_def)
  with s(1) finish_done(1) [OF c(2,3), where R = ?R and T = T and w' = w2] show ?thesis
    by (auto simp: Ldap_search_def await_ok_def stream_done_def)
qed

end

subsection \<open>Paged searches\<close>

text \<open>The control a server adds to the result of a page: \<open>cookie\<close> marks the next page, empty at the end.\<close>

definition page_control :: "bytes \<Rightarrow> Control" where
  "page_control cookie = Control (Some CT_PagedResults) (the (PagedResults_into \<lparr> pr_size = 0, pr_cookie = cookie \<rparr>))"

text \<open>
  Pages: the entries and the result of a page and the cookie of the next. A server answers
  \<open>req\<close> with these pages, from the page that the cookie \<open>c\<close> marks on.
\<close>

type_synonym page = "ResultEntry list \<times> LdapResult \<times> bytes"

fun pages :: "(Tag \<Rightarrow> MaybeControls \<Rightarrow> (SearchItem \<times> Control list) list) \<Rightarrow> (Tag \<Rightarrow> MaybeControls \<Rightarrow> bool) \<Rightarrow>
    Tag \<Rightarrow> RawControl list \<Rightarrow> i32 \<Rightarrow> bytes \<Rightarrow> page list \<Rightarrow> bool" where
  "pages answer ok req ctrls sz c [] \<longleftrightarrow> False"
| "pages answer ok req ctrls sz c ((es, r, nx) # ps) \<longleftrightarrow>
     (\<exists>rc. PagedResults_into \<lparr> pr_size = sz, pr_cookie = c \<rparr> = Some rc \<and>
       ok req (Some (ctrls @ [rc])) \<and> answer req (Some (ctrls @ [rc])) = replies es r [page_control nx]) \<and>
     length nx < 2 ^ 63 \<and> (if nx = [] then ps = [] else pages answer ok req ctrls sz nx ps)"

text \<open>The adapter after its start.\<close>

definition paging :: "nom_complete \<Rightarrow> Ldap \<Rightarrow> RawControl list \<Rightarrow> Tag \<Rightarrow> i32 \<Rightarrow> PagedResults_adapter \<Rightarrow> bool" where
  "paging N h ctrls req sz p \<longleftrightarrow> pa_page_size p = sz \<and> pa_ldap p = Some h \<and> controls h = Some ctrls \<and> timeout h = None \<and>
     (\<exists>ft attrs. parse N (pa_filter p) = Some (Ok ft) \<and> pa_attrs p = Some attrs \<and>
       req = request_of h (pa_base p) (pa_scope p) ft attrs)"

lemma page_control_parse:
  assumes "nom_streaming_doc S" and "length c < 2 ^ 63"
  shows "\<exists>raw pr. page_control c = Control (Some CT_PagedResults) raw \<and>
    RawControl_parse (PagedResults_parse S) raw = Some pr \<and> pr_cookie pr = c"
  using paged_control_codec [OF assms(1), of "\<lparr> pr_size = 0, pr_cookie = c \<rparr>"] assms(2)
  by (auto simp: page_control_def)

text \<open>A stream in the middle of a page, with more pages to come.\<close>

definition paged_src ::
    "(nat \<Rightarrow> chan \<Rightarrow> (SearchItem \<times> Control list) list \<Rightarrow> 'w \<Rightarrow> bool) \<Rightarrow>
     (Tag \<Rightarrow> MaybeControls \<Rightarrow> (SearchItem \<times> Control list) list) \<Rightarrow> (Tag \<Rightarrow> MaybeControls \<Rightarrow> bool) \<Rightarrow>
     Tag \<Rightarrow> RawControl list \<Rightarrow> i32 \<Rightarrow> nat \<Rightarrow> LdapResult \<Rightarrow> ResultEntry list \<Rightarrow> SearchStream \<Rightarrow> 'w \<Rightarrow> bool" where
  "paged_src feeds answer ok req ctrls sz n res es s w \<longleftrightarrow>
     (\<exists>ch es0 r c ps. feeds (n + length ps) ch (replies es0 r [page_control c]) w \<and> reading ch s \<and> length c < 2 ^ 63 \<and>
       (if c = [] then ps = [] else pages answer ok req ctrls sz c ps) \<and>
       es = es0 @ concat (map fst ps) \<and> res = last (r # map (\<lambda>(_, r, _). r) ps))"

lemma paged_srcI:
  "feeds (n + length ps) ch (replies es0 r [page_control c]) w \<Longrightarrow> reading ch s \<Longrightarrow> length c < 2 ^ 63 \<Longrightarrow>
    (if c = [] then ps = [] else pages answer ok req ctrls sz c ps) \<Longrightarrow>
    paged_src feeds answer ok req ctrls sz n (last (r # map (\<lambda>(_, r, _). r) ps)) (es0 @ concat (map fst ps)) s w"
  unfolding paged_src_def by blast

lemma paged_src_place:
  "paged_src feeds answer ok req ctrls sz n res es s w \<Longrightarrow>
    paged_src feeds answer ok req ctrls sz n res es (s\<lparr> ss_ax := k, ss_adapters := A \<rparr>) w"
  "paged_src feeds answer ok req ctrls sz n res es s w \<Longrightarrow>
    paged_src feeds answer ok req ctrls sz n res es (s\<lparr> ss_ax := k \<rparr>) w"
  by (simp_all add: paged_src_def reading_def)

lemma paged_src_active: "paged_src feeds answer ok req ctrls sz n res es s w \<Longrightarrow> ss_state s = Active"
  by (auto simp: paged_src_def reading_def)

context search_server
begin

lemma next_page_more:
  assumes "nom_streaming_doc S" and "paging N h ctrls req sz p" and "ss_res s = Some (r\<lparr> lr_ctrls := [page_control c] \<rparr>)"
    and "c \<noteq> []" and "length c < 2 ^ 63" and "idle (Suc n) w" and "pages answer request_ok req ctrls sz c ((es, r', nx) # ps)"
  shows "\<exists>ldap ch w'. next_page T N S p s w = Some (Inr (s\<lparr> ss_ldap := ldap, ss_rx := Some ch \<rparr>, w')) \<and>
    feeds n ch (replies es r' [page_control nx]) w'"
proof -
  obtain raw pr where raw: "page_control c = Control (Some CT_PagedResults) raw"
    "RawControl_parse (PagedResults_parse S) raw = Some pr" "pr_cookie pr = c"
    using page_control_parse [OF assms(1,5)] by blast
  obtain rc where rc: "PagedResults_into \<lparr> pr_size = sz, pr_cookie = c \<rparr> = Some rc" "request_ok req (Some (ctrls @ [rc]))"
    "answer req (Some (ctrls @ [rc])) = replies es r' [page_control nx]"
    using assms(7) by auto
  obtain ft attrs where p: "pa_page_size p = sz" "pa_ldap p = Some h" "controls h = Some ctrls" "timeout h = None"
    "parse N (pa_filter p) = Some (Ok ft)" "pa_attrs p = Some attrs" "req = request_of h (pa_base p) (pa_scope p) ft attrs"
    using assms(2) by (auto simp: paging_def)
  let ?h = "(Ldap_clone h)\<lparr> timeout := timeout h, search_opts := search_opts h, controls := Some (ctrls @ [rc]) \<rparr>"
  have "request_of ?h (pa_base p) (pa_scope p) ft attrs = req" by (simp add: request_of_def p(7))
  then obtain s2 ch w2 h2 where "streaming_search T N (pa_base p) (pa_scope p) (pa_filter p) attrs ?h w = Some (Ok s2, h2, w2)"
    "ss_rx s2 = Some ch" "feeds n ch (replies es r' [page_control nx]) w2"
    using streaming_search_ok [OF assms(6) _ p(5), of ?h] rc p(4) by fastforce
  with raw rc(1) p assms(3,4) show ?thesis by (simp add: next_page_def Let_def) blast
qed

lemma next_page_last:
  assumes "nom_streaming_doc S" and "ss_res s = Some (r\<lparr> lr_ctrls := [page_control []] \<rparr>)"
  shows "next_page T N S p s w = Some (Inl (Ok None, s\<lparr> ss_res := Some (r\<lparr> lr_ctrls := [] \<rparr>) \<rparr>, w))"
  using page_control_parse [OF assms(1), of "[]"] assms(2) by (auto simp: next_page_def vec_remove_def)

text \<open>At the end of a page the loop of the adapter goes on with the next one.\<close>

lemma paged_loop_more:
  assumes "nom_streaming_doc S" and "paging N h ctrls req sz p" and "feeds (Suc n) ch (replies [] r [page_control c]) w"
    and "reading ch s" and "at_place (length as) as s" and "c \<noteq> []" and "length c < 2 ^ 63"
    and "pages answer request_ok req ctrls sz c ((es, r', nx) # ps)"
  shows "\<exists>s2 ch2 w2. paged_loop T N S (next_at 0 T N S) p s w = paged_loop T N S (next_at 0 T N S) p s2 w2 \<and>
    feeds n ch2 (replies es r' [page_control nx]) w2 \<and> reading ch2 s2 \<and> at_place (length as) as s2"
proof -
  let ?s = "ended r [page_control c] s"
  obtain w' where w': "next_at 0 T N S s w = Some (Ok None, ?s, ch_drop_rx T ch w')" "feeds (Suc n) ch [] w'"
    using src.direct_end [OF assms(3,4), of 0 N S] assms(5) by (auto simp: at_place_def)
  obtain ldap ch2 w2 where n: "next_page T N S p ?s (ch_drop_rx T ch w') = Some (Inr (?s\<lparr> ss_ldap := ldap, ss_rx := Some ch2 \<rparr>, w2))"
    "feeds n ch2 (replies es r' [page_control nx]) w2"
    using next_page_more [OF assms(1,2) _ assms(6,7) drained [OF w'(2)] assms(8), of ?s r] by (auto simp: ended_def)
  have "paged_loop T N S (next_at 0 T N S) p s w =
      paged_loop T N S (next_at 0 T N S) p (?s\<lparr> ss_ldap := ldap, ss_rx := Some ch2 \<rparr>) w2"
    using w'(1) n(1) by (subst paged_loop.simps) simp
  moreover have "reading ch2 (?s\<lparr> ss_ldap := ldap, ss_rx := Some ch2 \<rparr>)" using assms(4) by (simp add: reading_def ended_def)
  ultimately show ?thesis using n(2) assms(5) by (metis at_place_simps(1,2,5))
qed

lemma paged_loop_next:
  assumes "nom_streaming_doc S" and "paging N h ctrls req sz p"
  shows "feeds (n + length ps) ch (replies es0 r [page_control c]) w \<Longrightarrow> reading ch s \<Longrightarrow> length c < 2 ^ 63 \<Longrightarrow>
    (if c = [] then ps = [] else pages answer request_ok req ctrls sz c ps) \<Longrightarrow>
    e # es = es0 @ concat (map fst ps) \<Longrightarrow> res = last (r # map (\<lambda>(_, r, _). r) ps) \<Longrightarrow> at_place (length as) as s \<Longrightarrow>
    \<exists>s' w'. paged_loop T N S (next_at 0 T N S) p s w = Some (Ok (Some e), s', w') \<and>
      paged_src feeds answer request_ok req ctrls sz n res es s' w' \<and> at_place (length as) as s'"
proof (induction ps arbitrary: ch es0 r c s w)
  case Nil
  then have es0: "es0 = e # es" by simp
  from src.direct_next [OF Nil(1) [unfolded es0] Nil(2), of 0 N S] Nil(7) obtain w' where
    "next_at 0 T N S s w = Some (Ok (Some e), s, w')" "feeds (n + length ([] :: page list)) ch (replies es r [page_control c]) w'"
    by (auto simp: at_place_def)
  with paged_srcI [where feeds = feeds and answer = answer and ok = request_ok, OF this(2) Nil(2-4)] Nil(6,7) show ?case by (subst paged_loop.simps) simp
next
  case (Cons pg ps)
  show ?case
  proof (cases es0)
    case es0: (Cons x xs)
    from src.direct_next [OF Cons.prems(1) [unfolded es0] Cons.prems(2), of 0 N S] Cons.prems(7) obtain w' where
      "next_at 0 T N S s w = Some (Ok (Some x), s, w')" "feeds (n + length (pg # ps)) ch (replies xs r [page_control c]) w'"
      by (auto simp: at_place_def)
    with paged_srcI [where feeds = feeds and answer = answer and ok = request_ok, OF this(2) Cons.prems(2-4)] Cons.prems(5-7) es0 show ?thesis
      by (subst paged_loop.simps) simp
  next
    case Nil
    obtain es' r' nx where pg: "pg = (es', r', nx)" by (cases pg)
    have c: "c \<noteq> []" and ps: "pages answer request_ok req ctrls sz c ((es', r', nx) # ps)"
      using Cons.prems(4) pg by (auto split: if_splits)
    from Cons.prems(1) Nil have "feeds (Suc (n + length ps)) ch (replies [] r [page_control c]) w" by simp
    from paged_loop_more [OF assms this Cons.prems(2,7) c Cons.prems(3) ps] obtain s2 ch2 w2 where
      s2: "paged_loop T N S (next_at 0 T N S) p s w = paged_loop T N S (next_at 0 T N S) p s2 w2" "feeds (n + length ps) ch2 (replies es' r' [page_control nx]) w2" "reading ch2 s2" "at_place (length as) as s2"
      by blast
    show ?thesis
      unfolding s2(1) by (rule Cons.IH [OF s2(2,3) _ _ _ _ s2(4)]) (use ps Nil Cons.prems pg in auto)
  qed
qed

lemma paged_loop_end:
  assumes "nom_streaming_doc S" and "paging N h ctrls req sz p"
  shows "feeds (n + length ps) ch (replies [] r [page_control c]) w \<Longrightarrow> reading ch s \<Longrightarrow> length c < 2 ^ 63 \<Longrightarrow>
    (if c = [] then ps = [] else pages answer request_ok req ctrls sz c ps) \<Longrightarrow>
    concat (map fst ps) = [] \<Longrightarrow> res = last (r # map (\<lambda>(_, r, _). r) ps) \<Longrightarrow> at_place (length as) as s \<Longrightarrow>
    \<exists>s' w'. paged_loop T N S (next_at 0 T N S) p s w = Some (Ok None, s', w') \<and>
      stream_done (idle n) (res\<lparr> lr_ctrls := [] \<rparr>) s' w' \<and> at_place (length as) as s'"
proof (induction ps arbitrary: ch r c s w)
  case Nil
  then have c: "c = []" by (simp split: if_splits)
  from src.direct_end [OF Nil(1,2), of 0 N S] Nil(7) obtain w' where
    "next_at 0 T N S s w = Some (Ok None, ended r [page_control []] s, ch_drop_rx T ch w')" "feeds n ch [] w'"
    by (auto simp: at_place_def c)
  moreover have "next_page T N S p (ended r [page_control []] s) v = Some (Inl (Ok None, (ended r [page_control []] s)\<lparr> ss_res := Some (r\<lparr> lr_ctrls := [] \<rparr>) \<rparr>, v))" for v
    using next_page_last [OF assms(1), of "ended r [page_control []] s" r N p v] by (simp add: ended_def)
  ultimately show ?case
    using Nil(2,6,7) drained by (subst paged_loop.simps) (simp add: stream_done_def ended_def reading_def at_place_def)
next
  case (Cons pg ps)
  obtain es' r' nx where pg: "pg = (es', r', nx)" by (cases pg)
  have c: "c \<noteq> []" and ps: "pages answer request_ok req ctrls sz c ((es', r', nx) # ps)" and e: "es' = []"
    using Cons.prems(4,5) pg by (auto split: if_splits)
  from Cons.prems(1) have "feeds (Suc (n + length ps)) ch (replies [] r [page_control c]) w" by simp
  from paged_loop_more [OF assms this Cons.prems(2,7) c Cons.prems(3) ps] obtain s2 ch2 w2 where
    s2: "paged_loop T N S (next_at 0 T N S) p s w = paged_loop T N S (next_at 0 T N S) p s2 w2" "feeds (n + length ps) ch2 (replies [] r' [page_control nx]) w2" "reading ch2 s2" "at_place (length as) as s2"
    unfolding e by blast
  show ?case
    unfolding s2(1) by (rule Cons.IH [OF s2(2,3) _ _ _ _ s2(4)]) (use ps Cons.prems pg in auto)
qed

lemma paged_src_source:
  assumes "nom_streaming_doc S" and "paging N h ctrls req sz p"
  shows "entry_source (paged_loop T N S (next_at 0 T N S) p)
    (\<lambda>es s w. paged_src feeds answer request_ok req ctrls sz n res es s w \<and> at_place (length as) as s)
    (\<lambda>s w. stream_done (idle n) (res\<lparr> lr_ctrls := [] \<rparr>) s w \<and> at_place (length as) as s)"
proof (unfold_locales, goal_cases)
  case (1 e es s w)
  then show ?case using paged_loop_next [OF assms] unfolding paged_src_def by blast
next
  case (2 s w)
  then show ?case using paged_loop_end [OF assms] unfolding paged_src_def by (metis append_is_Nil_conv)
qed

text \<open>\<open>next\<close> with \<open>PagedResults\<close> at the end of a chain.\<close>

lemma next_at_paged:
  assumes "ss_state s = Active" and "at_place (length as) (as @ [Paged p]) s"
    and "paged_loop T N S (next_at 0 T N S) p (s\<lparr> ss_ax := Suc (length as) \<rparr>) w = Some (r, s', w')"
    and "at_place (Suc (length as)) (as @ [Paged p]) s'"
  shows "next_at (Suc 0) T N S s w = Some (r, after_next r (s'\<lparr> ss_ax := length as \<rparr>), w')"
proof -
  have "s'\<lparr> ss_ax := length as \<rparr> = s'\<lparr> ss_ax := length as, ss_adapters := as @ [Paged p] \<rparr>"
    using assms(4) by (cases s') (simp add: at_place_def)
  moreover have "next_at (Suc 0) T N S s w =
      Some (r, after_next r (s'\<lparr> ss_ax := length as, ss_adapters := as @ [Paged p] \<rparr>), w')"
    using assms by (simp add: next_at.simps [of "Suc 0"] at_place_def call_adapter_def vec_index_def adapter_next_def Let_def)
  ultimately show ?thesis by (rule ssubst)
qed

lemma paged_source:
  assumes "nom_streaming_doc S" and "paging N h ctrls req sz p"
  shows "entry_source (next_at (Suc 0) T N S)
    (\<lambda>es s w. paged_src feeds answer request_ok req ctrls sz n res es s w \<and> at_place (length as) (as @ [Paged p]) s)
    (\<lambda>s w. \<exists>s0. stream_done (idle n) (res\<lparr> lr_ctrls := [] \<rparr>) s0 w \<and> at_place (length as) (as @ [Paged p]) s0 \<and>
      s = (if as = [] then s0\<lparr> ss_state := Done \<rparr> else s0))"
proof
  let ?src = "paged_src feeds answer request_ok req ctrls sz n res" and ?as = "as @ [Paged p]"
  note loop = paged_src_source [OF assms, of n res ?as, simplified]
  fix s w
  {
    fix e es
    assume s: "?src (e # es) s w \<and> at_place (length as) ?as s"
    then have "?src (e # es) (s\<lparr> ss_ax := Suc (length as) \<rparr>) w \<and> at_place (Suc (length as)) ?as (s\<lparr> ss_ax := Suc (length as) \<rparr>)"
      by (simp add: paged_src_place(2) at_place_def)
    from entry_source.next_entry [OF loop this] obtain s' w' where
      s': "paged_loop T N S (next_at 0 T N S) p (s\<lparr> ss_ax := Suc (length as) \<rparr>) w = Some (Ok (Some e), s', w')"
        "?src es s' w'" "at_place (Suc (length as)) ?as s'" by blast
    from next_at_paged [OF paged_src_active [OF conjunct1 [OF s]] conjunct2 [OF s] s'(1,3)] have "next_at (Suc 0) T N S s w = Some (Ok (Some e), s'\<lparr> ss_ax := length as \<rparr>, w')"
      by (simp add: after_next_def)
    then show "\<exists>s' w'. next_at (Suc 0) T N S s w = Some (Ok (Some e), s', w') \<and> ?src es s' w' \<and> at_place (length as) ?as s'"
      using paged_src_place(2) [OF s'(2)] s'(3) by (auto simp: at_place_def)
  next
    assume s: "?src [] s w \<and> at_place (length as) ?as s"
    then have "?src [] (s\<lparr> ss_ax := Suc (length as) \<rparr>) w \<and> at_place (Suc (length as)) ?as (s\<lparr> ss_ax := Suc (length as) \<rparr>)"
      by (simp add: paged_src_place(2) at_place_def)
    from entry_source.next_end [OF loop this] obtain s' w' where
      s': "paged_loop T N S (next_at 0 T N S) p (s\<lparr> ss_ax := Suc (length as) \<rparr>) w = Some (Ok None, s', w')"
        "stream_done (idle n) (res\<lparr> lr_ctrls := [] \<rparr>) s' w'" "at_place (Suc (length as)) ?as s'" by blast
    let ?s = "s'\<lparr> ss_ax := length as \<rparr>"
    from next_at_paged [OF paged_src_active [OF conjunct1 [OF s]] conjunct2 [OF s] s'(1,3)] have "next_at (Suc 0) T N S s w =
        Some (Ok None, if as = [] then ?s\<lparr> ss_state := Done \<rparr> else ?s, w')"
      by (simp add: after_next_def)
    moreover have "stream_done (idle n) (res\<lparr> lr_ctrls := [] \<rparr>) ?s w'" "at_place (length as) ?as ?s"
      using s'(2,3) by (simp_all add: stream_done_def at_place_def)
    ultimately show "\<exists>s' w'. next_at (Suc 0) T N S s w = Some (Ok None, s', w') \<and>
        (\<exists>s0. stream_done (idle n) (res\<lparr> lr_ctrls := [] \<rparr>) s0 w' \<and> at_place (length as) ?as s0 \<and>
          s' = (if as = [] then s0\<lparr> ss_state := Done \<rparr> else s0))" by blast
  }
qed

lemma streaming_search_paged:
  assumes "as = [] \<or> as = [EntriesOnly []]" and "idle (Suc n) w" and "timeout h = None" and "parse N filt = Some (Ok ft)"
    and "(case controls h of Some cs \<Rightarrow> cs | None \<Rightarrow> []) = ctrls" and "list_all (\<lambda>c. ctype c \<noteq> PAGED_RESULTS_OID) ctrls"
    and "pages answer request_ok (request_of h base scope ft attrs) ctrls sz [] ((es, r, nx) # ps)"
  shows "\<exists>s ch hp p w'. streaming_search_with T N (as @ [PagedResults_new sz]) base scope filt attrs h w =
      Some (Ok s, h\<lparr> controls := None, search_opts := None \<rparr>, w') \<and>
    reading ch s \<and> ss_ax s = 0 \<and> ss_adapters s = as @ [Paged p] \<and> paging N hp ctrls (request_of h base scope ft attrs) sz p \<and>
    feeds n ch (replies es r [page_control nx]) w'"
proof -
  obtain rc where rc: "PagedResults_into \<lparr> pr_size = sz, pr_cookie = [] \<rparr> = Some rc"
    "request_ok (request_of h base scope ft attrs) (Some (ctrls @ [rc]))"
    "answer (request_of h base scope ft attrs) (Some (ctrls @ [rc])) = replies es r [page_control nx]"
    using assms(7) by auto
  define l where "l = (Ldap_clone h)\<lparr> controls := controls h, timeout := timeout h, search_opts := search_opts h \<rparr>"
  define hp where "hp = (Ldap_clone l)\<lparr> timeout := timeout l, search_opts := search_opts l, controls := Some ctrls \<rparr>"
  define p where "p = \<lparr> pa_page_size = sz, pa_ldap = Some hp, pa_base = base, pa_scope = scope, pa_filter = filt, pa_attrs = Some attrs \<rparr>"
  define s0 where "s0 = (SearchStream_new (l\<lparr> controls := Some (ctrls @ [rc]) \<rparr>) (as @ [PagedResults_new sz]))\<lparr> ss_ax := Suc (length as) \<rparr>"
  have req: "request_of (ss_ldap s0) base scope ft attrs = request_of h base scope ft attrs"
    "controls (ss_ldap s0) = Some (ctrls @ [rc])" "timeout (ss_ldap s0) = None"
    using assms(3) by (simp_all add: s0_def l_def SearchStream_new_def request_of_def)
  obtain ch i w' where start: "start_inner T N base scope filt attrs s0 w =
      Some (Ok (), s0\<lparr> ss_timeout := None, ss_rx := Some ch,
        ss_ldap := (ss_ldap s0)\<lparr> search_opts := None, last_id := i, controls := None \<rparr>, ss_state := Active \<rparr>, w')"
    "feeds n ch (replies es r [page_control nx]) w'"
    using start_inner_ok [OF assms(2) req(3) assms(4), where base = base and scope = scope and attrs = attrs, unfolded req(1,2)]
      rc(2,3) by auto
  have flt: "filter (\<lambda>c. ctype c \<noteq> PAGED_RESULTS_OID) ctrls = ctrls" "\<not> list_ex (\<lambda>c. ctype c = PAGED_RESULTS_OID) ctrls"
    using assms(6) by (auto simp: list_all_iff list_ex_iff filter_id_conv)
  define s where "s = s0\<lparr> ss_timeout := None, ss_rx := Some ch,
    ss_ldap := (ss_ldap s0)\<lparr> search_opts := None, last_id := i, controls := None \<rparr>, ss_state := Active, ss_ax := 0, ss_adapters := as @ [Paged p] \<rparr>"
  have "streaming_search_with T N (as @ [PagedResults_new sz]) base scope filt attrs h w =
      Some (Ok s, h\<lparr> controls := None, search_opts := None \<rparr>, w')"
    using start(1) flt rc(1) assms(1,3,5)
    by (elim disjE) (simp_all add: EntriesOnly_start_def vec_index_def streaming_search_with_def stream_start_def start_at.simps SearchStream_new_def call_adapter_def
        PagedResults_new_def PagedResults_start_def fail_state_def Let_def s_def s0_def l_def p_def hp_def)
  moreover have "reading ch s" "ss_ax s = 0" "ss_adapters s = as @ [Paged p]" by (simp_all add: s_def reading_def)
  moreover have "paging N hp ctrls (request_of h base scope ft attrs) sz p"
    using assms(3,4) by (simp add: paging_def p_def hp_def l_def request_of_def)
  ultimately show ?thesis using start(2) by blast
qed

text \<open>Searches with the \<open>PagedResults\<close> adapter, alone or behind \<open>EntriesOnly\<close>, read to the end and finished.\<close>

lemma paged_start:
  assumes "as = [] \<or> as = [EntriesOnly []]" and "idle (n + length ps) w" and "timeout h = None" and "parse N filt = Some (Ok ft)"
    and "(case controls h of Some cs \<Rightarrow> cs | None \<Rightarrow> []) = ctrls" and "list_all (\<lambda>c. ctype c \<noteq> PAGED_RESULTS_OID) ctrls"
    and "pages answer request_ok (request_of h base scope ft attrs) ctrls sz [] ps"
  shows "\<exists>s hp p w1. streaming_search_with T N (as @ [PagedResults_new sz]) base scope filt attrs h w =
      Some (Ok s, h\<lparr> controls := None, search_opts := None \<rparr>, w1) \<and> at_place 0 (as @ [Paged p]) s \<and>
    paging N hp ctrls (request_of h base scope ft attrs) sz p \<and>
    paged_src feeds answer request_ok (request_of h base scope ft attrs) ctrls sz n (fst (snd (last ps))) (concat (map fst ps)) s w1"
proof -
  obtain es r nx ps' where ps: "ps = (es, r, nx) # ps'" using assms(7) by (cases ps) auto
  have "idle (Suc (n + length ps')) w" using assms(2) ps by simp
  from streaming_search_paged [OF assms(1) this assms(3-6) assms(7) [unfolded ps]] obtain s ch hp p w1 where
    s: "streaming_search_with T N (as @ [PagedResults_new sz]) base scope filt attrs h w =
      Some (Ok s, h\<lparr> controls := None, search_opts := None \<rparr>, w1)"
    and rd: "reading ch s" "ss_ax s = 0" "ss_adapters s = as @ [Paged p]"
    and pg: "paging N hp ctrls (request_of h base scope ft attrs) sz p"
    and f: "feeds (n + length ps') ch (replies es r [page_control nx]) w1"
    by blast
  have nx: "length nx < 2 ^ 63"
    "if nx = [] then ps' = [] else pages answer request_ok (request_of h base scope ft attrs) ctrls sz nx ps'"
    using assms(7) by (simp_all add: ps)
  have "last (r # map (\<lambda>(_, r, _). r) ps') = fst (snd (last ps))"
    by (cases ps' rule: rev_cases) (auto simp: ps case_prod_beta)
  with paged_srcI [where feeds = feeds and answer = answer and ok = request_ok, OF f rd(1) nx]
  have "paged_src feeds answer request_ok (request_of h base scope ft attrs) ctrls sz n (fst (snd (last ps))) (concat (map fst ps)) s w1"
    by (simp add: ps)
  with s pg rd(2,3) show ?thesis by (auto simp: at_place_def)
qed

lemma paged_search_returns:
  assumes "nom_streaming_doc S" and "idle (n + length ps) w" and "timeout h = None" and "parse N filt = Some (Ok ft)"
    and "(case controls h of Some cs \<Rightarrow> cs | None \<Rightarrow> []) = ctrls" and "list_all (\<lambda>c. ctype c \<noteq> PAGED_RESULTS_OID) ctrls"
    and "pages answer request_ok (request_of h base scope ft attrs) ctrls sz [] ps"
  shows "\<exists>s s' w1 w2. streaming_search_with T N [PagedResults_new sz] base scope filt attrs h w =
      Some (Ok s, h\<lparr> controls := None, search_opts := None \<rparr>, w1) \<and>
    collect_loop (stream_next T N S) [] s w1 = Some (Ok (concat (map fst ps)), s', w2) \<and> idle n w2 \<and>
    (\<exists>s''. stream_finish T s' w2 = Some ((fst (snd (last ps)))\<lparr> lr_ctrls := [] \<rparr>, s'', w2))"
proof -
  obtain s hp p w1 where s: "streaming_search_with T N [PagedResults_new sz] base scope filt attrs h w =
      Some (Ok s, h\<lparr> controls := None, search_opts := None \<rparr>, w1)" "at_place 0 [Paged p] s"
    and pg: "paging N hp ctrls (request_of h base scope ft attrs) sz p"
    and src: "paged_src feeds answer request_ok (request_of h base scope ft attrs) ctrls sz n (fst (snd (last ps))) (concat (map fst ps)) s w1"
    using paged_start [of "[]", OF _ assms(2-)] by auto
  let ?P = "paged_src feeds answer request_ok (request_of h base scope ft attrs) ctrls sz n (fst (snd (last ps)))"
  have "entry_source (stream_next T N S) (\<lambda>es s w. ?P es s w \<and> at_place 0 [Paged p] s)
    (\<lambda>s w. \<exists>s0. stream_done (idle n) ((fst (snd (last ps)))\<lparr> lr_ctrls := [] \<rparr>) s0 w \<and> at_place 0 [Paged p] s0 \<and>
      s = s0\<lparr> ss_state := Done \<rparr>)"
    by (rule stream_source [OF paged_source [OF assms(1) pg, where as = "[]", simplified]]) (simp add: at_place_def)
  from entry_source.collect_all [OF this, of "concat (map fst ps)" s w1 "[]"] s(2) src obtain s0 w2 where
    c: "collect_loop (stream_next T N S) [] s w1 = Some (Ok (concat (map fst ps)), s0\<lparr> ss_state := Done \<rparr>, w2)"
      "stream_done (idle n) ((fst (snd (last ps)))\<lparr> lr_ctrls := [] \<rparr>) s0 w2" "at_place 0 [Paged p] s0"
    by force
  with s(1) finish_done(2) [OF c(2,3), where p = p and T = T and w' = w2] show ?thesis by (auto simp: stream_done_def)
qed

lemma chained_search_returns:
  assumes "nom_streaming_doc S" and "idle (n + length ps) w" and "timeout h = None" and "parse N filt = Some (Ok ft)"
    and "(case controls h of Some cs \<Rightarrow> cs | None \<Rightarrow> []) = ctrls" and "list_all (\<lambda>c. ctype c \<noteq> PAGED_RESULTS_OID) ctrls"
    and "pages answer request_ok (request_of h base scope ft attrs) ctrls sz [] ps" and "list_all refs_parse (concat (map fst ps))"
  shows "\<exists>s s' s'' w1 w2. streaming_search_with T N [EntriesOnly_new, PagedResults_new sz] base scope filt attrs h w =
      Some (Ok s, h\<lparr> controls := None, search_opts := None \<rparr>, w1) \<and>
    collect_loop (stream_next T N S) [] s w1 = Some (Ok (filter plain (concat (map fst ps))), s', w2) \<and> idle n w2 \<and>
    stream_finish T s' w2 = Some ((fst (snd (last ps)))\<lparr> lr_ctrls := [],
      lr_refs := lr_refs (fst (snd (last ps))) @ concat (map refs_of (concat (map fst ps))) \<rparr>, s'', w2)"
proof -
  let ?res = "fst (snd (last ps))" and ?es = "concat (map fst ps)"
  let ?R = "concat (map refs_of ?es)"
  obtain s hp p w1 where s: "streaming_search_with T N [EntriesOnly_new, PagedResults_new sz] base scope filt attrs h w =
      Some (Ok s, h\<lparr> controls := None, search_opts := None \<rparr>, w1)" "at_place 0 [EntriesOnly [], Paged p] s"
    and pg: "paging N hp ctrls (request_of h base scope ft attrs) sz p"
    and src: "paged_src feeds answer request_ok (request_of h base scope ft attrs) ctrls sz n ?res ?es s w1"
    using paged_start [of "[EntriesOnly []]", OF _ assms(2-7)] by (auto simp: EntriesOnly_new_def)
  let ?P = "paged_src feeds answer request_ok (request_of h base scope ft attrs) ctrls sz n ?res"
  have "entry_source (stream_next T N S)
    (\<lambda>xs s w. \<exists>es rs. xs = filter plain es \<and> list_all refs_parse es \<and> ?P es s w \<and>
      at_place 0 [EntriesOnly rs, Paged p] s \<and> rs @ concat (map refs_of es) = ?R)
    (\<lambda>s w. \<exists>s0. stream_done (idle n) (?res\<lparr> lr_ctrls := [] \<rparr>) s0 w \<and> at_place 0 [EntriesOnly ?R, Paged p] s0 \<and>
      s = s0\<lparr> ss_state := Done \<rparr>)"
    by (rule stream_source [OF entries_front [OF paged_source [OF assms(1) pg, where as = "[_]", simplified]]])
      (auto simp: at_place_def intro: source_place paged_src_place paged_src_active)
  from entry_source.collect_all [OF this, of "filter plain ?es" s w1 "[]"] s(2) src assms(8) obtain s0 w2 where
    c: "collect_loop (stream_next T N S) [] s w1 = Some (Ok (filter plain ?es), s0\<lparr> ss_state := Done \<rparr>, w2)"
      "stream_done (idle n) (?res\<lparr> lr_ctrls := [] \<rparr>) s0 w2" "at_place 0 [EntriesOnly ?R, Paged p] s0"
    by force
  with s(1) finish_done(1) [OF c(2,3), where R = ?R and p = p and T = T and w' = w2] show ?thesis
    by (auto simp: stream_done_def)
qed

end

end
