(* ===== verification/Network.thy ===== *)
theory Network
  imports Stream_Reading
begin

text \<open>
  Handles, connection, codec and a server put together. The awaited functions of the surroundings
  are given by a scheduler that lets the connection take its branches until the awaited value is
  there: scrub requests first, then requests for the certificate, operations, and messages of the
  server. Operations leave as bytes that the encoder writes; the server reads them with the decoder
  and answers each request with the messages that a function of the request and its controls
  gives, again as bytes. An await never completes when no branch is ready any more; a timeout then
  elapses.

  This composition meets the contract \<open>search_server\<close>, so the results of \<open>Stream_Reading\<close> hold for it:
  what the server sends is what the operations of the handle return.
\<close>

subsection \<open>The scheduler\<close>

record net = world +
  net_conn :: LdapConnAsync

type_synonym server = "StructureTag \<Rightarrow> Control list \<Rightarrow> (Tag \<times> MaybeControls) list"

definition run_net :: "net branch \<Rightarrow> net \<Rightarrow> net option" where
  "run_net b w = do {
     (f, c, w) \<leftarrow> b (net_conn w) w;
     Some (case f of
         Fall \<Rightarrow> w\<lparr> net_conn := c \<rparr>
       | Continue \<Rightarrow> w\<lparr> net_conn := c \<rparr>
       | _ \<Rightarrow> w\<lparr> net_conn := c, w_open := False \<rparr>)
   }"

definition reply_bytes :: "server \<Rightarrow> message \<Rightarrow> bytes" where
  "reply_bytes srv = (\<lambda>(i, tag, cs). case tag of
     Tag_StructureTag st \<Rightarrow> concat (map (\<lambda>(t, mc). wire (i, t, mc)) (srv st cs)) | _ \<Rightarrow> [])"

definition server_reads :: "nom_streaming \<Rightarrow> server \<Rightarrow> net \<Rightarrow> net" where
  "server_reads S srv w =
     (case decode_all S (w_out w) of
        None \<Rightarrow> w
      | Some (ms, rest) \<Rightarrow> w\<lparr> w_out := rest, w_in := w_in w @ concat (map (reply_bytes srv) ms) \<rparr>)"

definition poll :: "nom_streaming \<Rightarrow> server \<Rightarrow> net \<Rightarrow> net option" where
  "poll S srv w =
     (if \<not> w_open w then None
      else case w_scrubs w of
        i # is \<Rightarrow> run_net (scrub_branch channels_ref (Some i)) (w\<lparr> w_scrubs := is \<rparr>)
      | [] \<Rightarrow> (case w_miscs w of
          m # ms \<Rightarrow> run_net (misc_branch channels_ref (Some m)) (w\<lparr> w_miscs := ms \<rparr>)
        | [] \<Rightarrow> (case w_ops w of
            op # ops \<Rightarrow> map_option (server_reads S srv) (run_net (op_branch channels_ref (Some op)) (w\<lparr> w_ops := ops \<rparr>))
          | [] \<Rightarrow> (case decode_inner S (w_in w) of
              Some (Ok (Some m), rest) \<Rightarrow> run_net (resp_branch channels_ref (Some (Ok m))) (w\<lparr> w_in := rest \<rparr>)
            | _ \<Rightarrow> None))))"

abbreviation await_net :: "nom_streaming \<Rightarrow> server \<Rightarrow> (net \<Rightarrow> ('r \<times> net) option) \<Rightarrow> (net \<Rightarrow> bool) \<Rightarrow> net \<Rightarrow> ('r option \<times> net) option" where
  "await_net S srv \<equiv> await_by (poll S srv)"

abbreviation timeout_net :: "nom_streaming \<Rightarrow> server \<Rightarrow> (net \<Rightarrow> ('r \<times> net) option) \<Rightarrow> (net \<Rightarrow> bool) \<Rightarrow> net \<Rightarrow> ('r option option \<times> net) option" where
  "timeout_net S srv \<equiv> timeout_by (poll S srv)"

text \<open>A sender is held by a queued operation or by the maps of the connection.\<close>

definition result_alive :: "ticket \<Rightarrow> net \<Rightarrow> bool" where
  "result_alive t w \<longleftrightarrow> w_open w \<and> (list_ex (\<lambda>(_, _, _, _, t'). t' = t) (w_ops w) \<or>
     (\<exists>i\<in>snd (w_msgmap w). resultmap (net_conn w) i = Some t))"

definition item_alive :: "chan \<Rightarrow> net \<Rightarrow> bool" where
  "item_alive ch w \<longleftrightarrow> w_open w \<and> (list_ex (\<lambda>(_, op, _). op = Search ch) (w_ops w) \<or>
     (\<exists>i\<in>snd (w_msgmap w). searchmap (net_conn w) i = Some ch))"

definition cert_alive :: "ticket \<Rightarrow> net \<Rightarrow> bool" where
  "cert_alive t w \<longleftrightarrow> w_open w \<and> Cert t \<in> set (w_miscs w)"

definition tokio_net :: "nom_streaming \<Rightarrow> server \<Rightarrow> net tokio" where
  "tokio_net S srv = channels.extend channels_ref (tokio.fields
     (\<lambda>t. await_net S srv (get_result t) (result_alive t))
     (\<lambda>_ t. timeout_net S srv (get_result t) (result_alive t))
     (\<lambda>ch. await_net S srv (get_item ch) (item_alive ch))
     (\<lambda>_ ch. timeout_net S srv (get_item ch) (item_alive ch))
     (\<lambda>t. await_net S srv (get_cert t) (cert_alive t)))"

lemma tokio_net_simps [simp]:
  "ch_msgmap (tokio_net S srv) = w_msgmap"
  "ch_set_msgmap (tokio_net S srv) m w = w\<lparr> w_msgmap := m \<rparr>"
  "ch_oneshot (tokio_net S srv) w = (w_next w, w\<lparr> w_next := Suc (w_next w) \<rparr>)"
  "ch_unbounded (tokio_net S srv) w = (w_next w, w\<lparr> w_next := Suc (w_next w) \<rparr>)"
  "ch_send_op (tokio_net S srv) op w = (w_open w, if w_open w then w\<lparr> w_ops := w_ops w @ [op] \<rparr> else w)"
  "ch_send_scrub (tokio_net S srv) i w = (w_open w, if w_open w then w\<lparr> w_scrubs := w_scrubs w @ [i] \<rparr> else w)"
  "ch_drop_rx (tokio_net S srv) c w = w\<lparr> w_dropped := insert c (w_dropped w) \<rparr>"
  "await_result (tokio_net S srv) t w = await_net S srv (get_result t) (result_alive t) w"
  "timeout_result (tokio_net S srv) d t w = timeout_net S srv (get_result t) (result_alive t) w"
  "await_item (tokio_net S srv) c w = await_net S srv (get_item c) (item_alive c) w"
  "timeout_item (tokio_net S srv) d c w = timeout_net S srv (get_item c) (item_alive c) w"
  by (simp_all add: tokio_net_def channels.extend_def tokio.fields_def channels_ref_def)

definition net_init :: net where
  "net_init = world.extend world_init (net.fields (fst conn_pair))"

subsection \<open>The contract of the searches\<close>

text \<open>Answers to a search: items that are not final, then the final one.\<close>

fun search_replies :: "(Tag \<times> MaybeControls) list \<Rightarrow> bool" where
  "search_replies [] \<longleftrightarrow> False"
| "search_replies [(t, mc)] \<longleftrightarrow> (\<exists>it. search_item (into_structure t) = Some (it, True))"
| "search_replies ((t, mc) # ms) \<longleftrightarrow> (\<exists>it. search_item (into_structure t) = Some (it, False)) \<and> search_replies ms"

definition known_controls :: "MaybeControls \<Rightarrow> Control list" where
  "known_controls mc = map (\<lambda>rc. Control (CONTROLS (ctype rc)) rc) (case mc of None \<Rightarrow> [] | Some cs \<Rightarrow> cs)"

lemma received_eq: "received (i, t, mc) = (i, Tag_StructureTag (into_structure t), known_controls mc)"
  by (simp add: received_def known_controls_def)

definition item_msg :: "Tag \<times> MaybeControls \<Rightarrow> SearchItem \<times> Control list" where
  "item_msg = (\<lambda>(t, mc). (fst (the (search_item (into_structure t))), known_controls mc))"

definition net_answer :: "server \<Rightarrow> Tag \<Rightarrow> MaybeControls \<Rightarrow> (SearchItem \<times> Control list) list" where
  "net_answer srv req mc = map item_msg (srv (into_structure req) (known_controls mc))"

definition wires :: "RequestId \<Rightarrow> (Tag \<times> MaybeControls) list \<Rightarrow> bytes" where
  "wires i ms = concat (map (\<lambda>(t, mc). wire (i, t, mc)) ms)"

text \<open>A request and its answers fit the codec, whatever the message ID.\<close>

definition fits :: "(Tag \<times> MaybeControls) list \<Rightarrow> bool" where
  "fits ms \<longleftrightarrow> (\<forall>i. 0 < sint i \<longrightarrow> list_all (\<lambda>(t, mc). message_ok (i, t, mc)) ms)"

definition net_request_ok :: "server \<Rightarrow> Tag \<Rightarrow> MaybeControls \<Rightarrow> bool" where
  "net_request_ok srv req mc \<longleftrightarrow> fits [(req, mc)] \<and> fits (srv (into_structure req) (known_controls mc)) \<and>
     search_replies (srv (into_structure req) (known_controls mc))"

text \<open>Nothing is under way, new channel names are unused, and \<open>n\<close> more message IDs are free.\<close>

definition free_ids :: "msgmap \<Rightarrow> RequestId set" where
  "free_ids m = {i. 0 < sint i \<and> i \<notin> snd m}"

definition quiet :: "nat \<Rightarrow> net \<Rightarrow> bool" where
  "quiet n w \<longleftrightarrow> w_open w \<and> \<not> w_shut w \<and> w_scrubs w = [] \<and> w_miscs w = [] \<and> w_ops w = [] \<and> w_out w = [] \<and>
     (\<forall>c\<ge>w_next w. c \<notin> w_dropped w \<and> w_items w c = [] \<and> w_results w c = None) \<and>
     ids_ok (w_msgmap w) [] (resultmap (net_conn w)) (searchmap (net_conn w)) \<and> n \<le> card (free_ids (w_msgmap w))"

definition net_idle :: "nat \<Rightarrow> net \<Rightarrow> bool" where
  "net_idle n w \<longleftrightarrow> quiet n w \<and> w_in w = []"

text \<open>A search with the message ID \<open>i\<close>, whose items \<open>xs\<close> are still to be received from \<open>ch\<close>.\<close>

definition net_feeds_at :: "RequestId \<Rightarrow> nat \<Rightarrow> chan \<Rightarrow> (SearchItem \<times> Control list) list \<Rightarrow> net \<Rightarrow> bool" where
  "net_feeds_at i n ch xs w \<longleftrightarrow> quiet n w \<and> ch < w_next w \<and> ch \<notin> w_dropped w \<and>
     (\<exists>ms. w_in w = wires i ms \<and> list_all (\<lambda>(t, mc). message_ok (i, t, mc)) ms \<and>
       (ms \<noteq> [] \<longrightarrow> searchmap (net_conn w) i = Some ch \<and> search_replies ms) \<and> xs = w_items w ch @ map item_msg ms)"

definition net_feeds :: "nat \<Rightarrow> chan \<Rightarrow> (SearchItem \<times> Control list) list \<Rightarrow> net \<Rightarrow> bool" where
  "net_feeds n ch xs w \<longleftrightarrow> (\<exists>i. net_feeds_at i n ch xs w)"

definition unregistered :: "RequestId \<Rightarrow> LdapConnAsync \<Rightarrow> LdapConnAsync" where
  "unregistered i c = c\<lparr> searchmap := (searchmap c)(i := None) \<rparr>"

lemma wires_Nil_iff [simp]: "wires i ms = [] \<longleftrightarrow> ms = []"
  using ber_ne by (cases ms) (auto simp: wires_def wire_def split: prod.split)

lemma search_replies_Cons:
  assumes "search_replies ((t, mc) # ms)"
  obtains it where "search_item (into_structure t) = Some (it, ms = [])" "ms \<noteq> [] \<longrightarrow> search_replies ms"
  using assms by (cases ms) auto

context nom_streaming_doc
begin

text \<open>A message of the server is taken when nothing else is to be done.\<close>

lemma poll_message:
  assumes "quiet n w" and "w_in w = wires i ((t, mc) # ms)" and "message_ok (i, t, mc)"
  shows "poll S srv w = run_net (resp_branch channels_ref (Some (Ok (received (i, t, mc))))) (w\<lparr> w_in := wires i ms \<rparr>)"
  using decode_inner_message [OF assms(3), of "wires i ms"] assms(1,2)
  by (simp add: poll_def quiet_def wires_def wire_def)

lemma net_receive_at:
  assumes "net_feeds_at i n ch (x # xs) w"
  shows "\<exists>w'. await_item (tokio_net S srv) ch w = Some (Some x, w') \<and> net_feeds_at i n ch xs w' \<and> w_msgmap w' = w_msgmap w \<and>
    net_conn w' = (if w_in w \<noteq> [] \<and> w_in w' = [] then unregistered i (net_conn w) else net_conn w) \<and>
    (w_in w = [] \<longrightarrow> w_in w' = [])"
proof -
  from assms obtain ms where q: "quiet n w" "ch < w_next w" "ch \<notin> w_dropped w"
    and ms: "w_in w = wires i ms" "list_all (\<lambda>(t, mc). message_ok (i, t, mc)) ms"
      "ms \<noteq> [] \<longrightarrow> searchmap (net_conn w) i = Some ch \<and> search_replies ms" "x # xs = w_items w ch @ map item_msg ms"
    by (auto simp: net_feeds_at_def)
  show ?thesis
  proof (cases "w_items w ch")
    case (Cons y ys)
    let ?w = "w\<lparr> w_items := (w_items w)(ch := ys) \<rparr>"
    have "get_item ch w = Some (x, ?w)" using Cons ms(4) by (simp add: get_item_def)
    moreover have "net_feeds_at i n ch xs ?w"
      unfolding net_feeds_at_def using q ms Cons by (auto simp: quiet_def intro!: exI [of _ ms])
    ultimately show ?thesis by (auto simp: await_by_get)
  next
    case Nil
    then obtain t mc ms' where m: "ms = (t, mc) # ms'" "x = item_msg (t, mc)" "xs = map item_msg ms'"
      using ms(4) by (cases ms) auto
    then have "search_replies ((t, mc) # ms')" using ms(3) by simp
    then obtain it where it: "search_item (into_structure t) = Some (it, ms' = [])" "ms' \<noteq> [] \<longrightarrow> search_replies ms'"
      by (rule search_replies_Cons)
    have s: "searchmap (net_conn w) i = Some ch" using ms(3) m by simp
    let ?c = "if ms' = [] then unregistered i (net_conn w) else net_conn w"
    let ?w = "w\<lparr> w_in := wires i ms', w_items := (w_items w)(ch := [x]), net_conn := ?c \<rparr>"
    have "poll S srv w = Some ?w"
      using poll_message [OF q(1) ms(1) [unfolded m(1)]] ms(2) m it s q(3) Nil
      by (simp add: received_eq run_net_def Let_def item_msg_def unregistered_def)
    moreover have "item_alive ch w" using s q(1) by (auto simp: item_alive_def quiet_def ids_ok_def)
    ultimately have "await_net S srv (get_item ch) (item_alive ch) w = await_net S srv (get_item ch) (item_alive ch) ?w"
      by (intro await_by_poll) (simp_all add: get_item_def Nil)
    also have "\<dots> = Some (Some x, ?w\<lparr> w_items := (w_items w)(ch := []) \<rparr>)"
      by (rule await_by_get) (simp add: get_item_def)
    moreover have "net_feeds_at i n ch xs (?w\<lparr> w_items := (w_items w)(ch := []) \<rparr>)"
      unfolding net_feeds_at_def using q ms(2) m it s
      by (auto simp: quiet_def unregistered_def ids_ok_done intro!: exI [of _ ms'])
    ultimately show ?thesis using ms(1) m(1) by auto
  qed
qed

text \<open>Submitting a request allocates an ID.\<close>

lemma submit_open:
  assumes "w_open w" and "w_ops w = []" and "0 \<le> sint (fst (w_msgmap w))" and "free_ids (w_msgmap w) \<noteq> {}"
  shows "\<exists>i. 0 < sint i \<and> i \<notin> snd (w_msgmap w) \<and>
    op_submit (tokio_net S srv) op req h (w\<lparr> w_next := m \<rparr>) = Some (Ok m, h\<lparr> last_id := i, controls := None \<rparr>,
      w\<lparr> w_next := Suc m, w_msgmap := (i, insert i (snd (w_msgmap w))), w_ops := [(i, op, req, controls h, m)] \<rparr>)"
proof -
  obtain l ids where m: "w_msgmap w = (l, ids)" by (cases "w_msgmap w")
  obtain f where "0 < sint f" "f \<notin> ids" using assms(4) m by (auto simp: free_ids_def)
  then obtain i where i: "next_msgid (tokio_net S srv) (w\<lparr> w_next := m \<rparr>) =
      Some (i, w\<lparr> w_next := m, w_msgmap := (i, insert i ids) \<rparr>)" "i \<notin> ids" "0 < sint i"
    using next_msgid_first [of "tokio_net S srv" "w\<lparr> w_next := m \<rparr>" l ids f] assms(3) m by auto
  with assms m show ?thesis by (intro exI [of _ i]) (simp add: op_submit_def Let_def)
qed

lemma submit_net:
  assumes "quiet (Suc n) w"
  shows "\<exists>i. 0 < sint i \<and> i \<notin> snd (w_msgmap w) \<and>
    op_submit (tokio_net S srv) op req h (w\<lparr> w_next := m \<rparr>) = Some (Ok m, h\<lparr> last_id := i, controls := None \<rparr>,
      w\<lparr> w_next := Suc m, w_msgmap := (i, insert i (snd (w_msgmap w))), w_ops := [(i, op, req, controls h, m)] \<rparr>)"
proof -
  have "free_ids (w_msgmap w) \<noteq> {}" using assms by (auto simp: quiet_def)
  then show ?thesis using assms by (intro submit_open) (simp_all add: quiet_def ids_ok_def)
qed

lemma free_ids_insert: "0 < sint i \<Longrightarrow> i \<notin> ids \<Longrightarrow> Suc n \<le> card (free_ids (l, ids)) \<Longrightarrow> n \<le> card (free_ids (i, insert i ids))"
proof -
  assume "0 < sint i" "i \<notin> ids" "Suc n \<le> card (free_ids (l, ids))"
  moreover have "free_ids (i, insert i ids) = free_ids (l, ids) - {i}" by (auto simp: free_ids_def)
  ultimately show ?thesis by (simp add: free_ids_def card_Diff_singleton)
qed

lemma ids_registered:
  "quiet n w \<Longrightarrow> 0 < sint i \<Longrightarrow> i \<notin> snd (w_msgmap w) \<Longrightarrow>
    ids_ok (i, insert i (snd (w_msgmap w))) [i] (resultmap (net_conn w)) (searchmap (net_conn w))"
  using ids_ok_submit [of "w_msgmap w" "[]"] by (simp add: quiet_def)

text \<open>The connection sends an operation, and the server answers.\<close>

lemma send_net:
  assumes "message_ok (i, req, mc)" and "\<not> w_shut w" and "w_out w = []"
  shows "send_ref (i, req, mc) w = Some (Ok (), w\<lparr> w_out := wire (i, req, mc) \<rparr>)"
  using encode_wire [OF _ assms(1), of plain_codec no_gssapi "[]"] assms(2,3) by (simp add: send_ref_def plain_codec_def)

lemma server_reads_net:
  assumes "message_ok (i, req, mc)" and "w_out w = wire (i, req, mc)"
  shows "server_reads S srv w =
    w\<lparr> w_out := [], w_in := w_in w @ wires i (srv (into_structure req) (known_controls mc)) \<rparr>"
  using decode_all_wire [OF assms(1), of "[]"] assms(2)
  by (simp add: server_reads_def decode_all_Nil reply_bytes_def received_eq wires_def)

lemma poll_search:
  assumes "w_open w" "\<not> w_shut w" "w_scrubs w = []" "w_miscs w = []" "w_out w = []" "w_in w = []"
    and "w_ops w = [(i, Search ch, req, mc, tx)]" and "message_ok (i, req, mc)" and "tx \<notin> w_dropped w"
  shows "poll S srv w = Some (w\<lparr> w_ops := [], w_out := [], w_results := (w_results w)(tx \<mapsto> (Null, [])),
    net_conn := (net_conn w)\<lparr> searchmap := (searchmap (net_conn w))(i \<mapsto> ch) \<rparr>,
    w_in := wires i (srv (into_structure req) (known_controls mc)) \<rparr>)"
  using assms server_reads_net [OF assms(8)] send_net [OF assms(8), of "w\<lparr> w_ops := [] \<rparr>"]
  by (simp add: poll_def run_net_def null_result_def Let_def)

lemma poll_single:
  assumes "w_open w" "\<not> w_shut w" "w_scrubs w = []" "w_miscs w = []" "w_out w = []" "w_in w = []"
    and "w_ops w = [(i, Single, req, mc, tx)]" and "message_ok (i, req, mc)"
  shows "poll S srv w = Some (w\<lparr> w_ops := [], w_out := [],
    net_conn := (net_conn w)\<lparr> resultmap := (resultmap (net_conn w))(i \<mapsto> tx) \<rparr>,
    w_in := wires i (srv (into_structure req) (known_controls mc)) \<rparr>)"
  using assms server_reads_net [OF assms(8)] send_net [OF assms(8), of "w\<lparr> w_ops := [] \<rparr>"]
  by (simp add: poll_def run_net_def Let_def)

lemma op_call_await:
  assumes "timeout h = None" and "op_submit T op req h w = Some (Ok rx, h\<lparr> last_id := i, controls := None \<rparr>, w1)"
    and "await_result T rx w1 = Some (Some (tag, cs), w2)" and "LdapResultExt_from tag = Some (res, exop, creds)"
  shows "op_call T op req h w = Some (Ok (res\<lparr> lr_ctrls := cs \<rparr>, exop, creds), h\<lparr> last_id := i, controls := None \<rparr>, w2)"
  using assms by (simp add: op_call_def await_ok_def op_response_def)

lemma net_search_call_at:
  assumes "net_idle (Suc n) w" and "timeout h = None" and "net_request_ok srv req (controls h)"
  shows "\<exists>ch w1 x i w'. ch_unbounded (tokio_net S srv) w = (ch, w1) \<and>
    op_call (tokio_net S srv) (Search ch) req h w1 = Some (Ok x, h\<lparr> last_id := i, controls := None \<rparr>, w') \<and>
    net_feeds_at i n ch (net_answer srv req (controls h)) w' \<and> i \<notin> snd (w_msgmap w) \<and>
    w_msgmap w' = (i, insert i (snd (w_msgmap w))) \<and> w_in w' \<noteq> [] \<and>
    net_conn w' = (net_conn w)\<lparr> searchmap := (searchmap (net_conn w))(i \<mapsto> ch) \<rparr>"
proof -
  have q: "quiet (Suc n) w" "w_in w = []" using assms(1) by (simp_all add: net_idle_def)
  let ?ch = "w_next w" and ?tx = "Suc (w_next w)"
  obtain i where i: "0 < sint i" "i \<notin> snd (w_msgmap w)"
    and sub: "op_submit (tokio_net S srv) (Search ?ch) req h (w\<lparr> w_next := ?tx \<rparr>) = Some (Ok ?tx, h\<lparr> last_id := i, controls := None \<rparr>,
      w\<lparr> w_next := Suc ?tx, w_msgmap := (i, insert i (snd (w_msgmap w))), w_ops := [(i, Search ?ch, req, controls h, ?tx)] \<rparr>)"
    using submit_net [OF q(1)] by blast
  define w1 where "w1 = w\<lparr> w_next := Suc ?tx, w_msgmap := (i, insert i (snd (w_msgmap w))),
    w_ops := [(i, Search ?ch, req, controls h, ?tx)] \<rparr>"
  define ms where "ms = srv (into_structure req) (known_controls (controls h))"
  have ok: "message_ok (i, req, controls h)" "list_all (\<lambda>(t, mc). message_ok (i, t, mc)) ms" "search_replies ms"
    using assms(3) i(1) by (auto simp: net_request_ok_def fits_def ms_def)
  define w2 where "w2 = w1\<lparr> w_ops := [], w_out := [], w_results := (w_results w1)(?tx \<mapsto> (Null, [])),
    net_conn := (net_conn w1)\<lparr> searchmap := (searchmap (net_conn w1))(i \<mapsto> ?ch) \<rparr>, w_in := wires i ms \<rparr>"
  have "poll S srv w1 = Some w2"
    unfolding w2_def ms_def by (rule poll_search) (use q ok(1) in \<open>simp_all add: w1_def quiet_def\<close>)
  moreover have "get_result ?tx w1 = None" "result_alive ?tx w1"
    using q by (auto simp: get_result_def result_alive_def w1_def quiet_def)
  ultimately have "await_result (tokio_net S srv) ?tx w1 = await_net S srv (get_result ?tx) (result_alive ?tx) w2"
    by (simp add: await_by_poll)
  also have "\<dots> = Some (Some (Null, []), w2)" by (rule await_by_get) (simp add: get_result_def w2_def)
  finally have call: "op_call (tokio_net S srv) (Search ?ch) req h (w\<lparr> w_next := ?tx \<rparr>) =
      Some (Ok (empty_result\<lparr> lr_ctrls := [] \<rparr>, \<lparr> ex_name = None, ex_val = None \<rparr>, None), h\<lparr> last_id := i, controls := None \<rparr>, w2)"
    using op_call_await [OF assms(2) sub] unfolding w1_def by (simp add: LdapResultExt_from_def Null_def)
  from ids_registered [OF q(1) i] have "ids_ok (i, insert i (snd (w_msgmap w))) [] (resultmap (net_conn w)) ((searchmap (net_conn w))(i \<mapsto> ?ch))"
    by (rule ids_ok_search)
  moreover have "n \<le> card (free_ids (i, insert i (snd (w_msgmap w))))"
    using free_ids_insert [OF i, of n "fst (w_msgmap w)"] q(1) by (simp add: quiet_def)
  ultimately have "net_feeds_at i n ?ch (map item_msg ms) w2"
    unfolding net_feeds_at_def using q ok
    by (auto simp: w2_def w1_def quiet_def intro!: exI [of _ ms])
  moreover have "w_msgmap w2 = (i, insert i (snd (w_msgmap w)))" "w_in w2 \<noteq> []"
    "net_conn w2 = (net_conn w)\<lparr> searchmap := (searchmap (net_conn w))(i \<mapsto> ?ch) \<rparr>"
    using ok(3) by (auto simp: w2_def w1_def)
  ultimately show ?thesis
    using call i(2) by (intro exI [of _ ?ch] exI [of _ "w\<lparr> w_next := ?tx \<rparr>"] exI [of _ i] exI [of _ w2]) (auto simp: net_answer_def ms_def)
qed

lemma net_drained:
  assumes "net_feeds n ch [] w"
  shows "net_idle n (ch_drop_rx (tokio_net S srv) ch w)"
  using assms by (auto simp: net_feeds_def net_feeds_at_def net_idle_def quiet_def wires_def)

lemma net_receive: "net_feeds n ch (x # xs) w \<Longrightarrow> \<exists>w'. await_item (tokio_net S srv) ch w = Some (Some x, w') \<and> net_feeds n ch xs w'"
  unfolding net_feeds_def using net_receive_at by blast

lemma net_search_call:
  "net_idle (Suc n) w \<Longrightarrow> timeout h = None \<Longrightarrow> net_request_ok srv req (controls h) \<Longrightarrow>
    \<exists>ch w1 x i w'. ch_unbounded (tokio_net S srv) w = (ch, w1) \<and>
      op_call (tokio_net S srv) (Search ch) req h w1 = Some (Ok x, h\<lparr> last_id := i, controls := None \<rparr>, w') \<and>
      net_feeds n ch (net_answer srv req (controls h)) w'"
  unfolding net_feeds_def using net_search_call_at [of n w h srv req] by blast

end

sublocale nom_streaming_doc \<subseteq> net: search_server "tokio_net S srv" net_feeds net_idle "net_request_ok srv" "net_answer srv" for srv
  by unfold_locales (rule net_receive, assumption, rule net_search_call, assumption+, rule net_drained)

text \<open>
  The same contract with an account of the message IDs: after the searches since the connection was in the state
  \<open>c\<close> with the used IDs \<open>U\<close>, one more ID is used for each of them, while the registrations are those of \<open>c\<close>,
  with the search under way added as long as its messages have not all been taken.
\<close>

definition ids_kept :: "RequestId set \<Rightarrow> nat \<Rightarrow> nat \<Rightarrow> net \<Rightarrow> bool" where
  "ids_kept U k n w \<longleftrightarrow> U \<subseteq> snd (w_msgmap w) \<and> card (snd (w_msgmap w) - U) + n = k"

definition leaky_idle :: "LdapConnAsync \<Rightarrow> RequestId set \<Rightarrow> nat \<Rightarrow> nat \<Rightarrow> net \<Rightarrow> bool" where
  "leaky_idle c U k n w \<longleftrightarrow> net_idle n w \<and> ids_kept U k n w \<and> net_conn w = c"

definition leaky_feeds ::
    "LdapConnAsync \<Rightarrow> RequestId set \<Rightarrow> nat \<Rightarrow> nat \<Rightarrow> chan \<Rightarrow> (SearchItem \<times> Control list) list \<Rightarrow> net \<Rightarrow> bool" where
  "leaky_feeds c U k n ch xs w \<longleftrightarrow> (\<exists>i. net_feeds_at i n ch xs w \<and> ids_kept U k n w \<and> searchmap c i = None \<and>
     net_conn w = (if w_in w = [] then c else c\<lparr> searchmap := (searchmap c)(i \<mapsto> ch) \<rparr>))"

context nom_streaming_doc
begin

lemma leaky_receive:
  assumes "leaky_feeds c U k n ch (x # xs) w"
  shows "\<exists>w'. await_item (tokio_net S srv) ch w = Some (Some x, w') \<and> leaky_feeds c U k n ch xs w'"
proof -
  obtain i where i: "net_feeds_at i n ch (x # xs) w" "ids_kept U k n w" "searchmap c i = None"
    "net_conn w = (if w_in w = [] then c else c\<lparr> searchmap := (searchmap c)(i \<mapsto> ch) \<rparr>)"
    using assms by (auto simp: leaky_feeds_def)
  from net_receive_at [OF i(1)] obtain w' where
    w': "await_item (tokio_net S srv) ch w = Some (Some x, w')" "net_feeds_at i n ch xs w'" "w_msgmap w' = w_msgmap w"
      "net_conn w' = (if w_in w \<noteq> [] \<and> w_in w' = [] then unregistered i (net_conn w) else net_conn w)" "w_in w = [] \<longrightarrow> w_in w' = []"
    by blast
  have "net_conn w' = (if w_in w' = [] then c else c\<lparr> searchmap := (searchmap c)(i \<mapsto> ch) \<rparr>)"
    using w'(4,5) i(3,4) by (auto simp: unregistered_def fun_upd_idem)
  with w' i show ?thesis by (auto simp: leaky_feeds_def ids_kept_def)
qed

lemma leaky_search_call:
  assumes "leaky_idle c U k (Suc n) w" and "timeout h = None" and "net_request_ok srv req (controls h)"
  shows "\<exists>ch w1 x i w'. ch_unbounded (tokio_net S srv) w = (ch, w1) \<and>
    op_call (tokio_net S srv) (Search ch) req h w1 = Some (Ok x, h\<lparr> last_id := i, controls := None \<rparr>, w') \<and>
    leaky_feeds c U k n ch (net_answer srv req (controls h)) w'"
proof -
  have idle: "net_idle (Suc n) w" and k: "ids_kept U k (Suc n) w" and c: "net_conn w = c"
    using assms(1) by (simp_all add: leaky_idle_def)
  obtain ch w1 x i w' where call: "ch_unbounded (tokio_net S srv) w = (ch, w1)"
    "op_call (tokio_net S srv) (Search ch) req h w1 = Some (Ok x, h\<lparr> last_id := i, controls := None \<rparr>, w')"
    and w': "net_feeds_at i n ch (net_answer srv req (controls h)) w'" "i \<notin> snd (w_msgmap w)"
      "w_msgmap w' = (i, insert i (snd (w_msgmap w)))" "w_in w' \<noteq> []"
      "net_conn w' = c\<lparr> searchmap := (searchmap c)(i \<mapsto> ch) \<rparr>"
    using net_search_call_at [OF idle assms(2,3)] unfolding c by blast
  have "insert i (snd (w_msgmap w)) - U = insert i (snd (w_msgmap w) - U)" using k w'(2) by (auto simp: ids_kept_def)
  then have "ids_kept U k n w'" using k w'(2,3) by (auto simp: ids_kept_def)
  moreover have "searchmap c i = None" using idle c w'(2) by (auto simp: net_idle_def quiet_def ids_ok_def)
  ultimately have "leaky_feeds c U k n ch (net_answer srv req (controls h)) w'" using w' by (auto simp: leaky_feeds_def)
  with call show ?thesis by blast
qed

lemma leaky_drained:
  assumes "leaky_feeds c U k n ch [] w"
  shows "leaky_idle c U k n (ch_drop_rx (tokio_net S srv) ch w)"
proof -
  have "net_idle n (ch_drop_rx (tokio_net S srv) ch w)"
    using assms by (intro net_drained) (auto simp: leaky_feeds_def net_feeds_def)
  then show ?thesis using assms by (auto simp: leaky_idle_def leaky_feeds_def net_feeds_at_def ids_kept_def)
qed

end

sublocale nom_streaming_doc \<subseteq> leak: search_server "tokio_net S srv" "leaky_feeds c U k" "leaky_idle c U k" "net_request_ok srv" "net_answer srv"
  for srv c U k
  by unfold_locales (rule leaky_receive, assumption, rule leaky_search_call, assumption+, rule leaky_drained)

subsection \<open>Operations from end to end\<close>

context nom_streaming_doc
begin

lemma net_op_call:
  assumes "net_idle (Suc n) w" and "timeout h = None" and "fits [(req, controls h)]"
    and "srv (into_structure req) (known_controls (controls h)) = [(Tag_StructureTag (response_tag k r e creds), mc)]"
    and "fits [(Tag_StructureTag (response_tag k r e creds), mc)]" and "utf8_response r e"
  shows "\<exists>i w'. net_idle (Suc n) w' \<and> op_call (tokio_net S srv) Single req h w =
    Some (Ok (r\<lparr> lr_ctrls := known_controls mc \<rparr>, e, creds), h\<lparr> last_id := i, controls := None \<rparr>, w')"
proof -
  let ?resp = "Tag_StructureTag (response_tag k r e creds)"
  have q: "quiet (Suc n) w" "w_in w = []" using assms(1) by (simp_all add: net_idle_def)
  let ?tx = "w_next w"
  obtain i where i: "0 < sint i" "i \<notin> snd (w_msgmap w)"
    and sub: "op_submit (tokio_net S srv) Single req h (w\<lparr> w_next := ?tx \<rparr>) = Some (Ok ?tx, h\<lparr> last_id := i, controls := None \<rparr>,
      w\<lparr> w_next := Suc ?tx, w_msgmap := (i, insert i (snd (w_msgmap w))), w_ops := [(i, Single, req, controls h, ?tx)] \<rparr>)"
    using submit_net [OF q(1)] by blast
  define w1 where "w1 = w\<lparr> w_next := Suc ?tx, w_msgmap := (i, insert i (snd (w_msgmap w))),
    w_ops := [(i, Single, req, controls h, ?tx)] \<rparr>"
  have ok: "message_ok (i, req, controls h)" "message_ok (i, ?resp, mc)"
    using assms(3,5) i(1) by (auto simp: fits_def)
  define w2 where "w2 = w1\<lparr> w_ops := [], w_out := [],
    net_conn := (net_conn w1)\<lparr> resultmap := (resultmap (net_conn w1))(i \<mapsto> ?tx) \<rparr>, w_in := wires i [(?resp, mc)] \<rparr>"
  have p1: "poll S srv w1 = Some w2"
    unfolding w2_def assms(4) [symmetric] by (rule poll_single) (use q ok(1) in \<open>simp_all add: w1_def quiet_def\<close>)
  from ids_registered [OF q(1) i] have ids: "ids_ok (i, insert i (snd (w_msgmap w))) [] ((resultmap (net_conn w))(i \<mapsto> ?tx)) (searchmap (net_conn w))"
    by (rule ids_ok_single)
  then have q2: "quiet 0 w2" and s: "searchmap (net_conn w) i = None"
    using q(1) by (auto simp: w2_def w1_def quiet_def ids_ok_def)
  define w3 where "w3 = w2\<lparr> w_in := [], w_results := (w_results w2)(?tx \<mapsto> (Tag_StructureTag (into_structure ?resp), known_controls mc)),
    w_msgmap := (i, snd (w_msgmap w)), net_conn := (net_conn w2)\<lparr> resultmap := (resultmap (net_conn w2))(i := None) \<rparr> \<rparr>"
  have p2: "poll S srv w2 = Some w3"
    using poll_message [OF q2 _ ok(2), of "[]"] s q(1) i(2)
    by (simp add: received_eq run_net_def w3_def w2_def w1_def quiet_def wires_def)
  have "get_result ?tx w1 = None" "result_alive ?tx w1" "get_result ?tx w2 = None" "result_alive ?tx w2"
    using q by (auto simp: get_result_def result_alive_def w1_def w2_def quiet_def)
  then have "await_result (tokio_net S srv) ?tx w1 = await_net S srv (get_result ?tx) (result_alive ?tx) w3"
    using p1 p2 by (simp add: await_by_poll)
  also have "\<dots> = Some (Some (?resp, known_controls mc), w3)" by (rule await_by_get) (simp add: get_result_def w3_def)
  finally have "op_call (tokio_net S srv) Single req h w =
      Some (Ok ((r\<lparr> lr_ctrls := [] \<rparr>)\<lparr> lr_ctrls := known_controls mc \<rparr>, e, creds), h\<lparr> last_id := i, controls := None \<rparr>, w3)"
    using op_call_await [OF assms(2) sub] response_parsed [OF assms(6), of k creds] unfolding w1_def by simp
  moreover have "net_idle (Suc n) w3"
    using q ids_ok_answered [OF ids, of i ?tx] i(2)
    by (auto simp: net_idle_def w3_def w2_def w1_def quiet_def free_ids_def)
  ultimately show ?thesis by auto
qed

lemmas net_search_returns = net.search_returns
lemmas leak_search_returns = leak.search_returns
lemmas net_paged_search_returns = net.paged_search_returns
lemmas net_chained_search_returns = net.chained_search_returns

end

subsection \<open>Examples\<close>

definition msg_weight :: "Tag \<times> MaybeControls \<Rightarrow> nat" where
  "msg_weight = (\<lambda>(t, mc). weight (into_structure t) +
     (case mc of None \<Rightarrow> 0 | Some cs \<Rightarrow> 10 + sum_list (map (\<lambda>rc. weight (build_tag rc)) cs)))"

definition msg_shape :: "Tag \<times> MaybeControls \<Rightarrow> bool" where
  "msg_shape = (\<lambda>(t, mc). st_class (into_structure t) \<noteq> Context \<and> low_ids (into_structure t) \<and>
     (case mc of None \<Rightarrow> True | Some cs \<Rightarrow> list_all (\<lambda>rc. utf8_valid (ctype rc)) cs))"

lemma message_ok_weight:
  assumes "0 \<le> sint i" and "msg_shape (t, mc)" and "msg_weight (t, mc) < 2 ^ 63"
  shows "message_ok (i, t, mc)"
proof -
  have "low_ids (message_tag i t mc)"
    using assms(2) by (auto simp: message_tag_def msg_shape_def opsimps low_ids_i_e low_ids_build_tag list_all_iff split: option.splits)
  moreover have "weight (message_tag i t mc) < 2 ^ 64"
    using assms(3) weight_i_e [of 2 Universal "scast i"]
    by (auto simp: message_tag_def msg_weight_def opsimps o_def split: option.splits)
  ultimately have "ber_ok (message_tag i t mc)" by (rule ber_ok_weight)
  with assms show ?thesis by (auto simp: message_ok_def msg_shape_def split: option.splits)
qed

lemma fits_weight: "list_all (\<lambda>m. msg_shape m \<and> msg_weight m < 2 ^ 63) ms \<Longrightarrow> fits ms"
  by (auto simp: fits_def list_all_iff less_imp_le intro!: message_ok_weight)

definition example_handle :: Ldap where
  "example_handle = fst (snd conn_pair)"

definition no_exop :: Exop where
  "no_exop = \<lparr> ex_name = None, ex_val = None \<rparr>"

definition example_done :: "u64 \<Rightarrow> StructureTag" where
  "example_done k = response_tag k empty_result no_exop None"

definition example_entry :: "bytes \<Rightarrow> StructureTag" where
  "example_entry dn = StructureTag Application 4 (PL_C [octets dn, StructureTag Universal 16 (PL_C [])])"

definition example_referral :: StructureTag where
  "example_referral = StructureTag Application 19 (PL_C [octets (str ''ldap://x'')])"

text \<open>A server that confirms deletions and answers searches with two entries and a referral.\<close>

definition example_server :: server where
  "example_server st cs =
     (if st_id st = 3 then [(Tag_StructureTag (example_entry (str ''o=a'')), None), (Tag_StructureTag example_referral, None),
        (Tag_StructureTag (example_entry (str ''o=b'')), None), (Tag_StructureTag (example_done 5), None)]
      else [(Tag_StructureTag (example_done 11), None)])"

lemma net_init_idle: "net_idle 1000 net_init"
proof -
  have "free_ids (0, {}) = {i. 0 < sint i}" by (simp add: free_ids_def)
  moreover have "(\<lambda>k. word_of_nat (Suc k) :: i32) ` {..<1000} \<subseteq> {i. 0 < sint i}"
  proof
    fix x assume "x \<in> (\<lambda>k. word_of_nat (Suc k) :: i32) ` {..<1000}"
    then obtain k where k: "x = word_of_nat (Suc k)" "k < 1000" by auto
    then have "unat x = Suc k" by (simp add: unat_of_nat take_bit_nat_eq_self del: of_nat_Suc)
    with k(2) show "x \<in> {i. 0 < sint i}" by (simp add: sint_pos_unat)
  qed
  moreover have "inj_on (\<lambda>k. word_of_nat (Suc k) :: i32) {..<1000}"
    by (rule inj_onI) (auto simp: word_of_nat_eq_iff take_bit_nat_eq_self simp del: of_nat_Suc)
  ultimately have "1000 \<le> card (free_ids (0, {}))"
    using card_mono [of "{i :: i32. 0 < sint i}" "(\<lambda>k. word_of_nat (Suc k) :: i32) ` {..<1000}"]
    by (simp add: card_image)
  then show ?thesis
    by (simp add: net_idle_def quiet_def net_init_def world.extend_def net.fields_def world_init_def conn_pair_def ids_ok_def)
qed

subsection \<open>Properties\<close>

text \<open>
  Claim C2. Operations from end to end: for any server that answers a request with one response, an
  operation on an idle connection returns exactly the result, extended response and credentials of
  that response with its controls, whatever the bytes in between; the controls of the handle are
  used up, and the connection is idle again with no message ID lost.
\<close>

theorem operation_end_to_end:
  assumes "nom_streaming_doc S" and "net_idle (Suc n) w" and "timeout h = None" and "fits [(req, controls h)]"
    and "srv (into_structure req) (known_controls (controls h)) = [(Tag_StructureTag (response_tag k r e creds), mc)]"
    and "fits [(Tag_StructureTag (response_tag k r e creds), mc)]" and "utf8_response r e"
  shows "\<exists>i w'. net_idle (Suc n) w' \<and> op_call (tokio_net S srv) Single req h w =
    Some (Ok (r\<lparr> lr_ctrls := known_controls mc \<rparr>, e, creds), h\<lparr> last_id := i, controls := None \<rparr>, w')"
  using assms(2-) by (rule nom_streaming_doc.net_op_call [OF assms(1)])

lemma example_delete_fits:
  "fits [(Tag_OctetString 10 Application (str ''o=x''), None)]"
  "fits [(Tag_StructureTag (example_done k), None)]" if "k \<le> 30"
  using that weight_i_e [of 10 Universal 0]
  by (auto intro!: fits_weight simp: msg_shape_def msg_weight_def example_done_def response_tag_def empty_result_def no_exop_def
      octets_def low_ids_i_e)

theorem operation_end_to_end_witness:
  "\<exists>i w'. net_idle 1000 w' \<and>
    op_call (tokio_net nom_streaming_ref example_server) Single (Tag_OctetString 10 Application (str ''o=x'')) example_handle net_init =
    Some (Ok (empty_result\<lparr> lr_ctrls := known_controls None \<rparr>, no_exop, None), example_handle\<lparr> last_id := i, controls := None \<rparr>, w')"
  using operation_end_to_end [OF nsr.nom_streaming_doc_axioms, of 999 net_init example_handle
      "Tag_OctetString 10 Application (str ''o=x'')" example_server 11 empty_result no_exop None None]
    net_init_idle example_delete_fits(1) [of 0] example_delete_fits(2) [of 11, unfolded example_done_def]
  by (simp add: example_handle_def conn_pair_def example_server_def example_done_def utf8_response_def empty_result_def no_exop_def)

text \<open>
  Claim C1. Searches from end to end: for any server that answers the request of a search with
  entries, referrals and intermediate messages \<open>es\<close> and then the result \<open>r\<close>, \<open>search\<close> returns the
  entries in the order in which they were sent, drops the intermediate messages, and returns the
  result with its controls and with the URLs of all referrals collected in its \<open>refs\<close>.
\<close>

theorem search_end_to_end:
  assumes "nom_streaming_doc S" and "net_idle (Suc n) w" and "timeout h = None" and "parse N filt = Some (Ok ft)"
    and "net_request_ok srv (request_of h base scope ft attrs) (controls h)"
    and "net_answer srv (request_of h base scope ft attrs) (controls h) = replies es r cs" and "list_all refs_parse es"
  shows "\<exists>w'. net_idle n w' \<and> Ldap_search (tokio_net S srv) N S base scope filt attrs h w =
    Some (Ok (SearchResult (filter plain es) (r\<lparr> lr_ctrls := cs, lr_refs := lr_refs r @ concat (map refs_of es) \<rparr>)),
      h\<lparr> controls := None, search_opts := None \<rparr>, w')"
  using assms(2-) by (rule nom_streaming_doc.net_search_returns [OF assms(1)])

definition example_filter :: Tag where
  "example_filter = Tag_OctetString 7 Context (str ''a'')"

lemma example_parse: "parse nom_complete_ref (str ''(a=*)'') = Some (Ok example_filter)"
  by code_simp

definition example_base :: bytes where
  "example_base = str ''o=x''"

abbreviation example_request :: Tag where
  "example_request \<equiv> request_of example_handle example_base Subtree example_filter []"

lemma example_request_shape:
  "msg_shape (example_request, None)" "weight (into_structure example_request) < 1000" "st_id (into_structure example_request) = 3"
  using weight_i_e [of 10 Universal 2] weight_i_e [of 10 Universal 0] weight_i_e [of 2 Universal 0]
  by (simp_all add: msg_shape_def example_filter_def example_base_def request_of_def search_req_def example_handle_def conn_pair_def
      SearchOptions_new_def opsimps low_ids_i_e)

lemma search_item_done: "search_item (example_done 5) = Some (Item_Done empty_result, True)"
  using response_parsed [of empty_result no_exop 5 None]
  by (simp add: search_item_def example_done_def LdapResult_from_def utf8_response_def empty_result_def no_exop_def)
    (simp add: response_tag_def)

definition example_messages :: "ResultEntry list" where
  "example_messages = [ResultEntry (example_entry (str ''o=a'')) [], ResultEntry example_referral [],
     ResultEntry (example_entry (str ''o=b'')) []]"

lemma example_search:
  "net_request_ok example_server example_request None"
  "net_answer example_server example_request None = replies example_messages empty_result []"
proof -
  have srv: "example_server (into_structure example_request) cs = [(Tag_StructureTag (example_entry (str ''o=a'')), None),
      (Tag_StructureTag example_referral, None), (Tag_StructureTag (example_entry (str ''o=b'')), None),
      (Tag_StructureTag (example_done 5), None)]" for cs
    using example_request_shape(3) by (simp add: example_server_def)
  have items: "search_item (example_entry dn) = Some (Item_Entry (example_entry dn), False)"
    "search_item example_referral = Some (Item_Referral example_referral, False)" for dn
    by (simp_all add: search_item_def example_entry_def example_referral_def)
  have "fits [(example_request, None)]"
    by (rule fits_weight) (use example_request_shape in \<open>simp add: msg_weight_def\<close>)
  moreover have "fits (example_server (into_structure example_request) (known_controls None))"
    unfolding srv using weight_i_e [of 10 Universal 0]
    by (intro fits_weight) (simp add: msg_shape_def msg_weight_def example_entry_def example_referral_def octets_def
        example_done_def response_tag_def empty_result_def no_exop_def low_ids_i_e)
  ultimately show "net_request_ok example_server example_request None"
    by (simp add: net_request_ok_def srv items search_item_done)
  show "net_answer example_server example_request None = replies example_messages empty_result []"
    by (simp add: net_answer_def srv item_msg_def items search_item_done known_controls_def replies_def item_of_def is_ref_def
        example_messages_def) (simp add: example_entry_def example_referral_def)
qed

theorem search_end_to_end_witness:
  "\<exists>w'. net_idle 999 w' \<and>
    Ldap_search (tokio_net nom_streaming_ref example_server) nom_complete_ref nom_streaming_ref example_base Subtree (str ''(a=*)'') []
      example_handle net_init =
    Some (Ok (SearchResult [ResultEntry (example_entry (str ''o=a'')) [], ResultEntry (example_entry (str ''o=b'')) []]
        (empty_result\<lparr> lr_refs := [str ''ldap://x''] \<rparr>)),
      example_handle\<lparr> controls := None, search_opts := None \<rparr>, w')"
proof -
  have ref: "parse_refs example_referral = Some [str ''ldap://x'']"
    unfolding example_referral_def using parse_refs_octets [of "[str ''ldap://x'']"] by (simp add: is_ascii_def)
  have ids: "is_ref (ResultEntry (example_entry dn) cs) = False" "is_intermediate (ResultEntry (example_entry dn) cs) = False"
    "is_ref (ResultEntry example_referral cs)" for dn cs
    by (simp_all add: is_ref_def is_intermediate_def example_entry_def example_referral_def)
  show ?thesis
    using search_end_to_end [OF nsr.nom_streaming_doc_axioms _ _ example_parse, of 999 net_init example_handle example_server
        example_base Subtree "[]" example_messages empty_result "[]"] net_init_idle example_search
    by (simp add: refs_parse_def ids ref plain_def refs_of_def example_handle_def conn_pair_def empty_result_def example_messages_def)
qed

text \<open>
  Claim C3. Paged searches from end to end: for a handle with any controls but Paged Results,
  or with none, and for any server that answers the requests of a paged search page by page, from the empty cookie of the first request along the cookies it returns, a
  stream with the \<open>PagedResults\<close> adapter that is read to the end yields the entries of all pages
  in order, and \<open>finish\<close> returns the result of the last page without its Paged Results control.
\<close>

theorem paged_search_end_to_end:
  assumes "nom_streaming_doc S" and "net_idle (n + length ps) w" and "timeout h = None" and "parse N filt = Some (Ok ft)"
    and "(case controls h of Some cs \<Rightarrow> cs | None \<Rightarrow> []) = ctrls" and "list_all (\<lambda>c. ctype c \<noteq> PAGED_RESULTS_OID) ctrls"
    and "pages (net_answer srv) (net_request_ok srv) (request_of h base scope ft attrs) ctrls sz [] ps"
  shows "\<exists>s s' w1 w2. streaming_search_with (tokio_net S srv) N [PagedResults_new sz] base scope filt attrs h w =
      Some (Ok s, h\<lparr> controls := None, search_opts := None \<rparr>, w1) \<and>
    collect_loop (stream_next (tokio_net S srv) N S) [] s w1 = Some (Ok (concat (map fst ps)), s', w2) \<and> net_idle n w2 \<and>
    (\<exists>s''. stream_finish (tokio_net S srv) s' w2 = Some ((fst (snd (last ps)))\<lparr> lr_ctrls := [] \<rparr>, s'', w2))"
  using assms by (rule nom_streaming_doc.net_paged_search_returns [OF assms(1)])

definition paged_rc :: "bytes \<Rightarrow> RawControl" where
  "paged_rc v = \<lparr> ctype = PAGED_RESULTS_OID, crit = False, ctl_val = Some v \<rparr>"

lemma paged_rcs:
  "PagedResults_into \<lparr> pr_size = 10, pr_cookie = [] \<rparr> = Some (paged_rc [48, 5, 2, 1, 10, 4, 0])"
  "PagedResults_into \<lparr> pr_size = 10, pr_cookie = [1] \<rparr> = Some (paged_rc [48, 6, 2, 1, 10, 4, 1, 1])"
  "PagedResults_into \<lparr> pr_size = 0, pr_cookie = [] \<rparr> = Some (paged_rc [48, 5, 2, 1, 0, 4, 0])"
  "PagedResults_into \<lparr> pr_size = 0, pr_cookie = [1] \<rparr> = Some (paged_rc [48, 6, 2, 1, 0, 4, 1, 1])"
  by code_simp+

text \<open>A server with two pages of one entry each.\<close>

definition page_server :: server where
  "page_server st cs =
     (if cs = known_controls (Some [paged_rc [48, 5, 2, 1, 10, 4, 0]])
      then [(Tag_StructureTag (example_entry (str ''o=a'')), None),
            (Tag_StructureTag (example_done 5), Some [paged_rc [48, 6, 2, 1, 0, 4, 1, 1]])]
      else [(Tag_StructureTag (example_entry (str ''o=b'')), None),
            (Tag_StructureTag (example_done 5), Some [paged_rc [48, 5, 2, 1, 0, 4, 0]])])"

lemma known_paged_rc: "known_controls (Some [paged_rc v]) = [Control (Some CT_PagedResults) (paged_rc v)]"
  by (simp add: known_controls_def paged_rc_def CONTROLS_def oid_defs)

lemma page_shape:
  "length v < 100 \<Longrightarrow> msg_shape (Tag_StructureTag (example_done 5), Some [paged_rc v]) \<and>
     msg_weight (Tag_StructureTag (example_done 5), Some [paged_rc v]) < 2 ^ 63"
  "length v < 100 \<Longrightarrow> msg_shape (example_request, Some [paged_rc v]) \<and> msg_weight (example_request, Some [paged_rc v]) < 2 ^ 63"
  "length dn < 100 \<Longrightarrow> msg_shape (Tag_StructureTag (example_entry dn), None) \<and>
     msg_weight (Tag_StructureTag (example_entry dn), None) < 2 ^ 63"
  using weight_i_e [of 10 Universal 0] example_request_shape
  by (simp_all add: msg_shape_def msg_weight_def example_done_def example_entry_def octets_def response_tag_def empty_result_def no_exop_def
      paged_rc_def build_tag_def low_ids_i_e opsimps oid_defs is_ascii_def Let_def)

lemma example_pages:
  "pages (net_answer page_server) (net_request_ok page_server) example_request [] 10 []
     [([ResultEntry (example_entry (str ''o=a'')) []], empty_result, [1]),
      ([ResultEntry (example_entry (str ''o=b'')) []], empty_result, [])]"
proof -
  have items: "search_item (example_entry dn) = Some (Item_Entry (example_entry dn), False)" for dn
    by (simp add: search_item_def example_entry_def)
  have entry: "item_of (ResultEntry (example_entry dn) []) = (Item_Entry (example_entry dn), [])" for dn
    by (simp add: item_of_def is_ref_def example_entry_def)
  have ctl: "page_control [1] = Control (Some CT_PagedResults) (paged_rc [48, 6, 2, 1, 0, 4, 1, 1])"
    "page_control [] = Control (Some CT_PagedResults) (paged_rc [48, 5, 2, 1, 0, 4, 0])"
    by (simp_all add: page_control_def paged_rcs)
  have page: "net_request_ok page_server example_request (Some [paged_rc v]) \<and>
      net_answer page_server example_request (Some [paged_rc v]) = replies [ResultEntry (example_entry dn) []] empty_result [page_control c]"
    if "page_server (into_structure example_request) (known_controls (Some [paged_rc v])) =
        [(Tag_StructureTag (example_entry dn), None), (Tag_StructureTag (example_done 5), Some [paged_rc u])]"
      and "page_control c = Control (Some CT_PagedResults) (paged_rc u)" and "length v < 100" "length u < 100" "length dn < 100"
    for v u dn c
  proof
    have "fits [(example_request, Some [paged_rc v])]"
      "fits [(Tag_StructureTag (example_entry dn), None), (Tag_StructureTag (example_done 5), Some [paged_rc u])]"
      by (rule fits_weight; use that(3-5) page_shape in simp)+
    then show "net_request_ok page_server example_request (Some [paged_rc v])"
      by (simp add: net_request_ok_def that(1) items search_item_done)
    show "net_answer page_server example_request (Some [paged_rc v]) = replies [ResultEntry (example_entry dn) []] empty_result [page_control c]"
      unfolding net_answer_def that(1)
      by (simp add: that(2) item_msg_def items search_item_done replies_def entry known_paged_rc)
        (simp add: known_controls_def)
  qed
  have "page_server st (known_controls (Some [paged_rc [48, 5, 2, 1, 10, 4, 0]])) =
      [(Tag_StructureTag (example_entry (str ''o=a'')), None),
       (Tag_StructureTag (example_done 5), Some [paged_rc [48, 6, 2, 1, 0, 4, 1, 1]])]"
    "page_server st (known_controls (Some [paged_rc [48, 6, 2, 1, 10, 4, 1, 1]])) =
      [(Tag_StructureTag (example_entry (str ''o=b'')), None),
       (Tag_StructureTag (example_done 5), Some [paged_rc [48, 5, 2, 1, 0, 4, 0]])]" for st
    by (simp_all add: page_server_def known_paged_rc) (simp_all add: paged_rc_def)
  from page [OF this(1) ctl(1)] page [OF this(2) ctl(2)] show ?thesis by (simp add: paged_rcs)
qed

theorem paged_search_end_to_end_witness:
  "\<exists>s s' w1 w2. streaming_search_with (tokio_net nom_streaming_ref page_server) nom_complete_ref [PagedResults_new 10] example_base Subtree
        (str ''(a=*)'') [] example_handle net_init =
      Some (Ok s, example_handle\<lparr> controls := None, search_opts := None \<rparr>, w1) \<and>
    collect_loop (stream_next (tokio_net nom_streaming_ref page_server) nom_complete_ref nom_streaming_ref) [] s w1 =
      Some (Ok [ResultEntry (example_entry (str ''o=a'')) [], ResultEntry (example_entry (str ''o=b'')) []], s', w2) \<and>
    net_idle 998 w2 \<and>
    (\<exists>s''. stream_finish (tokio_net nom_streaming_ref page_server) s' w2 = Some (empty_result\<lparr> lr_ctrls := [] \<rparr>, s'', w2))"
proof -
  let ?ps = "[([ResultEntry (example_entry (str ''o=a'')) []], empty_result, [1]),
      ([ResultEntry (example_entry (str ''o=b'')) []], empty_result, [])]"
  show ?thesis
    using paged_search_end_to_end [OF nsr.nom_streaming_doc_axioms _ _ example_parse, of 998 ?ps net_init
        example_handle "[]" page_server example_base Subtree "[]" 10] net_init_idle example_pages
    by (simp add: example_handle_def conn_pair_def)
qed

text \<open>
  Claim C36. Every search that \<open>search\<close> has read to the end and finished leaves its message ID marked as used for
  good, whatever the server and its answers: one more ID is used than before the search, although nothing is registered
  under it any more, no message is under way and no request to scrub an ID is queued. The stream is in the state
  \<open>Done\<close>, so \<open>finish\<close> does not ask for the ID to be scrubbed, and the connection has only removed the
  registration of the search.
\<close>

theorem search_leaks_id:
  assumes "nom_streaming_doc S" and "net_idle (Suc n) w" and "timeout h = None" and "parse N filt = Some (Ok ft)"
    and "net_request_ok srv (request_of h base scope ft attrs) (controls h)"
    and "net_answer srv (request_of h base scope ft attrs) (controls h) = replies es r cs" and "list_all refs_parse es"
  shows "\<exists>i res w'. Ldap_search (tokio_net S srv) N S base scope filt attrs h w =
      Some (Ok res, h\<lparr> controls := None, search_opts := None \<rparr>, w') \<and>
    i \<notin> snd (w_msgmap w) \<and> snd (w_msgmap w') = insert i (snd (w_msgmap w)) \<and>
    net_conn w' = net_conn w \<and> resultmap (net_conn w') i = None \<and> searchmap (net_conn w') i = None \<and>
    w_scrubs w' = [] \<and> w_ops w' = [] \<and> w_in w' = []"
proof -
  let ?U = "snd (w_msgmap w)"
  have "leaky_idle (net_conn w) ?U (Suc n) (Suc n) w" using assms(2) by (simp add: leaky_idle_def ids_kept_def)
  from nom_streaming_doc.leak_search_returns [OF assms(1) this assms(3-)] obtain res w' where
    s: "Ldap_search (tokio_net S srv) N S base scope filt attrs h w = Some (Ok res, h\<lparr> controls := None, search_opts := None \<rparr>, w')"
    and w': "net_idle n w'" "net_conn w' = net_conn w" "?U \<subseteq> snd (w_msgmap w')" "card (snd (w_msgmap w') - ?U) = 1"
    by (simp add: leaky_idle_def ids_kept_def) blast
  then obtain i where "snd (w_msgmap w') - ?U = {i}" by (auto simp: card_1_singleton_iff)
  then have i: "i \<notin> ?U" "snd (w_msgmap w') = insert i ?U" using w'(3) by auto
  then have "resultmap (net_conn w) i = None" "searchmap (net_conn w) i = None"
    using assms(2) by (auto simp: net_idle_def quiet_def ids_ok_def)
  with s w' i show ?thesis by (auto simp: net_idle_def quiet_def)
qed

theorem search_leaks_id_witness:
  "\<exists>i res w'. Ldap_search (tokio_net nom_streaming_ref example_server) nom_complete_ref nom_streaming_ref example_base Subtree
      (str ''(a=*)'') [] example_handle net_init = Some (Ok res, example_handle\<lparr> controls := None, search_opts := None \<rparr>, w') \<and>
    i \<notin> snd (w_msgmap net_init) \<and> snd (w_msgmap w') = insert i (snd (w_msgmap net_init)) \<and>
    searchmap (net_conn w') i = None \<and> w_scrubs w' = []"
proof -
  have "parse_refs example_referral = Some [str ''ldap://x'']"
    unfolding example_referral_def using parse_refs_octets [of "[str ''ldap://x'']"] by (simp add: is_ascii_def)
  moreover have "is_ref (ResultEntry (example_entry dn) cs) = False" for dn cs by (simp add: is_ref_def example_entry_def)
  ultimately have "list_all refs_parse example_messages" by (simp add: refs_parse_def example_messages_def)
  from search_leaks_id [OF nsr.nom_streaming_doc_axioms _ _ example_parse _ _ this, of 999 net_init example_handle example_server
      example_base Subtree "[]" empty_result "[]"] net_init_idle example_search
  show ?thesis by (simp add: example_handle_def conn_pair_def) blast
qed

lemma next_item_stream: "next_item T s w = Some (r, s', w') \<Longrightarrow> s' = s"
  by (auto simp: next_item_def bind_eq_Some_conv case_prod_beta Let_def split: option.split_asm)

lemma take_item_end:
  "take_item T itm s w = Some (Ok None, s', w') \<Longrightarrow> \<exists>res. s' = s\<lparr> ss_res := Some res, ss_rx := None \<rparr>"
  by (auto simp: take_item_def split: option.split_asm prod.split_asm SearchItem.split_asm)

text \<open>
  Claim C37. Calling \<open>next\<close> again after a stream without adapters has returned \<open>Ok(None)\<close> panics: the
  state is left at \<open>Active\<close>, not set to \<open>Done\<close>, and the receiver that the next call unwraps is gone.
\<close>

theorem direct_stream_panics:
  assumes "ss_state s = Active" and "ss_adapters s = []" and "ss_ax s = 0"
    and "stream_next T N S s w = Some (Ok None, s', w')"
  shows "stream_next T N S s' v = panic"
proof -
  have "next_inner T s w = Some (Ok None, s', w')"
    using assms by (auto simp: stream_next_def next_at.simps fail_state_def bind_eq_Some_conv split: result.split_asm)
  then obtain res where "s' = s\<lparr> ss_res := Some res, ss_rx := None \<rparr>"
    unfolding next_inner_def by (blast dest: await_ok_Ok next_item_stream take_item_end)
  then have "ss_rx s' = None" "ss_state s' = Active" "ss_adapters s' = []" "ss_ax s' = 0"
    using assms(1-3) by simp_all
  then show ?thesis
    by (auto simp: stream_next_def next_at.simps next_inner_def await_ok_def next_item_def split: option.split)
qed

theorem direct_stream_panics_witness:
  "\<exists>s s' w w'. ss_state s = Active \<and>
     stream_next (tokio_net nom_streaming_ref example_server) nom_complete_ref nom_streaming_ref s w = Some (Ok None, s', w') \<and>
     stream_next (tokio_net nom_streaming_ref example_server) nom_complete_ref nom_streaming_ref s' w' = panic"
proof -
  let ?s = "(SearchStream_new example_handle [])\<lparr> ss_state := Active, ss_rx := Some 0 \<rparr>"
  let ?w = "net_init\<lparr> w_items := (\<lambda>_. [(Item_Done empty_result, [])]) \<rparr>"
  obtain s' w' where n: "stream_next (tokio_net nom_streaming_ref example_server) nom_complete_ref nom_streaming_ref ?s ?w = Some (Ok None, s', w')"
    by (auto simp: stream_next_def next_at.simps SearchStream_new_def next_inner_def await_ok_def next_item_def await_by_get
        get_item_def take_item_def fail_state_def)
  have s: "ss_state ?s = Active" "ss_adapters ?s = []" "ss_ax ?s = 0" by (simp_all add: SearchStream_new_def)
  with n direct_stream_panics [OF s n] show ?thesis by blast
qed

end
