(* ===== verification/Op_Endings.thy ===== *)
theory Op_Endings
  imports Network
begin

text \<open>
  The ways in which an operation ends without an answer, on the composition of \<open>Network\<close>: a timeout,
  Abandon, and Unbind. When the server does not answer in time, the operation returns an error and
  asks the connection to forget it; once the connection has done so, it is as usable as before, and
  an answer that comes late is ignored. Abandon and Unbind have no answer, and the connection
  completes them itself.
\<close>

text \<open>After Unbind nothing can be written any more, and the next operation ends the connection.\<close>

definition net_unbound :: "net \<Rightarrow> bool" where
  "net_unbound w \<longleftrightarrow> w_open w \<and> w_shut w \<and> w_scrubs w = [] \<and> w_miscs w = [] \<and> w_ops w = [] \<and> w_out w = [] \<and>
     (\<forall>c\<ge>w_next w. w_results w c = None) \<and> 0 \<le> sint (fst (w_msgmap w)) \<and> free_ids (w_msgmap w) \<noteq> {}"

context nom_streaming_doc
begin

lemma decode_nothing: "decode_inner S [] = Some (Ok None, [])"
  using decode_inner_partial [of 7 "Tag_OctetString 10 Application (str ''o=x'')" "Some [ManageDsaIt_into]" 0] example_message_ok ber_ne
  by (simp add: example_message_def)

lemma net_op_timeout:
  assumes "net_idle (Suc n) w" and "timeout h = Some d" and "fits [(req, controls h)]"
    and "srv (into_structure req) (known_controls (controls h)) = []"
  shows "\<exists>i w' w''. op_call (tokio_net S srv) Single req h w =
      Some (Err Timeout, h\<lparr> last_id := i, controls := None, timeout := None \<rparr>, w') \<and>
    poll S srv w' = Some w'' \<and> net_idle (Suc n) w'' \<and>
    (\<forall>tag ctrls. run_net (resp_branch channels_ref (Some (Ok (i, tag, ctrls)))) w'' = Some w'')"
proof -
  have q: "quiet (Suc n) w" "w_in w = []" using assms(1) by (simp_all add: net_idle_def)
  let ?tx = "w_next w"
  obtain i where i: "0 < sint i" "i \<notin> snd (w_msgmap w)"
    and sub: "op_submit (tokio_net S srv) Single req h (w\<lparr> w_next := ?tx \<rparr>) = Some (Ok ?tx, h\<lparr> last_id := i, controls := None \<rparr>,
      w\<lparr> w_next := Suc ?tx, w_msgmap := (i, insert i (snd (w_msgmap w))), w_ops := [(i, Single, req, controls h, ?tx)] \<rparr>)"
    using submit_net [OF q(1)] by blast
  define w1 where "w1 = w\<lparr> w_next := Suc ?tx, w_msgmap := (i, insert i (snd (w_msgmap w))),
    w_ops := [(i, Single, req, controls h, ?tx)] \<rparr>"
  define w2 where "w2 = w1\<lparr> w_ops := [], w_out := [],
    net_conn := (net_conn w1)\<lparr> resultmap := (resultmap (net_conn w1))(i \<mapsto> ?tx) \<rparr>, w_in := [] \<rparr>"
  have "message_ok (i, req, controls h)" using assms(3) i(1) by (simp add: fits_def)
  then have p1: "poll S srv w1 = Some w2"
    using poll_single [of w1 i req "controls h" ?tx srv] q assms(4) by (simp add: w2_def w1_def quiet_def wires_def)
  have p2: "poll S srv w2 = None"
    using q by (simp add: poll_def w2_def w1_def quiet_def decode_nothing)
  have "get_result ?tx w1 = None" "result_alive ?tx w1" "get_result ?tx w2 = None" "result_alive ?tx w2"
    using q by (auto simp: get_result_def result_alive_def w1_def w2_def quiet_def)
  then have "timeout_result (tokio_net S srv) d ?tx w1 = Some (None, w2)"
    using p1 p2 by (simp add: timeout_by_poll timeout_by_elapsed)
  moreover have "w_open w2" "w_scrubs w2 = []" using q by (simp_all add: w2_def w1_def quiet_def)
  ultimately have call: "op_call (tokio_net S srv) Single req h w =
      Some (Err Timeout, h\<lparr> last_id := i, controls := None, timeout := None \<rparr>, w2\<lparr> w_scrubs := [i] \<rparr>)"
    using sub assms(2) by (simp add: op_call_def await_ok_def op_response_def w1_def [symmetric])
  define w3 where "w3 = w2\<lparr> net_conn := net_conn w, w_msgmap := (i, snd (w_msgmap w)) \<rparr>"
  have unknown: "resultmap (net_conn w) i = None" "searchmap (net_conn w) i = None"
    using q(1) i(2) by (auto simp: quiet_def ids_ok_def)
  then have "poll S srv (w2\<lparr> w_scrubs := [i] \<rparr>) = Some w3"
    using q i(2) by (cases "net_conn w") (auto simp: poll_def run_net_def forget_id_def w3_def w2_def w1_def quiet_def fun_upd_idem)
  moreover have "net_idle (Suc n) w3"
    using q i by (auto simp: net_idle_def w3_def w2_def w1_def quiet_def ids_ok_def free_ids_def)
  moreover have "run_net (resp_branch channels_ref (Some (Ok (i, tag, ctrls)))) w3 = Some w3" for tag ctrls
    using unknown by (simp add: run_net_def w3_def)
  ultimately show ?thesis using call by blast
qed

text \<open>Operations that the connection answers itself with a Null.\<close>

lemma null_call:
  assumes "op_submit (tokio_net S srv) op req h w = Some (Ok tx, h\<lparr> last_id := i, controls := None \<rparr>, w1)"
    and "get_result tx w1 = None" and "result_alive tx w1"
    and "poll S srv w1 = Some w2" and "w_results w2 tx = Some (Null, [])"
  shows "\<exists>x. op_call (tokio_net S srv) op req h w =
    Some (Ok x, h\<lparr> last_id := i, controls := None, timeout := None \<rparr>, w2)"
proof -
  have "get_result tx w2 = Some ((Null, []), w2)" using assms(5) by (simp add: get_result_def)
  then have "await_result (tokio_net S srv) tx w1 = Some (Some (Null, []), w2)"
    and "\<And>d. timeout_result (tokio_net S srv) d tx w1 = Some (Some (Some (Null, [])), w2)"
    using assms(2-4) by (simp_all add: await_by_poll await_by_get timeout_by_poll timeout_by_get)
  then show ?thesis
    using assms(1) by (cases "timeout h") (simp_all add: op_call_def await_ok_def op_response_def LdapResultExt_from_def Null_def)
qed

lemma net_abandon:
  assumes "net_idle (Suc n) w" and "fits [(Tag_Integer 16 Application (scast m), controls h)]"
    and "srv (into_structure (Tag_Integer 16 Application (scast m))) (known_controls (controls h)) = []"
  shows "\<exists>i w'. abandon (tokio_net S srv) m h w = Some (Ok (), h\<lparr> last_id := i, controls := None, timeout := None \<rparr>, w') \<and>
    net_idle (Suc n) w' \<and> resultmap (net_conn w') = (resultmap (net_conn w))(m := None) \<and>
    searchmap (net_conn w') = (searchmap (net_conn w))(m := None) \<and> snd (w_msgmap w') = snd (w_msgmap w)"
proof -
  have q: "quiet (Suc n) w" "w_in w = []" using assms(1) by (simp_all add: net_idle_def)
  let ?tx = "w_next w" and ?req = "Tag_Integer 16 Application (scast m)" and ?c = "net_conn w"
  obtain i where i: "0 < sint i" "i \<notin> snd (w_msgmap w)"
    and sub: "op_submit (tokio_net S srv) (Abandon m) ?req h (w\<lparr> w_next := ?tx \<rparr>) = Some (Ok ?tx, h\<lparr> last_id := i, controls := None \<rparr>,
      w\<lparr> w_next := Suc ?tx, w_msgmap := (i, insert i (snd (w_msgmap w))), w_ops := [(i, Abandon m, ?req, controls h, ?tx)] \<rparr>)"
    using submit_net [OF q(1)] by blast
  define w1 where "w1 = w\<lparr> w_next := Suc ?tx, w_msgmap := (i, insert i (snd (w_msgmap w))),
    w_ops := [(i, Abandon m, ?req, controls h, ?tx)] \<rparr>"
  define w2 where "w2 = w\<lparr> w_next := Suc ?tx, w_msgmap := (i, snd (w_msgmap w)), w_results := (w_results w)(?tx \<mapsto> (Null, [])),
    net_conn := ?c\<lparr> resultmap := (resultmap ?c)(m := None), searchmap := (searchmap ?c)(m := None) \<rparr> \<rparr>"
  have ok: "message_ok (i, ?req, controls h)" using assms(2) i(1) by (simp add: fits_def)
  have "poll S srv w1 = Some w2"
    using q i(2) assms(3) server_reads_net [OF ok] send_net [OF ok, of "w1\<lparr> w_ops := [] \<rparr>"]
    by (simp add: poll_def run_net_def null_result_def Let_def forget_id_def w2_def w1_def quiet_def wires_def)
  moreover have "get_result ?tx w1 = None" "result_alive ?tx w1"
    using q by (auto simp: get_result_def result_alive_def w1_def quiet_def)
  moreover have "w_results w2 ?tx = Some (Null, [])" by (simp add: w2_def)
  ultimately obtain x where "op_call (tokio_net S srv) (Abandon m) ?req h w =
      Some (Ok x, h\<lparr> last_id := i, controls := None, timeout := None \<rparr>, w2)"
    using null_call [of srv "Abandon m" ?req h w ?tx i w1 w2] sub by (auto simp: w1_def)
  moreover have "net_idle (Suc n) w2"
    using q ids_ok_abandon [OF ids_registered [OF q(1) i], of m] i(2)
    by (auto simp: net_idle_def w2_def quiet_def free_ids_def)
  ultimately show ?thesis by (auto simp: abandon_def await_ok_def done_ok_def w2_def)
qed

lemma net_unbind:
  assumes "net_idle (Suc (Suc n)) w" and "fits [(Tag_Null 2 Application, controls h)]"
    and "srv (into_structure (Tag_Null 2 Application)) (known_controls (controls h)) = []"
  shows "\<exists>h' w'. unbind (tokio_net S srv) h w = Some (Ok (), h', w') \<and> net_unbound w'"
proof -
  have q: "quiet (Suc (Suc n)) w" "w_in w = []" using assms(1) by (simp_all add: net_idle_def)
  let ?tx = "w_next w" and ?req = "Tag_Null 2 Application"
  obtain i where i: "0 < sint i" "i \<notin> snd (w_msgmap w)"
    and sub: "op_submit (tokio_net S srv) Unbind ?req h (w\<lparr> w_next := ?tx \<rparr>) = Some (Ok ?tx, h\<lparr> last_id := i, controls := None \<rparr>,
      w\<lparr> w_next := Suc ?tx, w_msgmap := (i, insert i (snd (w_msgmap w))), w_ops := [(i, Unbind, ?req, controls h, ?tx)] \<rparr>)"
    using submit_net [OF q(1)] by blast
  define w1 where "w1 = w\<lparr> w_next := Suc ?tx, w_msgmap := (i, insert i (snd (w_msgmap w))),
    w_ops := [(i, Unbind, ?req, controls h, ?tx)] \<rparr>"
  define w2 where "w2 = w1\<lparr> w_ops := [], w_results := (w_results w)(?tx \<mapsto> (Null, [])), w_shut := True \<rparr>"
  have ok: "message_ok (i, ?req, controls h)" using assms(2) i(1) by (simp add: fits_def)
  have "poll S srv w1 = Some w2"
    using q i(2) assms(3) server_reads_net [OF ok] send_net [OF ok, of "w1\<lparr> w_ops := [] \<rparr>"]
    by (simp add: poll_def run_net_def null_result_def Let_def w2_def w1_def quiet_def wires_def)
  moreover have "get_result ?tx w1 = None" "result_alive ?tx w1"
    using q by (auto simp: get_result_def result_alive_def w1_def quiet_def)
  moreover have "w_results w2 ?tx = Some (Null, [])" by (simp add: w2_def)
  ultimately obtain x where "op_call (tokio_net S srv) Unbind ?req h w =
      Some (Ok x, h\<lparr> last_id := i, controls := None, timeout := None \<rparr>, w2)"
    using null_call [of srv Unbind ?req h w ?tx i w1 w2] sub by (auto simp: w1_def)
  moreover have "Suc n \<le> card (free_ids (i, insert i (snd (w_msgmap w))))"
    using free_ids_insert [OF i, of "Suc n" "fst (w_msgmap w)"] q(1) by (simp add: quiet_def)
  then have "net_unbound w2"
    using q i(1) by (auto simp: net_unbound_def w2_def w1_def quiet_def)
  ultimately show ?thesis by (auto simp: unbind_def await_ok_def done_ok_def)
qed

lemma net_unbound_op:
  assumes "net_unbound w"
  shows "\<exists>h' w'. op_call (tokio_net S srv) op req h w = Some (Err ResultRecv, h', w') \<and> is_closed (tokio_net S srv) w'"
proof -
  let ?tx = "w_next w"
  obtain i where sub: "op_submit (tokio_net S srv) op req h (w\<lparr> w_next := ?tx \<rparr>) = Some (Ok ?tx, h\<lparr> last_id := i, controls := None \<rparr>,
      w\<lparr> w_next := Suc ?tx, w_msgmap := (i, insert i (snd (w_msgmap w))), w_ops := [(i, op, req, controls h, ?tx)] \<rparr>)"
    using submit_open [of w srv op req h ?tx] assms unfolding net_unbound_def by blast
  define w1 where "w1 = w\<lparr> w_next := Suc ?tx, w_msgmap := (i, insert i (snd (w_msgmap w))), w_ops := [(i, op, req, controls h, ?tx)] \<rparr>"
  let ?c = "case op of Search ch \<Rightarrow> (net_conn w)\<lparr> searchmap := (searchmap (net_conn w))(i \<mapsto> ch) \<rparr> | _ \<Rightarrow> net_conn w"
  have c: "poll S srv w1 = Some (w1\<lparr> w_ops := [], w_out := [], w_open := False, net_conn := ?c \<rparr>)" (is "_ = Some ?w2")
    using assms by (simp add: poll_def run_net_def Let_def w1_def net_unbound_def send_ref_def server_reads_def decode_all_Nil)
  have "get_result ?tx w1 = None" "result_alive ?tx w1" "get_result ?tx ?w2 = None" "\<not> result_alive ?tx ?w2"
    using assms by (auto simp: get_result_def result_alive_def w1_def net_unbound_def)
  then have "await_result (tokio_net S srv) ?tx w1 = Some (None, ?w2)"
    and "\<And>d. timeout_result (tokio_net S srv) d ?tx w1 = Some (Some None, ?w2)"
    using c by (simp_all add: await_by_poll await_by_gone timeout_by_poll timeout_by_gone)
  then have "\<exists>h'. op_call (tokio_net S srv) op req h w = Some (Err ResultRecv, h', ?w2)"
    using sub by (cases "timeout h") (simp_all add: op_call_def await_ok_def op_response_def w1_def)
  then show ?thesis by (auto simp: is_closed_def tokio_net_def channels.extend_def tokio.fields_def channels_ref_def)
qed

end

subsection \<open>Properties\<close>

text \<open>
  Claim C11. Timeouts: an operation with a timeout that the server does not answer returns the error
  \<open>Timeout\<close>. The connection then forgets it and is idle again with no message ID lost, so it
  remains usable, and an answer that comes later changes nothing.
\<close>

theorem timeout_keeps_connection:
  assumes "nom_streaming_doc S" and "net_idle (Suc n) w" and "timeout h = Some d" and "fits [(req, controls h)]"
    and "srv (into_structure req) (known_controls (controls h)) = []"
  shows "\<exists>i w' w''. op_call (tokio_net S srv) Single req h w =
      Some (Err Timeout, h\<lparr> last_id := i, controls := None, timeout := None \<rparr>, w') \<and>
    poll S srv w' = Some w'' \<and> net_idle (Suc n) w'' \<and>
    (\<forall>tag ctrls. run_net (resp_branch channels_ref (Some (Ok (i, tag, ctrls)))) w'' = Some w'')"
  using assms(2-) by (rule nom_streaming_doc.net_op_timeout [OF assms(1)])

theorem timeout_keeps_connection_witness:
  "\<exists>i w' w''. op_call (tokio_net nom_streaming_ref (\<lambda>_ _. [])) Single (Tag_OctetString 10 Application (str ''o=x''))
      (with_timeout 5 example_handle) net_init =
    Some (Err Timeout, (with_timeout 5 example_handle)\<lparr> last_id := i, controls := None, timeout := None \<rparr>, w') \<and>
    poll nom_streaming_ref (\<lambda>_ _. []) w' = Some w'' \<and> net_idle 1000 w'' \<and>
    (\<forall>tag ctrls. run_net (resp_branch channels_ref (Some (Ok (i, tag, ctrls)))) w'' = Some w'')"
  using timeout_keeps_connection [OF nsr.nom_streaming_doc_axioms, of 999 net_init "with_timeout 5 example_handle" 5
      "Tag_OctetString 10 Application (str ''o=x'')" "\<lambda>_ _. []"] net_init_idle example_delete_fits(1) [of 0]
  by (simp add: with_timeout_def example_handle_def conn_pair_def)

text \<open>
  Claim C35. Abandon: abandoning the request \<open>m\<close> returns successfully without an answer of the server.
  The connection no longer waits for \<open>m\<close>, ignores answers that still come, and remains usable; the ID
  of the Abandon operation is free again. The ID \<open>m\<close> itself is not freed: the set of IDs in use is the
  same as before.
\<close>

theorem abandon_keeps_id:
  assumes "nom_streaming_doc S" and "net_idle (Suc n) w" and "fits [(Tag_Integer 16 Application (scast m), controls h)]"
    and "srv (into_structure (Tag_Integer 16 Application (scast m))) (known_controls (controls h)) = []"
  shows "\<exists>i w'. abandon (tokio_net S srv) m h w = Some (Ok (), h\<lparr> last_id := i, controls := None, timeout := None \<rparr>, w') \<and>
    net_idle (Suc n) w' \<and> resultmap (net_conn w') = (resultmap (net_conn w))(m := None) \<and>
    searchmap (net_conn w') = (searchmap (net_conn w))(m := None) \<and> snd (w_msgmap w') = snd (w_msgmap w) \<and>
    (\<forall>tag ctrls. run_net (resp_branch channels_ref (Some (Ok (m, tag, ctrls)))) w' = Some w')"
proof -
  have "run_net (resp_branch channels_ref (Some (Ok (m, tag, ctrls)))) w' = Some w'"
    if "resultmap (net_conn w') = (resultmap (net_conn w))(m := None)" "searchmap (net_conn w') = (searchmap (net_conn w))(m := None)"
    for w' tag ctrls using that by (simp add: run_net_def)
  then show ?thesis using nom_streaming_doc.net_abandon [OF assms(1-3), where srv = srv] assms(4) by blast
qed

lemma example_abandon_fits: "fits [(Tag_Integer 16 Application k, None)]" "fits [(Tag_Null 2 Application, None)]"
  using weight_i_e [of 16 Application k]
  by (auto intro!: fits_weight simp: msg_shape_def msg_weight_def low_ids_i_e i_e_into_structure_def)

text \<open>A connection on which a search with the ID 7 is under way.\<close>

definition net_searching :: net where
  "net_searching = net_init\<lparr> w_next := 1, w_msgmap := (7, {7}), net_conn := (fst conn_pair)\<lparr> searchmap := [7 \<mapsto> 0] \<rparr> \<rparr>"

lemma net_searching_idle: "net_idle 999 net_searching"
proof -
  have "free_ids (7, {7}) = free_ids (0, {}) - {7}" by (auto simp: free_ids_def)
  moreover have "1000 \<le> card (free_ids (0, {}))"
    using net_init_idle by (simp add: net_idle_def quiet_def net_init_def world.extend_def net.fields_def world_init_def)
  ultimately have "999 \<le> card (free_ids (7, {7}))" by (simp add: card_Diff_singleton_if, linarith)
  then show ?thesis using net_init_idle
    by (simp add: net_idle_def quiet_def net_searching_def ids_ok_def net_init_def conn_pair_def world.extend_def net.fields_def world_init_def)
qed

theorem abandon_keeps_id_witness:
  "\<exists>i w'. abandon (tokio_net nom_streaming_ref (\<lambda>_ _. [])) 7 example_handle net_searching =
      Some (Ok (), example_handle\<lparr> last_id := i, controls := None, timeout := None \<rparr>, w') \<and>
    net_idle 999 w' \<and> searchmap (net_conn w') 7 = None \<and> 7 \<in> snd (w_msgmap w')"
  using abandon_keeps_id [OF nsr.nom_streaming_doc_axioms, of 998 net_searching 7 example_handle "\<lambda>_ _. []"]
    net_searching_idle example_abandon_fits(1)
  by (fastforce simp: example_handle_def conn_pair_def net_searching_def)

text \<open>
  Claim C12. Unbind: it returns successfully. Whatever operation is started next, with or without a
  timeout, does not wait for ever but returns an error, and leaves the connection closed.
\<close>

theorem unbind_closes:
  assumes "nom_streaming_doc S" and "net_idle (Suc (Suc n)) w" and "fits [(Tag_Null 2 Application, controls h)]"
    and "srv (into_structure (Tag_Null 2 Application)) (known_controls (controls h)) = []"
  shows "\<exists>h' w'. unbind (tokio_net S srv) h w = Some (Ok (), h', w') \<and>
    (\<forall>op req g. \<exists>g' w''. op_call (tokio_net S srv) op req g w' = Some (Err ResultRecv, g', w'') \<and> is_closed (tokio_net S srv) w'')"
  using nom_streaming_doc.net_unbind [OF assms(1-3), where srv = srv] assms(4) nom_streaming_doc.net_unbound_op [OF assms(1)] by metis

theorem unbind_closes_witness:
  "\<exists>h' w'. unbind (tokio_net nom_streaming_ref (\<lambda>_ _. [])) example_handle net_init = Some (Ok (), h', w') \<and>
    (\<forall>op req g. \<exists>g' w''. op_call (tokio_net nom_streaming_ref (\<lambda>_ _. [])) op req g w' = Some (Err ResultRecv, g', w'') \<and>
      is_closed (tokio_net nom_streaming_ref (\<lambda>_ _. [])) w'')"
  using unbind_closes [OF nsr.nom_streaming_doc_axioms, of 998 net_init example_handle "\<lambda>_ _. []"] net_init_idle example_abandon_fits(2)
  by (simp add: example_handle_def conn_pair_def)

end
