(* ===== verification/Adapter_Chain.thy ===== *)
theory Adapter_Chain
  imports Network
begin

text \<open>
  A chain of two adapters from end to end: \<open>EntriesOnly\<close> in front of \<open>PagedResults\<close>, as the
  documentation of \<open>src/adapters.rs\<close> combines them.
\<close>

text \<open>
  Claim C4. Chained adapters from end to end: for a handle with any controls but Paged Results,
  or with none, and for any server that answers the requests of a paged search page by page, a stream with \<open>EntriesOnly\<close> in front of \<open>PagedResults\<close> that is read to the end
  yields exactly the entries of all pages, in order, without the referrals and intermediate messages
  between them; \<open>finish\<close> returns the result of the last page without its Paged Results control, with
  the URLs of the referrals of all pages added to its \<open>refs\<close>.
\<close>

theorem chained_search_end_to_end:
  assumes "nom_streaming_doc S" and "net_idle (n + length ps) w" and "timeout h = None" and "parse N filt = Some (Ok ft)"
    and "(case controls h of Some cs \<Rightarrow> cs | None \<Rightarrow> []) = ctrls" and "list_all (\<lambda>c. ctype c \<noteq> PAGED_RESULTS_OID) ctrls"
    and "pages (net_answer srv) (net_request_ok srv) (request_of h base scope ft attrs) ctrls sz [] ps"
    and "list_all refs_parse (concat (map fst ps))"
  shows "\<exists>s s' s'' w1 w2. streaming_search_with (tokio_net S srv) N [EntriesOnly_new, PagedResults_new sz] base scope filt attrs h w =
      Some (Ok s, h\<lparr> controls := None, search_opts := None \<rparr>, w1) \<and>
    collect_loop (stream_next (tokio_net S srv) N S) [] s w1 = Some (Ok (filter plain (concat (map fst ps))), s', w2) \<and>
    net_idle n w2 \<and>
    stream_finish (tokio_net S srv) s' w2 = Some ((fst (snd (last ps)))\<lparr> lr_ctrls := [],
      lr_refs := lr_refs (fst (snd (last ps))) @ concat (map refs_of (concat (map fst ps))) \<rparr>, s'', w2)"
  using assms by (rule nom_streaming_doc.net_chained_search_returns [OF assms(1)])

theorem chained_search_end_to_end_witness:
  "\<exists>s s' s'' w1 w2. streaming_search_with (tokio_net nom_streaming_ref page_server) nom_complete_ref
        [EntriesOnly_new, PagedResults_new 10] example_base Subtree (str ''(a=*)'') [] example_handle net_init =
      Some (Ok s, example_handle\<lparr> controls := None, search_opts := None \<rparr>, w1) \<and>
    collect_loop (stream_next (tokio_net nom_streaming_ref page_server) nom_complete_ref nom_streaming_ref) [] s w1 =
      Some (Ok [ResultEntry (example_entry (str ''o=a'')) [], ResultEntry (example_entry (str ''o=b'')) []], s', w2) \<and>
    net_idle 998 w2 \<and>
    stream_finish (tokio_net nom_streaming_ref page_server) s' w2 = Some (empty_result, s'', w2)"
proof -
  let ?ps = "[([ResultEntry (example_entry (str ''o=a'')) []], empty_result, [1]),
      ([ResultEntry (example_entry (str ''o=b'')) []], empty_result, [])]"
  have "is_ref (ResultEntry (example_entry dn) cs) = False" "is_intermediate (ResultEntry (example_entry dn) cs) = False" for dn cs
    by (simp_all add: is_ref_def is_intermediate_def example_entry_def)
  then show ?thesis
    using chained_search_end_to_end [OF nsr.nom_streaming_doc_axioms _ _ example_parse, of 998 ?ps net_init
        example_handle "[]" page_server example_base Subtree "[]" 10] net_init_idle example_pages
    by (simp add: example_handle_def conn_pair_def plain_def refs_of_def refs_parse_def empty_result_def)
qed

end
