(* ===== verification/Delivery.thy ===== *)
theory Delivery
  imports Connection
begin

text \<open>
  Which message reaches whom, over whole runs of handles, connection and server. The history of a
  run records the operations in the order in which the connection took them from its queue, and
  the messages in the order in which they came. From the history alone one can tell for every
  message ID the last request with that ID and the messages with the ID since. Results and search
  items are shown to agree with it, in every interleaving of any number of operations.
\<close>

subsection \<open>Histories\<close>

datatype entry = Sent RequestId LdapOp ticket | Got RequestId Tag "Control list"

fun entries_of :: "action \<Rightarrow> sys \<Rightarrow> entry list" where
  "entries_of Take_Op (c, w) = (case w_ops w of (i, op, _, _, t) # _ \<Rightarrow> [Sent i op t] | [] \<Rightarrow> [])"
| "entries_of (Receive (Some (Ok (i, tag, ctrls)))) s = [Got i tag ctrls]"
| "entries_of _ s = []"

type_synonym requests = "RequestId \<rightharpoonup> LdapOp \<times> ticket \<times> (Tag \<times> Control list) list"

fun note_entry :: "entry \<Rightarrow> requests \<Rightarrow> requests" where
  "note_entry (Sent i op t) q = q(i \<mapsto> (op, t, []))"
| "note_entry (Got i tag ctrls) q =
     (case q i of Some (op, t, ms) \<Rightarrow> q(i \<mapsto> (op, t, ms @ [(tag, ctrls)])) | None \<Rightarrow> q)"

definition last_request :: "entry list \<Rightarrow> requests" where
  "last_request log = fold note_entry log Map.empty"

lemma last_request_Nil [simp]: "last_request [] = Map.empty"
  by (simp add: last_request_def)

lemma last_request_snoc [simp]: "last_request (log @ [e]) = note_entry e (last_request log)"
  by (simp add: last_request_def)

text \<open>Runs that keep their history.\<close>

definition logged :: "action \<Rightarrow> entry list \<times> sys \<Rightarrow> (entry list \<times> sys) option" where
  "logged a = (\<lambda>(log, s). map_option (\<lambda>s'. (log @ entries_of a s, s')) (act a s))"

text \<open>
  Besides the order of scrub requests: a search comes with a channel that no other search uses, as
  \<open>start_inner\<close> creates one for each.
\<close>

definition search_chans :: "op_tuple list \<Rightarrow> chan list" where
  "search_chans ops = concat (map (\<lambda>(_, op, _). case op of Search ch \<Rightarrow> [ch] | _ \<Rightarrow> []) ops)"

fun new_chan :: "sys \<Rightarrow> action \<Rightarrow> bool" where
  "new_chan (c, w) (Submit _ (Search ch) _) \<longleftrightarrow>
     w_items w ch = [] \<and> (\<forall>i\<in>snd (w_msgmap w). searchmap c i \<noteq> Some ch) \<and> ch \<notin> set (search_chans (w_ops w))"
| "new_chan _ _ \<longleftrightarrow> True"

definition orderly :: "entry list \<times> sys \<Rightarrow> action \<Rightarrow> bool" where
  "orderly = (\<lambda>(_, s) a. in_order s a \<and> new_chan s a)"

subsection \<open>The invariant\<close>

text \<open>The channels of searches that are queued or under way are different, and the queued ones unused.\<close>

definition chans_ok :: "sys \<Rightarrow> bool" where
  "chans_ok = (\<lambda>(c, w). distinct (search_chans (w_ops w)) \<and> 
     (\<forall>i j ch. searchmap c i = Some ch \<and> searchmap c j = Some ch \<longrightarrow> i = j) \<and>
     (\<forall>ch\<in>set (search_chans (w_ops w)). w_items w ch = [] \<and> ch \<notin> ran (searchmap c)))"

definition msg_item :: "Tag \<times> Control list \<Rightarrow> (SearchItem \<times> Control list) option" where
  "msg_item = (\<lambda>(tag, ctrls). case tag of
     Tag_StructureTag st \<Rightarrow> map_option (\<lambda>(it, _). (it, ctrls)) (search_item st) | _ \<Rightarrow> None)"

text \<open>The requests that the connection waits for are the last ones with their IDs.\<close>

definition waiting_ok :: "entry list \<Rightarrow> sys \<Rightarrow> bool" where
  "waiting_ok log = (\<lambda>(c, w).
     (\<forall>i t. resultmap c i = Some t \<longrightarrow> last_request log i = Some (Single, t, [])) \<and>
     (\<forall>i ch. searchmap c i = Some ch \<longrightarrow>
       (\<exists>t ms. last_request log i = Some (Search ch, t, ms) \<and> map msg_item ms = map Some (w_items w ch))))"

text \<open>What has been delivered came for the last request with the ID at that time.\<close>

definition result_ok :: "entry list \<Rightarrow> ticket \<Rightarrow> Tag \<times> Control list \<Rightarrow> bool" where
  "result_ok log t r \<longleftrightarrow>
     (\<exists>past i op later. log = past @ Sent i op t # later \<and> op \<noteq> Single \<and> r = (Null, [])) \<or>
     (\<exists>past i later. log = past @ Got i (fst r) (snd r) # later \<and> last_request past i = Some (Single, t, []))"

definition items_ok :: "entry list \<Rightarrow> chan \<Rightarrow> (SearchItem \<times> Control list) list \<Rightarrow> bool" where
  "items_ok log ch its \<longleftrightarrow>
     (\<exists>past i t ms later. log = past @ later \<and> last_request past i = Some (Search ch, t, ms) \<and> map msg_item ms = map Some its)"

definition delivered_ok :: "entry list \<Rightarrow> sys \<Rightarrow> bool" where
  "delivered_ok log = (\<lambda>(c, w). (\<forall>t r. w_results w t = Some r \<longrightarrow> result_ok log t r) \<and>
     (\<forall>ch. w_items w ch \<noteq> [] \<longrightarrow> items_ok log ch (w_items w ch)))"

definition hist_inv :: "entry list \<times> sys \<Rightarrow> bool" where
  "hist_inv = (\<lambda>(log, s). conn_inv s \<and> chans_ok s \<and> waiting_ok log s \<and> delivered_ok log s)"

lemma result_ok_append: "result_ok log t r \<Longrightarrow> result_ok (log @ l) t r"
  unfolding result_ok_def by fastforce

lemma result_ok_null: "op \<noteq> Single \<Longrightarrow> result_ok (log @ [Sent i op t]) t (Null, [])"
  unfolding result_ok_def by blast

lemma result_ok_answer: "last_request log i = Some (Single, t, []) \<Longrightarrow> result_ok (log @ [Got i tag ctrls]) t (tag, ctrls)"
  unfolding result_ok_def by (rule disjI2, rule exI [of _ log]) auto

lemma items_ok_append: "items_ok log ch its \<Longrightarrow> items_ok (log @ l) ch its"
  unfolding items_ok_def by fastforce

lemma search_chans_simps [simp]:
  "search_chans [] = []"
  "search_chans (ops @ ops') = search_chans ops @ search_chans ops'"
  "search_chans ((i, op, x) # ops) = (case op of Search ch \<Rightarrow> [ch] | _ \<Rightarrow> []) @ search_chans ops"
  by (simp_all add: search_chans_def)

subsection \<open>Every step keeps the invariant\<close>

text \<open>Steps that at most forget requests.\<close>

lemma map_le_Some: "m \<subseteq>\<^sub>m m' \<Longrightarrow> m i = Some x \<Longrightarrow> m' i = Some x"
  by (force simp: map_le_def)

lemma chans_ok_shrink:
  assumes "chans_ok (c, w)" and "searchmap c' \<subseteq>\<^sub>m searchmap c"
    and "search_chans (w_ops w') = search_chans (w_ops w)" and "w_items w' = w_items w"
  shows "chans_ok (c', w')"
  using assms(1,3,4) map_le_Some [OF assms(2)] by (auto simp: chans_ok_def ran_def) blast

lemma waiting_ok_shrink:
  assumes "waiting_ok log (c, w)" and "resultmap c' \<subseteq>\<^sub>m resultmap c" and "searchmap c' \<subseteq>\<^sub>m searchmap c"
    and "w_items w' = w_items w"
  shows "waiting_ok log (c', w')"
  using assms(1,4) map_le_Some [OF assms(2)] map_le_Some [OF assms(3)] by (simp add: waiting_ok_def)

lemma hist_inv_shrink:
  assumes "hist_inv (log, c, w)" and "conn_inv (c', w')"
    and "resultmap c' \<subseteq>\<^sub>m resultmap c" and "searchmap c' \<subseteq>\<^sub>m searchmap c"
    and "w_ops w' = w_ops w" and "w_items w' = w_items w" and "w_results w' = w_results w"
  shows "hist_inv (log, c', w')"
proof -
  have "chans_ok (c', w')" by (rule chans_ok_shrink [of c w]) (use assms in \<open>auto simp: hist_inv_def\<close>)
  moreover have "waiting_ok log (c', w')" by (rule waiting_ok_shrink [of log c w]) (use assms in \<open>auto simp: hist_inv_def\<close>)
  ultimately show ?thesis using assms by (auto simp: hist_inv_def delivered_ok_def)
qed

lemma map_le_remove: "m(i := None) \<subseteq>\<^sub>m m"
  by (simp add: map_le_def)

lemma misc_frame:
  assumes "act Take_Misc (c, w) = Some s'"
  obtains w' where "s' = (c, w')" "w_ops w' = w_ops w" "w_items w' = w_items w" "w_results w' = w_results w"
proof -
  obtain m ms where "run_branch (misc_branch channels_ref (Some m)) (c, w\<lparr> w_miscs := ms \<rparr>) = Some s'"
    using assms by (auto split: list.splits if_splits)
  then show thesis using that by (cases m) (auto simp: run_branch_def channels_ref_def)
qed

lemma hist_inv_quiet_step:
  assumes "hist_inv (log, c, w)" and "conn_inv s'" and "act a (c, w) = Some s'"
    and "a \<in> {Give_Up i, Drop n, Take_Scrub, Take_Misc, Receive None, Receive (Some (Err e))}"
  shows "hist_inv (log, s')"
proof -
  have "\<exists>c' w'. s' = (c', w') \<and> resultmap c' \<subseteq>\<^sub>m resultmap c \<and> searchmap c' \<subseteq>\<^sub>m searchmap c \<and>
      w_ops w' = w_ops w \<and> w_items w' = w_items w \<and> w_results w' = w_results w"
  proof (cases "a = Take_Misc")
    case True
    with assms(3) have "act Take_Misc (c, w) = Some s'" by simp
    then show ?thesis by (rule misc_frame) auto
  next
    case False
    with assms(3,4) show ?thesis by (auto simp: run_branch_def map_le_remove split: list.splits if_splits)
  qed
  then show ?thesis using hist_inv_shrink [OF assms(1)] assms(2) by blast
qed

text \<open>A submission.\<close>

lemma hist_inv_Submit:
  assumes "hist_inv (log, c, w)" and "conn_inv s'" and "act (Submit h op req) (c, w) = Some s'"
    and "new_chan (c, w) (Submit h op req)"
  shows "hist_inv (log, s')"
proof -
  obtain r h' w' where w': "op_submit channels_ref op req h w = Some (r, h', w')" and s': "s' = (c, w')"
    using assms(3) by auto
  from w' have "w_items w' = w_items w" "w_results w' = w_results w"
    and "w_ops w' = w_ops w \<or> (\<exists>i k t. w_ops w' = w_ops w @ [(i, op, req, k, t)])"
    by (auto elim!: op_submit_ref)
  moreover have "ch \<notin> ran (searchmap c)" if "op = Search ch" for ch
    using assms(1,4) that by (fastforce simp: hist_inv_def conn_inv_def ids_ok_def ran_def)
  ultimately show ?thesis
    using assms(1,2,4) by (cases op) (auto simp: s' hist_inv_def chans_ok_def waiting_ok_def delivered_ok_def)
qed

text \<open>Taking an operation.\<close>

lemma op_branch_results:
  assumes "op_branch channels_ref (Some (i, op, tag, ctrls, tx)) c w = Some (f, c', w')"
  shows "w_results w' = w_results w \<or> op \<noteq> Single \<and> w_results w' = (w_results w)(tx \<mapsto> (Null, []))"
proof -
  obtain res w1 where s: "send_ref (i, tag, ctrls) w = Some (res, w1)"
    using assms by (auto simp: bind_eq_Some_conv Let_def)
  then obtain out where w1: "w1 = w\<lparr> w_out := out \<rparr>" by (rule send_ref_frame)
  show ?thesis
    using assms s w1 by (cases op; cases res) (auto simp: null_result_def Let_def split: if_splits)
qed

lemma hist_inv_Take_Op:
  assumes "hist_inv (log, c, w)" and "conn_inv s'" and "act Take_Op (c, w) = Some s'"
  shows "hist_inv (log @ entries_of Take_Op (c, w), s')"
proof -
  obtain i op tag ctrls tx ops where ops: "w_ops w = (i, op, tag, ctrls, tx) # ops"
    and b: "run_branch (op_branch channels_ref (Some (i, op, tag, ctrls, tx))) (c, w\<lparr> w_ops := ops \<rparr>) = Some s'"
    using assms(3) by (auto split: list.splits if_splits)
  from b obtain f c' w' opn where o: "op_branch channels_ref (Some (i, op, tag, ctrls, tx)) c (w\<lparr> w_ops := ops \<rparr>) = Some (f, c', w')"
    and s': "s' = (c', w'\<lparr> w_open := opn \<rparr>)"
    by (rule run_branch_Some) simp
  have i: "resultmap c i = None" "searchmap c i = None"
    using assms(1) by (auto simp: hist_inv_def conn_inv_def ids_ok_def op_ids_def ops)
  have ch: "chans_ok (c, w)" "waiting_ok log (c, w)" "delivered_ok log (c, w)" using assms(1) by (simp_all add: hist_inv_def)
  let ?log = "log @ [Sent i op tx]"
  from o obtain r where maps:
    "resultmap c' = (case op of Single \<Rightarrow> if r then (resultmap c)(i \<mapsto> tx) else resultmap c
       | Abandon m \<Rightarrow> if r then (resultmap c)(m := None) else resultmap c | _ \<Rightarrow> resultmap c)"
    "searchmap c' = (case op of Search ch \<Rightarrow> (searchmap c)(i \<mapsto> ch)
       | Abandon m \<Rightarrow> if r then (searchmap c)(m := None) else searchmap c | _ \<Rightarrow> searchmap c)"
    and w': "w_ops w' = ops" "w_items w' = w_items w"
    by (rule op_branch_ref) simp
  have "chans_ok s'"
    using ch(1) i by (cases op) (auto simp: s' chans_ok_def ops maps w' inj_on_def ran_def split: if_splits)
  moreover have "waiting_ok ?log s'"
    using ch(1,2) i by (cases op) (auto simp: s' waiting_ok_def chans_ok_def ops maps w' split: if_splits)
  moreover have "delivered_ok ?log s'"
    using ch(3) op_branch_results [OF o]
    by (auto simp: s' delivered_ok_def w' result_ok_null result_ok_append items_ok_append split: if_splits)
  ultimately show ?thesis using assms(2) by (simp add: hist_inv_def ops)
qed

text \<open>A message.\<close>

lemma waiting_search:
  assumes "waiting_ok log (c, w)" and "searchmap c i = Some ch"
  obtains t ms where "last_request log i = Some (Search ch, t, ms)" "map msg_item ms = map Some (w_items w ch)"
proof -
  have "\<exists>t ms. last_request log i = Some (Search ch, t, ms) \<and> map msg_item ms = map Some (w_items w ch)"
    using assms by (simp add: waiting_ok_def)
  then show thesis using that by blast
qed

lemma delivered_ok_item:
  assumes "delivered_ok log (c, w)" and "items_ok (log @ l) ch its"
    and "w_results w' = w_results w" and "w_items w' = w_items w \<or> w_items w' = (w_items w)(ch := its)"
  shows "delivered_ok (log @ l) (c', w')"
proof -
  have "result_ok (log @ l) t r" if "w_results w' t = Some r" for t r
    using that assms(1,3) by (cases r) (simp add: delivered_ok_def result_ok_append)
  moreover have "items_ok (log @ l) ch' (w_items w' ch')" if "w_items w' ch' \<noteq> []" for ch'
    using that assms(1,2,4) by (cases "ch' = ch") (auto simp: delivered_ok_def items_ok_append)
  ultimately show ?thesis by (simp add: delivered_ok_def)
qed

lemma waiting_ok_item:
  assumes "waiting_ok log (c, w)" and "searchmap c i = Some ch" and "resultmap c i = None"
    and "\<And>j. searchmap c j = Some ch \<Longrightarrow> j = i" and "msg_item (tag, ctrls) = Some it"
    and c': "c' = (if b then c\<lparr> searchmap := (searchmap c)(i := None) \<rparr> else c)"
    and w': "\<not> b \<longrightarrow> w_items w' ch = w_items w ch @ [it]" "\<And>ch'. ch' \<noteq> ch \<Longrightarrow> w_items w' ch' = w_items w ch'"
  shows "waiting_ok (log @ [Got i tag ctrls]) (c', w')"
proof -
  from assms(1,2) obtain t ms where q: "last_request log i = Some (Search ch, t, ms)"
    "map msg_item ms = map Some (w_items w ch)" by (rule waiting_search)
  then have q': "last_request (log @ [Got i tag ctrls]) = (last_request log)(i \<mapsto> (Search ch, t, ms @ [(tag, ctrls)]))" by simp
  have "last_request (log @ [Got i tag ctrls]) j = Some (Single, t', [])" if "resultmap c' j = Some t'" for j t'
    using that assms(1,3) q' by (auto simp: c' waiting_ok_def split: if_splits)
  moreover have "\<exists>t ms. last_request (log @ [Got i tag ctrls]) j = Some (Search ch', t, ms) \<and> map msg_item ms = map Some (w_items w' ch')"
    if j: "searchmap c' j = Some ch'" for j ch'
  proof (cases "j = i")
    case True
    with j assms(2,5) q q' w'(1) show ?thesis by (auto simp: c' split: if_splits)
  next
    case False
    then have "searchmap c j = Some ch'" "last_request (log @ [Got i tag ctrls]) j = last_request log j"
      using j q' by (auto simp: c' split: if_splits)
    moreover have "ch' \<noteq> ch" using assms(4) [of j] False calculation(1) by blast
    ultimately show ?thesis using assms(1) by (simp add: w'(2) waiting_ok_def)
  qed
  ultimately show ?thesis by (simp add: waiting_ok_def)
qed

lemma hist_inv_message:
  assumes "hist_inv (log, c, w)" and "conn_inv s'" and "act (Receive (Some (Ok (i, tag, ctrls)))) (c, w) = Some s'"
  shows "hist_inv (log @ [Got i tag ctrls], s')"
proof -
  have "run_branch (resp_branch channels_ref (Some (Ok (i, tag, ctrls)))) (c, w) = Some s'" using assms(3) by (simp split: if_splits)
  then obtain f c' w' opn where b: "resp_branch channels_ref (Some (Ok (i, tag, ctrls))) c w = Some (f, c', w')"
    and s': "s' = (c', w'\<lparr> w_open := opn \<rparr>)" by (rule run_branch_Some) simp
  have inv: "conn_inv (c, w)" "chans_ok (c, w)" "waiting_ok log (c, w)" "delivered_ok log (c, w)"
    using assms(1) by (simp_all add: hist_inv_def)
  let ?log = "log @ [Got i tag ctrls]"
  have "chans_ok s' \<and> waiting_ok ?log s' \<and> delivered_ok ?log s'" using b
  proof (cases rule: resp_branch_ref)
    case (search ch st item fin)
    from inv(3) search(1) obtain t ms where q: "last_request log i = Some (Search ch, t, ms)"
      "map msg_item ms = map Some (w_items w ch)" by (rule waiting_search)
    have it: "msg_item (tag, ctrls) = Some (item, ctrls)" using search(2,3) by (simp add: msg_item_def)
    have other: "resultmap c i = None" "\<And>j. searchmap c j = Some ch \<Longrightarrow> j = i"
      and used: "ch \<notin> set (search_chans (w_ops w))"
      using inv(1,2) search(1) by (auto simp: conn_inv_def ids_ok_def chans_ok_def ran_def)
    have q': "last_request ?log = (last_request log)(i \<mapsto> (Search ch, t, ms @ [(tag, ctrls)]))" by (simp add: q)
    have "items_ok ?log ch (w_items w ch @ [(item, ctrls)])"
      unfolding items_ok_def using q q' it by (intro exI [of _ ?log]) auto
    moreover have "chans_ok s'"
      using inv(2) used by (auto simp: s' search(5,6) chans_ok_def ran_def)
    moreover have "waiting_ok ?log (c', w')"
      by (rule waiting_ok_item [OF inv(3) search(1) other it search(5)]) (simp_all add: search(6))
    moreover have "delivered_ok ?log (c', w')"
      by (rule delivered_ok_item [OF inv(4) \<open>items_ok _ _ _\<close>]) (simp_all add: search(6))
    ultimately show ?thesis by (simp add: s' delivered_ok_def waiting_ok_def)
  next
    case (single t)
    then have q: "last_request log i = Some (Single, t, [])" using inv(3) by (auto simp: waiting_ok_def)
    have "chans_ok s'" using inv(2) by (auto simp: s' single chans_ok_def)
    moreover have "waiting_ok ?log s'"
      using inv(3) single(1) q by (auto simp: s' single(4,5) waiting_ok_def)
    ultimately show ?thesis
      using inv(4) q by (auto simp: s' single(5) delivered_ok_def result_ok_append result_ok_answer items_ok_append)
  next
    case unmatched
    then show ?thesis
      using inv by (auto simp: s' chans_ok_def waiting_ok_def delivered_ok_def result_ok_append items_ok_append split: option.split)
  qed
  then show ?thesis using assms(2) by (simp add: hist_inv_def)
qed

interpretation hi: invariant "([], sys_init)" logged orderly hist_inv
proof
  show "hist_inv ([], sys_init)"
    using ci.inv_start by (simp add: hist_inv_def sys_init_def conn_pair_def world_init_def chans_ok_def waiting_ok_def delivered_ok_def)
  fix x a y
  assume x: "hist_inv x" "orderly x a" "logged a x = Some y"
  obtain log c w where xs: "x = (log, c, w)" by (cases x)
  with x obtain s' where s': "act a (c, w) = Some s'" "y = (log @ entries_of a (c, w), s')" by (auto simp: logged_def)
  have inv: "hist_inv (log, c, w)" "in_order (c, w) a" "new_chan (c, w) a" using x xs by (simp_all add: orderly_def)
  have c: "conn_inv s'" using ci.inv_step [OF _ inv(2) s'(1)] inv(1) by (simp add: hist_inv_def)
  show "hist_inv y"
  proof (cases a)
    case Submit
    then show ?thesis using hist_inv_Submit [OF inv(1) c] s' inv(3) by simp
  next
    case Take_Op
    then show ?thesis using hist_inv_Take_Op [OF inv(1) c] s' by simp
  next
    case (Receive r)
    consider "r = None" | e where "r = Some (Err e)" | i tag ctrls where "r = Some (Ok (i, tag, ctrls))"
      by (metis option.exhaust result.exhaust prod_cases3)
    then show ?thesis
      by cases (use hist_inv_message [OF inv(1) c] hist_inv_quiet_step [OF inv(1) c s'(1)] s' Receive in auto)
  qed (use hist_inv_quiet_step [OF inv(1) c s'(1)] s' in auto)
qed

text \<open>
  A run with two operations and a search, answered out of order: the second operation first, then
  an entry of the search, then the first operation.
\<close>

definition example_entry_tag :: Tag where
  "example_entry_tag = Tag_StructureTag (StructureTag Application 4 (PL_C []))"

definition mixed_run :: "action list" where
  "mixed_run = [example_op Single, example_op (Search 7), example_op Single, Take_Op, Take_Op,
     Take_Op, Receive (Some (Ok (3, Null, []))), Receive (Some (Ok (2, example_entry_tag, []))),
     Receive (Some (Ok (1, Integer 5, [])))]"

definition mixed_end :: "entry list \<times> sys" where
  "mixed_end = the (runs logged orderly mixed_run ([], sys_init))"

lemma mixed_run_Some: "runs logged orderly mixed_run ([], sys_init) = Some mixed_end"
proof -
  have "runs logged orderly mixed_run ([], sys_init) \<noteq> None" by code_simp
  then show ?thesis by (auto simp: mixed_end_def)
qed

lemma mixed_end_facts:
  "w_results (snd (snd mixed_end)) 0 = Some (Integer 5, [])" "w_results (snd (snd mixed_end)) 2 = Some (Null, [])"
  "w_items (snd (snd mixed_end)) 7 = [(Item_Entry (StructureTag Application 4 (PL_C [])), [])]"
  "fst mixed_end = [Sent 1 Single 0, Sent 2 (Search 7) 1, Sent 3 Single 2, Got 3 Null [], Got 2 example_entry_tag [], Got 1 (Integer 5) []]"
  by code_simp+

subsection \<open>Properties\<close>

text \<open>
  Claim C7. No crosstalk: in every interleaving of the operations of any number of handles, the
  connection and the server, in which scrub requests do not overtake their operations, a result
  that a handle gets is either the Null with which the connection completes an operation
  other than a single one, or the first message that came with the ID of the request after it was
  sent and before any other request with that ID was sent. The items of a search are the messages
  that came with its ID since it was sent, in order, without gaps, up to some point of the
  history; as long as the search is registered, none is missing.
\<close>

theorem no_crosstalk:
  assumes "runs logged orderly as ([], sys_init) = Some (log, c, w)"
  shows "(\<forall>t r. w_results w t = Some r \<longrightarrow>
      (\<exists>past i op later. log = past @ Sent i op t # later \<and> op \<noteq> Single \<and> r = (Null, [])) \<or>
      (\<exists>past i later. log = past @ Got i (fst r) (snd r) # later \<and> last_request past i = Some (Single, t, []))) \<and>
    (\<forall>ch. w_items w ch \<noteq> [] \<longrightarrow>
      (\<exists>past i t ms later. log = past @ later \<and> last_request past i = Some (Search ch, t, ms) \<and> map msg_item ms = map Some (w_items w ch))) \<and>
    (\<forall>i ch. searchmap c i = Some ch \<longrightarrow>
      (\<exists>t ms. last_request log i = Some (Search ch, t, ms) \<and> map msg_item ms = map Some (w_items w ch)))"
  using hi.inv_runs [OF hi.inv_start assms]
  by (simp add: hist_inv_def waiting_ok_def delivered_ok_def result_ok_def items_ok_def)

theorem no_crosstalk_witness:
  "(\<exists>past i later. fst mixed_end = past @ Got i (Integer 5) [] # later \<and> last_request past i = Some (Single, 0, [])) \<and>
   (\<exists>past i t ms later. fst mixed_end = past @ later \<and> last_request past i = Some (Search 7, t, ms) \<and>
      map msg_item ms = [Some (Item_Entry (StructureTag Application 4 (PL_C [])), [])])"
proof -
  have "runs logged orderly mixed_run ([], sys_init) = Some (fst mixed_end, fst (snd mixed_end), snd (snd mixed_end))"
    using mixed_run_Some by simp
  note ok = no_crosstalk [OF this]
  have "(Integer 5, []) \<noteq> (Null, [])" by (simp add: Null_def Integer_def)
  with ok [THEN conjunct1, rule_format, OF mixed_end_facts(1)]
  have "\<exists>past i later. fst mixed_end = past @ Got i (Integer 5) [] # later \<and> last_request past i = Some (Single, 0, [])"
    unfolding fst_conv snd_conv by blast
  moreover have "w_items (snd (snd mixed_end)) 7 \<noteq> []" by (simp add: mixed_end_facts(3))
  note ok [THEN conjunct2, THEN conjunct1, rule_format, OF this, unfolded mixed_end_facts(3) list.map]
  ultimately show ?thesis by (rule conjI)
qed

end
