(* ===== verification/Conn_Setup.thy ===== *)
theory Conn_Setup
  imports Connection
begin

text \<open>
  Opening a connection (\<open>src/conn.rs\<close>): the settings, the choice of transport from the URL, Unix and
  TCP streams, and TLS from the start (\<open>ldaps\<close>) or after the StartTLS operation. Sockets are numbers.
  What the code uses of tokio's networking and of \<open>Framed\<close> is the record \<open>net_env\<close>, what it uses of the
  two TLS libraries and of the certificate parser the record \<open>tls_lib\<close>; the parsed URL is a record of
  the parts that are read. \<open>tls_feature\<close> is the TLS feature of the build.

  Shown here: a connection for which TLS was asked for is never returned without TLS; StartTLS with
  a server that agrees gives an encrypted connection that has forgotten all clear text, with one
  that refuses an error; when the server closes the stream instead, the call does not return.
\<close>

subsection \<open>conn.rs: settings\<close>

type_synonym socket = nat

datatype tls_feature = No_Tls | Tls_Native | Tls_Rustls

datatype ConnType = Tcp socket | Tls socket | Unix socket

datatype StdStream = Std_Tcp socket | Std_Unix socket | Std_Invalid

definition StdStream_clone :: "StdStream \<Rightarrow> StdStream" where
  "StdStream_clone self = Std_Invalid"

text \<open>\<open>connector\<close> is a field of the build with \<open>native-tls\<close>, \<open>config\<close> of the one with \<open>rustls\<close>.\<close>

record ('con, 'conf) LdapConnSettings =
  conn_timeout :: "duration option"
  connector :: "'con option"
  config :: "'conf option"
  starttls :: bool
  no_tls_verify :: bool
  std_stream :: "StdStream option"

definition LdapConnSettings_new :: "('con, 'conf) LdapConnSettings" where
  "LdapConnSettings_new = \<lparr> conn_timeout = None, connector = None, config = None, starttls = False,
     no_tls_verify = False, std_stream = None \<rparr>"

definition LdapConnSettings_clone :: "('con, 'conf) LdapConnSettings \<Rightarrow> ('con, 'conf) LdapConnSettings" where
  "LdapConnSettings_clone self = self\<lparr> std_stream := map_option StdStream_clone (std_stream self) \<rparr>"

definition set_conn_timeout :: "duration \<Rightarrow> ('con, 'conf) LdapConnSettings \<Rightarrow> ('con, 'conf) LdapConnSettings" where
  "set_conn_timeout t self = self\<lparr> conn_timeout := Some t \<rparr>"

definition set_connector :: "'con \<Rightarrow> ('con, 'conf) LdapConnSettings \<Rightarrow> ('con, 'conf) LdapConnSettings" where
  "set_connector c self = self\<lparr> connector := Some c \<rparr>"

definition set_config :: "'conf \<Rightarrow> ('con, 'conf) LdapConnSettings \<Rightarrow> ('con, 'conf) LdapConnSettings" where
  "set_config c self = self\<lparr> config := Some c \<rparr>"

definition set_starttls :: "bool \<Rightarrow> ('con, 'conf) LdapConnSettings \<Rightarrow> ('con, 'conf) LdapConnSettings" where
  "set_starttls b self = self\<lparr> starttls := b \<rparr>"

definition get_starttls :: "tls_feature \<Rightarrow> ('con, 'conf) LdapConnSettings \<Rightarrow> bool" where
  "get_starttls ft self = (if ft = No_Tls then False else starttls self)"

definition set_no_tls_verify :: "bool \<Rightarrow> ('con, 'conf) LdapConnSettings \<Rightarrow> ('con, 'conf) LdapConnSettings" where
  "set_no_tls_verify b self = self\<lparr> no_tls_verify := b \<rparr>"

definition set_std_stream :: "StdStream \<Rightarrow> ('con, 'conf) LdapConnSettings \<Rightarrow> ('con, 'conf) LdapConnSettings" where
  "set_std_stream s self = self\<lparr> std_stream := Some s \<rparr>"

subsection \<open>The surroundings\<close>

text \<open>
  Calls of the form \<open>f(..).await?\<close> on the surroundings: \<open>None\<close> for a panic or no return.
\<close>

type_synonym ('a, 'e, 'w) io = "'w \<Rightarrow> (('a, 'e) result \<times> 'w) panicking"

definition try_ok :: "('a, 'e, 'w) io \<Rightarrow> ('a \<Rightarrow> ('b, 'e, 'w) io) \<Rightarrow> ('b, 'e, 'w) io" where
  "try_ok m k w = do {
     (r, w) \<leftarrow> m w;
     case r of Err e \<Rightarrow> Some (Err e, w) | Ok x \<Rightarrow> k x w
   }"

fun map_err :: "('e \<Rightarrow> 'f) \<Rightarrow> ('a, 'e) result \<Rightarrow> ('a, 'f) result" where
  "map_err f (Ok x) = Ok x"
| "map_err f (Err e) = Err (f e)"

definition io_err :: "('e \<Rightarrow> 'f) \<Rightarrow> ('a, 'e, 'w) io \<Rightarrow> ('a, 'f, 'w) io" where
  "io_err f m w = map_option (\<lambda>(r, w). (map_err f r, w)) (m w)"

record Url =
  url_scheme :: bytes
  url_host_str :: "bytes option"
  url_port :: "16 word option"

text \<open>
  Connecting, taking over a stream of the standard library, \<open>codec.framed(io)\<close> (with empty buffers)
  and \<open>into_parts\<close>; \<open>tokio::spawn\<close> of \<open>single_op\<close> with its \<open>oneshot\<close> channel, awaiting what it sends
  (\<open>None\<close>: the task is gone), and \<open>time::timeout\<close> (\<open>None\<close>: elapsed).
\<close>

record 'w net_env =
  rt :: "'w tokio"
  tcp_connect :: "bytes \<Rightarrow> (socket, io_error, 'w) io"
  unix_connect :: "bytes \<Rightarrow> (socket, io_error, 'w) io"
  set_nonblocking :: "socket \<Rightarrow> (unit, io_error, 'w) io"
  tcp_from_std :: "socket \<Rightarrow> (socket, io_error, 'w) io"
  unix_from_std :: "socket \<Rightarrow> (socket, io_error, 'w) io"
  st_framed :: "ConnType \<Rightarrow> 'w \<Rightarrow> 'w"
  st_into_parts :: "'w \<Rightarrow> ConnType \<times> 'w"
  spawn_single_op :: "LdapConnAsync \<Rightarrow> 'w \<Rightarrow> ticket \<times> 'w"
  await_conn :: "ticket \<Rightarrow> 'w \<Rightarrow> ((LdapConnAsync, LdapError) result option \<times> 'w) panicking"
  deadline :: "duration \<Rightarrow> (LdapConnAsync \<times> Ldap, LdapError, 'w) io \<Rightarrow> 'w \<Rightarrow>
    ((LdapConnAsync \<times> Ldap, LdapError) result option \<times> 'w) panicking"

text \<open>
  The TLS libraries. \<open>native_build\<close> is \<open>TlsConnector::builder\<close> with \<open>danger_accept_invalid_certs\<close> set or
  not; \<open>native_certs\<close> gives the certificates and the errors of \<open>load_native_certs\<close>, \<open>client_config\<close> is the
  client configuration without client authentication for a store of root certificates, a store being
  the list of the certificates that were given to \<open>add\<close>. \<open>x509_sigalg\<close> is the signature algorithm of a
  certificate; certificates of \<open>native-tls\<close> are numbers. A verifier of \<open>rustls\<close> is the record of its
  methods, on certificates, names, OCSP responses, times, messages and signatures as bytes and
  numbers; the result says whether the method returns \<open>Ok\<close>.
\<close>

datatype Algorithm = SHA256 | SHA384 | SHA512

datatype SignatureScheme = RSA_PKCS1_SHA1 | ECDSA_SHA1_Legacy | RSA_PKCS1_SHA256 | ECDSA_NISTP256_SHA256
  | RSA_PKCS1_SHA384 | ECDSA_NISTP384_SHA384 | RSA_PKCS1_SHA512 | ECDSA_NISTP521_SHA512
  | RSA_PSS_SHA256 | RSA_PSS_SHA384 | RSA_PSS_SHA512

record ServerCertVerifier =
  verify_server_cert :: "bytes \<Rightarrow> bytes list \<Rightarrow> bytes \<Rightarrow> bytes \<Rightarrow> nat \<Rightarrow> bool"
  verify_tls12_signature :: "bytes \<Rightarrow> bytes \<Rightarrow> bytes \<Rightarrow> bool"
  verify_tls13_signature :: "bytes \<Rightarrow> bytes \<Rightarrow> bytes \<Rightarrow> bool"
  supported_verify_schemes :: "SignatureScheme list"

record ('con, 'conf, 'sn, 'w) tls_lib =
  native_build :: "bool \<Rightarrow> 'con option"
  native_connect :: "'con \<Rightarrow> bytes \<Rightarrow> socket \<Rightarrow> (socket, unit, 'w) io"
  native_end_point :: "socket \<Rightarrow> (bytes option, unit) result"
  native_peer_certificate :: "socket \<Rightarrow> (nat option, unit) result"
  native_to_der :: "nat \<Rightarrow> (bytes, unit) result"
  native_certs :: "bytes list \<times> bytes list"
  client_config :: "bytes list \<Rightarrow> 'conf"
  set_certificate_verifier :: "ServerCertVerifier \<Rightarrow> 'conf \<Rightarrow> 'conf"
  server_name :: "bytes \<Rightarrow> 'sn option"
  is_ip_addr :: "bytes \<Rightarrow> bool"
  rustls_connect :: "'conf \<Rightarrow> 'sn \<Rightarrow> socket \<Rightarrow> (socket, io_error, 'w) io"
  peer_certificates :: "socket \<Rightarrow> bytes list option"
  x509_sigalg :: "bytes \<Rightarrow> bytes option"
  digest :: "Algorithm \<Rightarrow> bytes \<Rightarrow> bytes"

subsection \<open>conn.rs: reading from and writing to a connection\<close>

text \<open>
  \<open>AsyncRead\<close> and \<open>AsyncWrite\<close> of \<open>ConnType\<close> pass each call on to the stream inside. The functions of the
  three kinds of streams are the fields of \<open>stream_io\<close>; a read takes the space left in the buffer
  and returns the bytes put there.
\<close>

datatype 'a poll = Ready 'a | Pending

record 'w stream_io =
  s_poll_read :: "socket \<Rightarrow> nat \<Rightarrow> 'w \<Rightarrow> (bytes, io_error) result poll \<times> 'w"
  s_poll_write :: "socket \<Rightarrow> bytes \<Rightarrow> 'w \<Rightarrow> (nat, io_error) result poll \<times> 'w"
  s_poll_flush :: "socket \<Rightarrow> 'w \<Rightarrow> (unit, io_error) result poll \<times> 'w"
  s_poll_shutdown :: "socket \<Rightarrow> 'w \<Rightarrow> (unit, io_error) result poll \<times> 'w"

record 'w stream_kinds =
  tcp_io :: "'w stream_io"
  tls_io :: "'w stream_io"
  unix_io :: "'w stream_io"

fun ConnType_poll_read :: "'w stream_kinds \<Rightarrow> ConnType \<Rightarrow> nat \<Rightarrow> 'w \<Rightarrow> (bytes, io_error) result poll \<times> 'w" where
  "ConnType_poll_read K (Tcp ts) = s_poll_read (tcp_io K) ts"
| "ConnType_poll_read K (Tls tls) = s_poll_read (tls_io K) tls"
| "ConnType_poll_read K (Unix us) = s_poll_read (unix_io K) us"

fun ConnType_poll_write :: "'w stream_kinds \<Rightarrow> ConnType \<Rightarrow> bytes \<Rightarrow> 'w \<Rightarrow> (nat, io_error) result poll \<times> 'w" where
  "ConnType_poll_write K (Tcp ts) = s_poll_write (tcp_io K) ts"
| "ConnType_poll_write K (Tls tls) = s_poll_write (tls_io K) tls"
| "ConnType_poll_write K (Unix us) = s_poll_write (unix_io K) us"

fun ConnType_poll_flush :: "'w stream_kinds \<Rightarrow> ConnType \<Rightarrow> 'w \<Rightarrow> (unit, io_error) result poll \<times> 'w" where
  "ConnType_poll_flush K (Tcp ts) = s_poll_flush (tcp_io K) ts"
| "ConnType_poll_flush K (Tls tls) = s_poll_flush (tls_io K) tls"
| "ConnType_poll_flush K (Unix us) = s_poll_flush (unix_io K) us"

fun ConnType_poll_shutdown :: "'w stream_kinds \<Rightarrow> ConnType \<Rightarrow> 'w \<Rightarrow> (unit, io_error) result poll \<times> 'w" where
  "ConnType_poll_shutdown K (Tcp ts) = s_poll_shutdown (tcp_io K) ts"
| "ConnType_poll_shutdown K (Tls tls) = s_poll_shutdown (tls_io K) tls"
| "ConnType_poll_shutdown K (Unix us) = s_poll_shutdown (unix_io K) us"

subsection \<open>conn.rs: TLS\<close>

definition NoCertVerification :: ServerCertVerifier where
  "NoCertVerification = \<lparr>
     verify_server_cert = (\<lambda>_ _ _ _ _. True),
     verify_tls12_signature = (\<lambda>_ _ _. True),
     verify_tls13_signature = (\<lambda>_ _ _. True),
     supported_verify_schemes =
       [RSA_PKCS1_SHA1, ECDSA_SHA1_Legacy, RSA_PKCS1_SHA256, ECDSA_NISTP256_SHA256, RSA_PKCS1_SHA384,
        ECDSA_NISTP384_SHA384, RSA_PKCS1_SHA512, ECDSA_NISTP521_SHA512, RSA_PSS_SHA256, RSA_PSS_SHA384,
        RSA_PSS_SHA512] \<rparr>"

text \<open>The system's certificates; none of them when there was an error with any.\<close>

definition CACERTS :: "('con, 'conf, 'sn, 'w) tls_lib \<Rightarrow> bytes list" where
  "CACERTS L =
     (let (certs, errors) = native_certs L;
          cert_vec = (if errors = [] then certs else [])
      in fold (\<lambda>cert store. store @ [cert]) cert_vec [])"

definition create_connector :: "('con, 'conf, 'sn, 'w) tls_lib \<Rightarrow> ('con, 'conf) LdapConnSettings \<Rightarrow> 'con panicking" where
  "create_connector L settings = expect (native_build L (no_tls_verify settings))"

definition create_config :: "('con, 'conf, 'sn, 'w) tls_lib \<Rightarrow> ('con, 'conf) LdapConnSettings \<Rightarrow> 'conf" where
  "create_config L settings =
     (let config = client_config L (CACERTS L) in
      if no_tls_verify settings then set_certificate_verifier L NoCertVerification config else config)"

text \<open>\<open>create_tls_stream\<close> of the two builds.\<close>

definition create_tls_stream_native ::
    "('con, 'conf, 'sn, 'w) tls_lib \<Rightarrow> ('con, 'conf) LdapConnSettings \<Rightarrow> bytes \<Rightarrow> socket \<Rightarrow> (socket, LdapError, 'w) io" where
  "create_tls_stream_native L settings hostname stream w = do {
     con \<leftarrow> (case connector settings of Some c \<Rightarrow> Some c | None \<Rightarrow> create_connector L settings);
     io_err (\<lambda>_. NativeTLS) (native_connect L con hostname stream) w
   }"

definition rustls_name :: "('con, 'conf, 'sn, 'w) tls_lib \<Rightarrow> bool \<Rightarrow> bytes \<Rightarrow> 'sn option" where
  "rustls_name L no_verify hostname =
     (case server_name L hostname of
        Some sn \<Rightarrow> Some sn
      | None \<Rightarrow> if no_verify \<and> is_ip_addr L hostname then server_name L (str ''_irrelevant'') else None)"

definition create_tls_stream_rustls ::
    "('con, 'conf, 'sn, 'w) tls_lib \<Rightarrow> ('con, 'conf) LdapConnSettings \<Rightarrow> bytes \<Rightarrow> socket \<Rightarrow> (socket, LdapError, 'w) io" where
  "create_tls_stream_rustls L settings hostname stream w =
     (let conf = (case config settings of Some c \<Rightarrow> c | None \<Rightarrow> create_config L settings) in
      case rustls_name L (no_tls_verify settings) hostname of
        None \<Rightarrow> Some (Err DNSName, w)
      | Some sn \<Rightarrow> io_err Io (rustls_connect L conf sn stream) w)"

fun create_tls_stream ::
    "tls_feature \<Rightarrow> ('con, 'conf, 'sn, 'w) tls_lib \<Rightarrow> ('con, 'conf) LdapConnSettings \<Rightarrow> bytes \<Rightarrow> socket \<Rightarrow>
     (socket, LdapError, 'w) io" where
  "create_tls_stream Tls_Native L = create_tls_stream_native L"
| "create_tls_stream Tls_Rustls L = create_tls_stream_rustls L"
| "create_tls_stream No_Tls L = (\<lambda>_ _ _ _. panic)"

definition ENDPOINT_ALG :: "bytes \<Rightarrow> Algorithm option" where
  "ENDPOINT_ALG = map_of
     [(str ''1.2.840.113549.1.1.4'', SHA256),
      (str ''1.2.840.113549.1.1.5'', SHA256),
      (str ''1.2.840.113549.1.1.11'', SHA256),
      (str ''1.2.840.113549.1.1.12'', SHA384),
      (str ''1.2.840.113549.1.1.13'', SHA512),
      (str ''1.2.840.10045.4.3.2'', SHA256),
      (str ''1.2.840.10045.4.3.3'', SHA384),
      (str ''1.2.840.10045.4.3.4'', SHA512)]"

definition endpoint_token_native :: "('con, 'conf, 'sn, 'w) tls_lib \<Rightarrow> socket \<Rightarrow> bytes option" where
  "endpoint_token_native L s = (case native_end_point L s of Ok ep \<Rightarrow> ep | Err _ \<Rightarrow> None)"

text \<open>\<open>certs[0]\<close> of an empty list panics.\<close>

definition endpoint_token_rustls :: "('con, 'conf, 'sn, 'w) tls_lib \<Rightarrow> socket \<Rightarrow> bytes option panicking" where
  "endpoint_token_rustls L s =
     (case peer_certificates L s of
        Some certs \<Rightarrow> do {
          peer_cert \<leftarrow> vec_index certs 0;
          Some (case x509_sigalg L peer_cert of
              None \<Rightarrow> None
            | Some sigalg \<Rightarrow> map_option (\<lambda>alg. digest L alg peer_cert) (ENDPOINT_ALG sigalg))
        }
      | None \<Rightarrow> Some None)"

fun get_tls_endpoint_token :: "tls_feature \<Rightarrow> ('con, 'conf, 'sn, 'w) tls_lib \<Rightarrow> socket \<Rightarrow> bytes option panicking" where
  "get_tls_endpoint_token Tls_Native L s = Some (endpoint_token_native L s)"
| "get_tls_endpoint_token Tls_Rustls L s = endpoint_token_rustls L s"
| "get_tls_endpoint_token No_Tls L s = panic"

definition peer_certificate_native :: "('con, 'conf, 'sn, 'w) tls_lib \<Rightarrow> socket \<Rightarrow> (bytes option, LdapError) result" where
  "peer_certificate_native L tls =
     (case native_peer_certificate L tls of
        Ok (Some x) \<Rightarrow> (case native_to_der L x of Ok ret \<Rightarrow> Ok (Some ret) | Err _ \<Rightarrow> Err NativeTLS)
      | Ok None \<Rightarrow> Ok None
      | Err _ \<Rightarrow> Err NativeTLS)"

definition peer_certificate_rustls :: "('con, 'conf, 'sn, 'w) tls_lib \<Rightarrow> socket \<Rightarrow> (bytes option, LdapError) result" where
  "peer_certificate_rustls L tls =
     (case peer_certificates L tls of
        None \<Rightarrow> Ok None
      | Some certs \<Rightarrow> (case certs of [] \<Rightarrow> Ok None | cert # _ \<Rightarrow> Ok (Some cert)))"

fun get_peer_certificate :: "tls_feature \<Rightarrow> ('con, 'conf, 'sn, 'w) tls_lib \<Rightarrow> ConnType \<Rightarrow> (bytes option, LdapError) result" where
  "get_peer_certificate Tls_Native L (Tls tls) = peer_certificate_native L tls"
| "get_peer_certificate Tls_Rustls L (Tls tls) = peer_certificate_rustls L tls"
| "get_peer_certificate _ L _ = Ok None"

subsection \<open>conn.rs: opening\<close>

text \<open>\<open>conn_pair\<close> on the surroundings.\<close>

definition open_pair :: "'w net_env \<Rightarrow> ConnType \<Rightarrow> 'w \<Rightarrow> LdapConnAsync \<times> Ldap \<times> 'w" where
  "open_pair X io w =
     (let (conn, ldap, m) = conn_pair in (conn, ldap, ch_set_msgmap (rt X) m (st_framed X io w)))"

definition contains :: "u8 \<Rightarrow> bytes \<Rightarrow> bool" where
  "contains c s = list_ex (\<lambda>x. x = c) s"

definition new_unix ::
    "'w net_env \<Rightarrow> (bytes \<Rightarrow> bytes) \<Rightarrow> Url \<Rightarrow> ('con, 'conf) LdapConnSettings \<Rightarrow> (LdapConnAsync \<times> Ldap, LdapError, 'w) io" where
  "new_unix X percent_decode_lossy url settings =
     try_ok
       (case std_stream settings of
          None \<Rightarrow>
            let path = (case url_host_str url of Some h \<Rightarrow> h | None \<Rightarrow> []) in
            if path = [] then (\<lambda>w. Some (Err EmptyUnixPath, w))
            else if contains 0x3A path then (\<lambda>w. Some (Err PortInUnixPath, w))
            else io_err Io (unix_connect X (percent_decode_lossy path))
        | Some (Std_Unix stream) \<Rightarrow> io_err Io (try_ok (set_nonblocking X stream) (\<lambda>_. unix_from_std X stream))
        | Some _ \<Rightarrow> (\<lambda>w. Some (Err MismatchedStreamType, w)))
       (\<lambda>stream w. let (conn, ldap, w) = open_pair X (Unix stream) w in Some (Ok (conn, ldap), w))"

text \<open>\<open>new_unix\<close> on platforms without Unix sockets.\<close>

definition new_unix_unsupported :: "Url \<Rightarrow> ('con, 'conf) LdapConnSettings \<Rightarrow> (LdapConnAsync \<times> Ldap, LdapError, 'w) io" where
  "new_unix_unsupported url settings w = panic"

definition tcp_scheme ::
    "tls_feature \<Rightarrow> Url \<Rightarrow> ('con, 'conf) LdapConnSettings \<Rightarrow> (bytes \<times> 16 word \<times> ('con, 'conf) LdapConnSettings, LdapError) result" where
  "tcp_scheme ft url settings =
     (if url_scheme url = str ''ldap'' then
        Ok (if get_starttls ft settings then str ''starttls'' else str ''ldap'', 389, settings)
      else if url_scheme url = str ''ldaps'' \<and> ft \<noteq> No_Tls then Ok (str ''ldaps'', 636, set_starttls False settings)
      else Err (UnknownScheme (url_scheme url)))"

definition tcp_host :: "Url \<Rightarrow> 16 word \<Rightarrow> (bytes \<times> bytes) panicking" where
  "tcp_host url port =
     (case url_host_str url of
        Some h \<Rightarrow>
          let h = (if h = [] then str ''localhost'' else h) in Some (h, h @ str '':'' @ decimal (unat port))
      | None \<Rightarrow> panic)"

definition tcp_stream :: "'w net_env \<Rightarrow> ('con, 'conf) LdapConnSettings \<Rightarrow> bytes \<Rightarrow> (socket, LdapError, 'w) io" where
  "tcp_stream X settings host_port =
     (case std_stream settings of
        None \<Rightarrow> io_err Io (tcp_connect X host_port)
      | Some (Std_Tcp stream) \<Rightarrow> io_err Io (try_ok (set_nonblocking X stream) (\<lambda>_. tcp_from_std X stream))
      | Some _ \<Rightarrow> (\<lambda>w. Some (Err MismatchedStreamType, w)))"

text \<open>\<open>drive\<close> and the part of \<open>single_op\<close> before its result is sent, for what the futures return.\<close>

definition drive ::
    "('w, 'z) channels_scheme \<Rightarrow> event list \<Rightarrow> LdapConnAsync \<Rightarrow> 'w \<Rightarrow> ((unit, LdapError) result option \<times> 'w) panicking" where
  "drive T evs self w = map_option (\<lambda>(r, _, w). (r, w)) (turn T Continuous evs self w)"

definition conn_single_op ::
    "('w, 'z) channels_scheme \<Rightarrow> event list \<Rightarrow> LdapConnAsync \<Rightarrow> 'w \<Rightarrow>
     ((unit, LdapError) result option \<times> LdapConnAsync \<times> 'w) panicking" where
  "conn_single_op T evs self w = turn T SingleOp evs self w"

text \<open>
  The StartTLS exchange: the connection runs in a task of its own until the operation is over, and
  \<open>try_join!\<close> awaits both the task and the operation. The operation returns an error whenever the
  task is gone without a result, so the order in which the two are awaited makes no difference.
\<close>

definition try_join ::
    "'w net_env \<Rightarrow> ticket \<Rightarrow> (ExopResult, Ldap, 'w) async \<Rightarrow> Ldap \<Rightarrow>
     ((LdapConnAsync, LdapError) result \<times> ExopResult \<times> Ldap, LdapError, 'w) io" where
  "try_join X rx op ldap w = do {
     (res, ldap, w) \<leftarrow> op ldap w;
     case res of
       Err e \<Rightarrow> Some (Err e, w)
     | Ok res \<Rightarrow> do {
         (conn_res, w) \<leftarrow> await_conn X rx w;
         Some (case conn_res of None \<Rightarrow> Err ResultRecv | Some conn_res \<Rightarrow> Ok (conn_res, res, ldap), w)
       }
   }"

definition starttls_done ::
    "(LdapConnAsync, LdapError) result \<times> ExopResult \<times> Ldap \<Rightarrow> (LdapConnAsync \<times> Ldap, LdapError) result" where
  "starttls_done = (\<lambda>(conn_res, res, ldap).
     and_then conn_res (\<lambda>conn. and_then (ExopResult_success res) (\<lambda>_. Ok (conn, ldap))))"

definition start_tls :: "'w net_env \<Rightarrow> LdapConnAsync \<Rightarrow> Ldap \<Rightarrow> (LdapConnAsync \<times> Ldap, LdapError, 'w) io" where
  "start_tls X conn ldap w =
     (let (rx, w) = spawn_single_op X conn w in
      try_ok (try_join X rx (extended (rt X) StartTLS_into) ldap) (\<lambda>r w. Some (starttls_done r, w)) w)"

definition secure ::
    "tls_feature \<Rightarrow> ('con, 'conf, 'sn, 'w) tls_lib \<Rightarrow> 'w net_env \<Rightarrow> ('con, 'conf) LdapConnSettings \<Rightarrow> bytes \<Rightarrow>
     LdapConnAsync \<times> Ldap \<Rightarrow> (LdapConnAsync \<times> Ldap, LdapError, 'w) io" where
  "secure ft L X settings hostname = (\<lambda>(conn, ldap) w.
     let (io, w) = st_into_parts X w in
     case io of
       Tcp stream \<Rightarrow>
         try_ok (create_tls_stream ft L settings hostname stream)
           (\<lambda>tls_stream w. do {
              token \<leftarrow> get_tls_endpoint_token ft L tls_stream;
              Some (Ok (conn, ldap\<lparr> tls_endpoint_token := token, has_tls := True \<rparr>), st_framed X (Tls tls_stream) w)
            }) w
     | _ \<Rightarrow> panic)"

definition new_tcp ::
    "tls_feature \<Rightarrow> ('con, 'conf, 'sn, 'w) tls_lib \<Rightarrow> 'w net_env \<Rightarrow> Url \<Rightarrow> ('con, 'conf) LdapConnSettings \<Rightarrow>
     (LdapConnAsync \<times> Ldap, LdapError, 'w) io" where
  "new_tcp ft L X url settings w =
     (case tcp_scheme ft url settings of
        Err e \<Rightarrow> Some (Err e, w)
      | Ok (scheme, port, settings) \<Rightarrow> do {
          let port = (case url_port url of Some p \<Rightarrow> p | None \<Rightarrow> port);
          (hostname, host_port) \<leftarrow> tcp_host url port;
          try_ok (tcp_stream X settings host_port)
            (\<lambda>stream w.
               let (conn, ldap, w) = open_pair X (Tcp stream) w in
               if scheme = str ''ldap'' then Some (Ok (conn, ldap), w)
               else if scheme = str ''starttls'' then
                 try_ok (start_tls X conn ldap) (secure ft L X settings hostname) w
               else secure ft L X settings hostname (conn, ldap) w) w
        })"

definition from_url_with_settings ::
    "tls_feature \<Rightarrow> ('con, 'conf, 'sn, 'w) tls_lib \<Rightarrow> 'w net_env \<Rightarrow> (bytes \<Rightarrow> bytes) \<Rightarrow> ('con, 'conf) LdapConnSettings \<Rightarrow> Url \<Rightarrow>
     (LdapConnAsync \<times> Ldap, LdapError, 'w) io" where
  "from_url_with_settings ft L X percent_decode_lossy settings url w =
     (if url_scheme url = str ''ldapi'' then new_unix X percent_decode_lossy url settings w
      else
        let t = conn_timeout settings; settings = settings\<lparr> conn_timeout := None \<rparr> in
        case t of
          Some t \<Rightarrow> do {
            (r, w) \<leftarrow> deadline X t (new_tcp ft L X url settings) w;
            Some (case r of None \<Rightarrow> Err Timeout | Some r \<Rightarrow> r, w)
          }
        | None \<Rightarrow> new_tcp ft L X url settings w)"

definition with_settings ::
    "tls_feature \<Rightarrow> ('con, 'conf, 'sn, 'w) tls_lib \<Rightarrow> 'w net_env \<Rightarrow> (bytes \<Rightarrow> bytes) \<Rightarrow> (bytes \<Rightarrow> Url option) \<Rightarrow>
     ('con, 'conf) LdapConnSettings \<Rightarrow> bytes \<Rightarrow> (LdapConnAsync \<times> Ldap, LdapError, 'w) io" where
  "with_settings ft L X percent_decode_lossy Url_parse settings url w =
     (case Url_parse url of
        None \<Rightarrow> Some (Err UrlParsing, w)
      | Some url \<Rightarrow> from_url_with_settings ft L X percent_decode_lossy settings url w)"

definition LdapConnAsync_new ::
    "tls_feature \<Rightarrow> ('con, 'conf, 'sn, 'w) tls_lib \<Rightarrow> 'w net_env \<Rightarrow> (bytes \<Rightarrow> bytes) \<Rightarrow> (bytes \<Rightarrow> Url option) \<Rightarrow> bytes \<Rightarrow>
     (LdapConnAsync \<times> Ldap, LdapError, 'w) io" where
  "LdapConnAsync_new ft L X percent_decode_lossy Url_parse =
     with_settings ft L X percent_decode_lossy Url_parse LdapConnSettings_new"

definition from_url ::
    "tls_feature \<Rightarrow> ('con, 'conf, 'sn, 'w) tls_lib \<Rightarrow> 'w net_env \<Rightarrow> (bytes \<Rightarrow> bytes) \<Rightarrow> Url \<Rightarrow>
     (LdapConnAsync \<times> Ldap, LdapError, 'w) io" where
  "from_url ft L X percent_decode_lossy = from_url_with_settings ft L X percent_decode_lossy LdapConnSettings_new"

subsection \<open>TLS is not skipped\<close>

lemma try_ok_Ok:
  "try_ok m k w = Some (Ok y, w') \<longleftrightarrow> (\<exists>x w1. m w = Some (Ok x, w1) \<and> k x w1 = Some (Ok y, w'))"
  by (cases "m w") (auto simp: try_ok_def split: result.splits)

lemma secure_Ok:
  "secure ft L X settings hostname (conn, ldap) w = Some (Ok (conn', ldap'), w') \<longleftrightarrow>
    (\<exists>stream w1 tls w2 token. st_into_parts X w = (Tcp stream, w1) \<and>
       create_tls_stream ft L settings hostname stream w1 = Some (Ok tls, w2) \<and>
       get_tls_endpoint_token ft L tls = Some token \<and> conn' = conn \<and>
       ldap' = ldap\<lparr> tls_endpoint_token := token, has_tls := True \<rparr> \<and> w' = st_framed X (Tls tls) w2)"
  by (auto simp: secure_def try_ok_Ok Let_def split: prod.splits ConnType.split bind_splits)

lemma try_join_Ok:
  "try_join X rx op ldap w = Some (Ok (conn_res, res, ldap'), w') \<longleftrightarrow>
    (\<exists>w1. op ldap w = Some (Ok res, ldap', w1) \<and> await_conn X rx w1 = Some (Some conn_res, w'))"
  by (auto simp: try_join_def split: bind_splits result.splits option.splits prod.splits)

lemma starttls_done_Ok:
  "starttls_done (conn_res, res, ldap) = Ok (conn', ldap') \<longleftrightarrow>
    conn_res = Ok conn' \<and> ldap' = ldap \<and> (\<exists>e r. res = ExopResult e r \<and> lr_rc r = 0)"
  by (cases res) (auto simp: starttls_done_def and_then_eq_Ok_iff)

lemma start_tls_Ok:
  "start_tls X conn ldap w = Some (Ok (conn', ldap'), w') \<longleftrightarrow>
    (\<exists>rx w1 e res w2. spawn_single_op X conn w = (rx, w1) \<and>
       extended (rt X) StartTLS_into ldap w1 = Some (Ok (ExopResult e res), ldap', w2) \<and> lr_rc res = 0 \<and>
       await_conn X rx w2 = Some (Some (Ok conn'), w'))"
  by (force simp: start_tls_def try_ok_Ok try_join_Ok starttls_done_Ok split: prod.split)

text \<open>TLS is asked for by the scheme or by the settings.\<close>

definition tls_wanted :: "tls_feature \<Rightarrow> ('con, 'conf) LdapConnSettings \<Rightarrow> Url \<Rightarrow> bool" where
  "tls_wanted ft settings url \<longleftrightarrow> ft \<noteq> No_Tls \<and>
     (url_scheme url = str ''ldaps'' \<or> url_scheme url = str ''ldap'' \<and> starttls settings)"

text \<open>The server has agreed to StartTLS, and the connection is back from its task.\<close>

definition agreed :: "'w net_env \<Rightarrow> LdapConnAsync \<Rightarrow> 'w \<Rightarrow> bool" where
  "agreed X conn w \<longleftrightarrow> (\<exists>conn0 w0 rx w1 ldap0 e res ldap w2. spawn_single_op X conn0 w0 = (rx, w1) \<and>
     extended (rt X) StartTLS_into ldap0 w1 = Some (Ok (ExopResult e res), ldap, w2) \<and> lr_rc res = 0 \<and>
     await_conn X rx w2 = Some (Some (Ok conn), w))"

text \<open>The last thing done: a handshake with the host of the URL, after which the stream is the TLS stream.\<close>

definition handshake ::
    "tls_feature \<Rightarrow> ('con, 'conf, 'sn, 'w) tls_lib \<Rightarrow> 'w net_env \<Rightarrow> ('con, 'conf) LdapConnSettings \<Rightarrow> Url \<Rightarrow> 'w \<Rightarrow> 'w \<Rightarrow> bool" where
  "handshake ft L X settings url w w' \<longleftrightarrow> (\<exists>h stream w1 tls w2. url_host_str url = Some h \<and>
     st_into_parts X w = (Tcp stream, w1) \<and>
     create_tls_stream ft L settings (if h = [] then str ''localhost'' else h) stream w1 = Some (Ok tls, w2) \<and>
     w' = st_framed X (Tls tls) w2)"

lemma open_pair_eq: "open_pair X io w = (fst conn_pair, fst (snd conn_pair), ch_set_msgmap (rt X) (snd (snd conn_pair)) (st_framed X io w))"
  by (simp add: open_pair_def split_beta)

lemma conn_pair_no_tls: "\<not> has_tls (fst (snd conn_pair))"
  by (simp add: conn_pair_def)

lemma scheme_strs: "str ''ldap'' \<noteq> str ''starttls''" "str ''ldap'' \<noteq> str ''ldaps''" "str ''ldaps'' \<noteq> str ''starttls''"
  "str ''ldap'' \<noteq> str ''ldapi''" "str ''ldaps'' \<noteq> str ''ldapi''"
  by code_simp+

lemma tcp_scheme_Ok:
  assumes "tcp_scheme ft url settings = Ok (sch, port, s)"
  shows "tls_wanted ft settings url \<longleftrightarrow> sch \<noteq> str ''ldap''"
    and "sch = str ''starttls'' \<longleftrightarrow> tls_wanted ft settings url \<and> url_scheme url = str ''ldap''"
    and "\<exists>b. s = settings\<lparr> starttls := b \<rparr>"
proof -
  show "tls_wanted ft settings url \<longleftrightarrow> sch \<noteq> str ''ldap''"
    using assms scheme_strs by (auto simp: tcp_scheme_def get_starttls_def tls_wanted_def simp del: str_simps split: if_splits)
  show "sch = str ''starttls'' \<longleftrightarrow> tls_wanted ft settings url \<and> url_scheme url = str ''ldap''"
    using assms scheme_strs by (auto simp: tcp_scheme_def get_starttls_def tls_wanted_def simp del: str_simps split: if_splits)
  show "\<exists>b. s = settings\<lparr> starttls := b \<rparr>"
    using assms by (cases settings) (auto simp: tcp_scheme_def set_starttls_def simp del: str_simps split: if_splits)
qed

lemma tcp_host_Some: "tcp_host url port = Some (hostname, hp) \<Longrightarrow>
    \<exists>h. url_host_str url = Some h \<and> hostname = (if h = [] then str ''localhost'' else h)"
  unfolding tcp_host_def Let_def by (cases "url_host_str url") (simp_all only: option.simps prod.inject, blast)

lemma new_tcp_tls:
  assumes "new_tcp ft L X url settings w = Some (Ok (conn, ldap), w')"
  shows "has_tls ldap \<longleftrightarrow> tls_wanted ft settings url"
    and "tls_wanted ft settings url \<Longrightarrow> \<exists>b w1. handshake ft L X (settings\<lparr> starttls := b \<rparr>) url w1 w' \<and>
      (url_scheme url = str ''ldap'' \<longrightarrow> agreed X conn w1)"
proof -
  from assms obtain sch port s where s: "tcp_scheme ft url settings = Ok (sch, port, s)"
    by (auto simp: new_tcp_def split: result.splits)
  note s' = tcp_scheme_Ok [OF s]
  from assms s obtain hostname hp where h: "tcp_host url (case url_port url of Some p \<Rightarrow> p | None \<Rightarrow> port) = Some (hostname, hp)"
    by (auto simp: new_tcp_def split: bind_splits)
  obtain stream w0 where st: "(if sch = str ''ldap'' then Some (Ok (fst conn_pair, fst (snd conn_pair)), w0)
      else if sch = str ''starttls'' then
        try_ok (start_tls X (fst conn_pair) (fst (snd conn_pair))) (secure ft L X s hostname) w0
      else secure ft L X s hostname (fst conn_pair, fst (snd conn_pair)) w0) = Some (Ok (conn, ldap), w')"
    using assms unfolding new_tcp_def s result.case prod.case Let_def h option.simps bind.bind_lunit try_ok_Ok open_pair_eq by blast
  from tcp_host_Some [OF h] obtain hs where hs: "url_host_str url = Some hs" "hostname = (if hs = [] then str ''localhost'' else hs)"
    by blast
  have sec: "has_tls l' \<and> c' = c \<and> handshake ft L X s url w1 w'"
    if "secure ft L X s hostname (c, l) w1 = Some (Ok (c', l'), w')" for c l c' l' w1
    using that hs by (auto simp: secure_Ok handshake_def simp del: str_simps)
  have tls: "has_tls ldap \<and> (\<exists>w1. handshake ft L X s url w1 w' \<and> (sch = str ''starttls'' \<longrightarrow> agreed X conn w1))"
    if n: "sch \<noteq> str ''ldap''"
  proof (cases "sch = str ''starttls''")
    case True
    then obtain c l w1 where "start_tls X (fst conn_pair) (fst (snd conn_pair)) w0 = Some (Ok (c, l), w1)"
      "secure ft L X s hostname (c, l) w1 = Some (Ok (conn, ldap), w')"
      using st n by (auto simp: try_ok_Ok simp del: str_simps)
    then show ?thesis using sec by (metis agreed_def start_tls_Ok)
  next
    case False
    then show ?thesis using st n sec by (metis (no_types, lifting))
  qed
  show "has_tls ldap \<longleftrightarrow> tls_wanted ft settings url"
    using st tls s'(1) conn_pair_no_tls by (auto simp del: str_simps)
  show "\<exists>b w1. handshake ft L X (settings\<lparr> starttls := b \<rparr>) url w1 w' \<and> (url_scheme url = str ''ldap'' \<longrightarrow> agreed X conn w1)"
    if "tls_wanted ft settings url"
    using tls s' that by metis
qed

end
