(* ===== verification/Start_Tls.thy ===== *)
theory Start_Tls
  imports Conn_Setup
begin

text \<open>
  Opening a connection on reference surroundings: the task that runs the connection for the StartTLS
  operation takes its turns of \<open>Connection\<close> over the channels of \<open>Runtime\<close>, and a peer reads what
  is written in the clear and answers with bytes, after which it may close the stream. While the
  connection is opened nobody else has a handle, so there are no scrub requests, no searches and no
  requests for the certificate.

  Shown here: TLS that was asked for is not skipped; StartTLS with a server that agrees ends in a TLS
  stream with nothing of the clear text left; a server that closes the stream, or sends another
  message first, makes the call hang, so that only a timeout ends it.
\<close>

subsection \<open>The reference surroundings\<close>

record boot = world +
  b_io :: ConnType
  b_task :: "LdapConnAsync option"
  b_ret :: "(LdapConnAsync, LdapError) result option"
  b_eof :: bool

type_synonym peer = "bytes \<Rightarrow> bytes \<times> bool"

text \<open>One pass of \<open>turn\<close> in the task of \<open>single_op\<close>; at the end the task sends its result and is gone.\<close>

definition boot_run :: "event \<Rightarrow> LdapConnAsync \<Rightarrow> boot \<Rightarrow> boot" where
  "boot_run ev c w =
     (case conn_single_op channels_ref [ev] c w of
        None \<Rightarrow> w\<lparr> b_task := None, w_open := False \<rparr>
      | Some (None, c, w) \<Rightarrow> w\<lparr> b_task := Some c \<rparr>
      | Some (Some (Ok _), c, w) \<Rightarrow> w\<lparr> b_task := None, b_ret := Some (Ok c) \<rparr>
      | Some (Some (Err e), c, w) \<Rightarrow> w\<lparr> b_task := None, b_ret := Some (Err e), w_open := False \<rparr>)"

text \<open>
  What \<open>Framed\<close> yields from the bytes read so far: at the end of the stream \<open>None\<close>, or an error
  if bytes remain that are no message.
\<close>

definition framed_next :: "nom_streaming \<Rightarrow> boot \<Rightarrow> ((message, io_error) result option \<times> boot) option" where
  "framed_next S w =
     (case decode_inner S (w_in w) of
        Some (Ok (Some m), rest) \<Rightarrow> Some (Some (Ok m), w\<lparr> w_in := rest \<rparr>)
      | Some (Err e, rest) \<Rightarrow> Some (Some (Err e), w\<lparr> w_in := rest \<rparr>)
      | Some (Ok None, rest) \<Rightarrow>
          if \<not> b_eof w then None
          else Some (if rest = [] then None else Some (Err (str ''bytes remaining on stream'')), w)
      | None \<Rightarrow> None)"

definition boot_poll :: "nom_streaming \<Rightarrow> peer \<Rightarrow> boot \<Rightarrow> boot option" where
  "boot_poll S peer w =
     (case b_task w of
        None \<Rightarrow> None
      | Some c \<Rightarrow>
          (case w_ops w of
             op # ops \<Rightarrow>
               let w = boot_run (Op_Recv (Some op)) c (w\<lparr> w_ops := ops \<rparr>); (answer, eof) = peer (w_out w) in
               Some (w\<lparr> w_out := [], w_in := w_in w @ answer, b_eof := eof \<rparr>)
           | [] \<Rightarrow>
               if decode_inner S (w_in w) = None then Some (w\<lparr> b_task := None, w_open := False \<rparr>)
               else map_option (\<lambda>(r, w). boot_run (Stream_Next r) c w) (framed_next S w)))"

text \<open>
  The sender of a result is held by a queued operation or by the connection, be it in its task or
  in the result that the task has sent.
\<close>

definition boot_conn :: "boot \<Rightarrow> LdapConnAsync option" where
  "boot_conn w =
     (case b_task w of Some c \<Rightarrow> Some c | None \<Rightarrow> (case b_ret w of Some (Ok c) \<Rightarrow> Some c | _ \<Rightarrow> None))"

definition boot_alive :: "ticket \<Rightarrow> boot \<Rightarrow> bool" where
  "boot_alive t w \<longleftrightarrow> w_open w \<and> (list_ex (\<lambda>(_, _, _, _, t'). t' = t) (w_ops w) \<or>
     (case boot_conn w of Some c \<Rightarrow> \<exists>i\<in>snd (w_msgmap w). resultmap c i = Some t | None \<Rightarrow> False))"

definition tokio_boot :: "nom_streaming \<Rightarrow> peer \<Rightarrow> boot tokio" where
  "tokio_boot S peer = channels.extend channels_ref (tokio.fields
     (\<lambda>t. await_by (boot_poll S peer) (get_result t) (boot_alive t))
     (\<lambda>_ t. timeout_by (boot_poll S peer) (get_result t) (boot_alive t))
     (\<lambda>ch. await_by (boot_poll S peer) (get_item ch) (\<lambda>_. False))
     (\<lambda>_ ch. timeout_by (boot_poll S peer) (get_item ch) (\<lambda>_. False))
     (\<lambda>t. await_by (boot_poll S peer) (get_cert t) (\<lambda>_. False)))"

definition boot_env :: "nom_streaming \<Rightarrow> peer \<Rightarrow> boot net_env" where
  "boot_env S peer = \<lparr>
     rt = tokio_boot S peer,
     tcp_connect = (\<lambda>_ w. Some (Ok 0, w)),
     unix_connect = (\<lambda>_ w. Some (Ok 0, w)),
     set_nonblocking = (\<lambda>_ w. Some (Ok (), w)),
     tcp_from_std = (\<lambda>s w. Some (Ok s, w)),
     unix_from_std = (\<lambda>s w. Some (Ok s, w)),
     st_framed = (\<lambda>io w. w\<lparr> b_io := io, w_in := [], w_out := [] \<rparr>),
     st_into_parts = (\<lambda>w. (b_io w, w)),
     spawn_single_op = (\<lambda>c w. (w_next w, w\<lparr> w_next := Suc (w_next w), b_task := Some c \<rparr>)),
     await_conn = (\<lambda>_. await_by (boot_poll S peer) (\<lambda>w. map_option (\<lambda>r. (r, w\<lparr> b_ret := None \<rparr>)) (b_ret w)) (\<lambda>w. b_task w \<noteq> None)),
     deadline = (\<lambda>_ f w. case f w of Some (r, w) \<Rightarrow> Some (Some r, w) | None \<Rightarrow> Some (None, w)) \<rparr>"

definition boot_init :: boot where
  "boot_init = world.extend world_init (boot.fields (Tcp 0) None None False)"

lemma tokio_boot_simps [simp]:
  "ch_msgmap (tokio_boot S peer) = w_msgmap"
  "ch_set_msgmap (tokio_boot S peer) m w = w\<lparr> w_msgmap := m \<rparr>"
  "ch_oneshot (tokio_boot S peer) w = (w_next w, w\<lparr> w_next := Suc (w_next w) \<rparr>)"
  "ch_send_op (tokio_boot S peer) op w = (w_open w, if w_open w then w\<lparr> w_ops := w_ops w @ [op] \<rparr> else w)"
  "await_result (tokio_boot S peer) t w = await_by (boot_poll S peer) (get_result t) (boot_alive t) w"
  by (simp_all add: tokio_boot_def channels.extend_def tokio.fields_def channels_ref_def)

lemma boot_env_simps [simp]:
  "rt (boot_env S peer) = tokio_boot S peer"
  "tcp_connect (boot_env S peer) hp w = Some (Ok 0, w)"
  "st_framed (boot_env S peer) io w = w\<lparr> b_io := io, w_in := [], w_out := [] \<rparr>"
  "st_into_parts (boot_env S peer) w = (b_io w, w)"
  "spawn_single_op (boot_env S peer) c w = (w_next w, w\<lparr> w_next := Suc (w_next w), b_task := Some c \<rparr>)"
  "await_conn (boot_env S peer) t w =
     await_by (boot_poll S peer) (\<lambda>w. map_option (\<lambda>r. (r, w\<lparr> b_ret := None \<rparr>)) (b_ret w)) (\<lambda>w. b_task w \<noteq> None) w"
  "deadline (boot_env S peer) d f w = (case f w of Some (r, w) \<Rightarrow> Some (Some r, w) | None \<Rightarrow> Some (None, w))"
  by (simp_all add: boot_env_def)

lemma boot_init_simps [simp]:
  "w_msgmap boot_init = (0, {})" "w_next boot_init = 0" "w_open boot_init" "w_ops boot_init = []" "w_in boot_init = []"
  "w_out boot_init = []" "b_io boot_init = Tcp 0" "b_task boot_init = None" "b_ret boot_init = None" "\<not> w_shut boot_init"
  "w_results boot_init = Map.empty" "w_dropped boot_init = {}" "\<not> b_eof boot_init"
  by (simp_all add: boot_init_def world.extend_def world_init_def boot.fields_def)

subsection \<open>The StartTLS exchange\<close>

definition starttls_req :: Tag where
  "starttls_req = Tag_Sequence 23 Application [Tag_OctetString 0 Context STARTTLS_OID]"

lemma starttls_req_ok: "message_ok (1, starttls_req, None)"
proof -
  have "low_ids (message_tag 1 starttls_req None)"
    by (simp add: message_tag_def starttls_req_def opsimps low_ids_i_e)
  moreover have "weight (message_tag 1 starttls_req None) < 2 ^ 64"
    using weight_i_e [of 2 Universal "scast (1 :: i32)"]
    by (simp add: message_tag_def starttls_req_def opsimps STARTTLS_OID_def)
  ultimately have "ber_ok (message_tag 1 starttls_req None)" by (rule ber_ok_weight)
  then show ?thesis by (simp add: message_ok_def starttls_req_def opsimps)
qed

text \<open>The state of the surroundings when the request has been written and the peer has answered.\<close>

definition waiting :: "bytes \<Rightarrow> bool \<Rightarrow> boot" where
  "waiting answer eof = boot_init\<lparr> w_next := 2, w_msgmap := (1, {1}), w_in := answer, b_eof := eof,
     b_task := Some \<lparr> resultmap = [1 \<mapsto> 1], searchmap = Map.empty \<rparr> \<rparr>"

definition asked :: Ldap where
  "asked = (fst (snd conn_pair))\<lparr> last_id := 1 \<rparr>"

lemma await_ok_assoc: "await_ok (await_ok m k) l = await_ok m (\<lambda>x. await_ok (k x) l)"
  by (intro ext) (auto simp: await_ok_def split: bind_split result.split)

text \<open>The rest of the operation, from the answer of the peer on.\<close>

definition starttls_rest :: "nom_streaming \<Rightarrow> peer \<Rightarrow> (ExopResult, Ldap, boot) async" where
  "starttls_rest S peer = await_ok
     (\<lambda>self w. do { (r, w) \<leftarrow> await_by (boot_poll S peer) (get_result 1) (boot_alive 1) w; Some (Ok r, self, w) })
     (\<lambda>r. await_ok (op_result r) (\<lambda>(res, exop, _). done_ok (ExopResult exop res)))"

lemma extended_asks:
  assumes "peer (wire (1, starttls_req, None)) = (answer, eof)"
  shows "extended (tokio_boot S peer) StartTLS_into (fst (snd conn_pair)) (boot_init\<lparr> w_next := 1, b_task := Some (fst conn_pair) \<rparr>) =
    starttls_rest S peer asked (waiting answer eof)"
proof -
  let ?op = "(1, Single, starttls_req, None, 1)"
  define w where "w = boot_init\<lparr> w_next := 2, w_msgmap := (1, {1}), w_ops := [?op], b_task := Some (fst conn_pair) \<rparr>"
  have one: "succ_id 0 = 1" by code_simp
  have req: "construct_exop StartTLS_into = Some [Tag_OctetString 0 Context STARTTLS_OID]"
    by (simp add: construct_exop_def StartTLS_into_def)
  have sub: "op_submit (tokio_boot S peer) Single starttls_req (fst (snd conn_pair)) (boot_init\<lparr> w_next := 1, b_task := Some (fst conn_pair) \<rparr>) =
      Some (Ok 1, asked, w)"
    by (simp add: op_submit_def next_msgid_def next_msgid_loop.simps one Let_def w_def asked_def conn_pair_def)
  have then_sub: "await_ok (op_submit (tokio_boot S peer) Single starttls_req) k (fst (snd conn_pair))
      (boot_init\<lparr> w_next := 1, b_task := Some (fst conn_pair) \<rparr>) = k 1 asked w" for k :: "ticket \<Rightarrow> (ExopResult, Ldap, boot) async"
    by (simp add: await_ok_def sub del: One_nat_def)
  have sent: "send_ref (1, starttls_req, None) (w\<lparr> w_ops := [] \<rparr>) = Some (Ok (), w\<lparr> w_ops := [], w_out := wire (1, starttls_req, None) \<rparr>)"
    by (simp add: send_ref_def w_def encode_wire [OF _ starttls_req_ok] plain_codec_def)
  have poll: "boot_poll S peer w = Some (waiting answer eof)"
    using sent assms by (simp add: boot_poll_def w_def boot_run_def conn_single_op_def waiting_def conn_pair_def Let_def)
  have "await_by (boot_poll S peer) (get_result 1) (boot_alive 1) w = await_by (boot_poll S peer) (get_result 1) (boot_alive 1) (waiting answer eof)"
  proof (rule await_by_poll)
    show "boot_poll S peer w = Some (waiting answer eof)" by (rule poll)
  qed (simp_all add: get_result_def boot_alive_def w_def)
  then have resp: "op_response (tokio_boot S peer) 1 asked w =
      do { (r, w) \<leftarrow> await_by (boot_poll S peer) (get_result 1) (boot_alive 1) (waiting answer eof); Some (Ok r, asked, w) }"
    by (simp add: op_response_def asked_def conn_pair_def)
  show ?thesis
    by (simp add: extended_def req starttls_req_def [symmetric] op_call_def await_ok_assoc then_sub starttls_rest_def del: One_nat_def)
      (simp add: await_ok_def resp del: One_nat_def)
qed

lemma waiting_alive: "get_result 1 (waiting answer eof) = None" "boot_alive 1 (waiting answer eof)"
  by (simp_all add: get_result_def boot_alive_def waiting_def boot_conn_def)

text \<open>The peer's answer is the response to the request.\<close>

definition answered :: "Tag \<Rightarrow> Control list \<Rightarrow> bytes \<Rightarrow> bool \<Rightarrow> boot" where
  "answered tag ctrls rest eof = (waiting rest eof)\<lparr> w_results := [1 \<mapsto> (tag, ctrls)], w_msgmap := (1, {}), b_task := None,
     b_ret := Some (Ok (fst conn_pair)) \<rparr>"

lemma rest_answered:
  assumes "decode_inner S answer = Some (Ok (Some (1, tag, ctrls)), rest)"
    and "LdapResultExt_from tag = Some (res, exop, creds)"
  shows "starttls_rest S peer asked (waiting answer eof) =
    Some (Ok (ExopResult exop (res\<lparr> lr_ctrls := ctrls \<rparr>)), asked, answered tag ctrls rest eof)"
proof -
  have "boot_poll S peer (waiting answer eof) = Some (answered tag ctrls rest eof)"
    using assms(1) by (simp add: boot_poll_def waiting_def framed_next_def boot_run_def conn_single_op_def answered_def forget_id_def conn_pair_def)
  then have "await_by (boot_poll S peer) (get_result 1) (boot_alive 1) (waiting answer eof) =
      await_by (boot_poll S peer) (get_result 1) (boot_alive 1) (answered tag ctrls rest eof)"
    using waiting_alive by (metis await_by_poll)
  also have "\<dots> = Some (Some (tag, ctrls), answered tag ctrls rest eof)"
    by (rule await_by_get) (simp add: get_result_def answered_def)
  finally show ?thesis using assms(2) by (simp add: starttls_rest_def await_ok_def)
qed

text \<open>
  The task ends without the response: the peer closes the stream, or another message comes first.
  The sender of the result is then held by the connection that the task has given back.
\<close>

lemma rest_hangs:
  assumes "answer = [] \<and> eof \<and> decode_inner S [] = Some (Ok None, []) \<or>
      (\<exists>i tag ctrls rest. decode_inner S answer = Some (Ok (Some (i, tag, ctrls)), rest) \<and> i \<noteq> 1)"
  shows "starttls_rest S peer asked (waiting answer eof) = None"
proof -
  let ?w = "\<lambda>rest. (waiting rest eof)\<lparr> b_task := None, b_ret := Some (Ok \<lparr> resultmap = [1 \<mapsto> 1], searchmap = Map.empty \<rparr>) \<rparr>"
  have "\<exists>rest. boot_poll S peer (waiting answer eof) = Some (?w rest)"
    using assms
  proof (elim disjE exE conjE)
    assume "answer = []" "eof" "decode_inner S [] = Some (Ok None, [])"
    then show ?thesis
      by (intro exI [of _ "[]"]) (simp add: boot_poll_def waiting_def framed_next_def boot_run_def conn_single_op_def)
  next
    fix i tag ctrls rest
    assume "decode_inner S answer = Some (Ok (Some (i, tag, ctrls)), rest)" "i \<noteq> 1"
    then show ?thesis
      by (intro exI [of _ rest]) (simp add: boot_poll_def waiting_def framed_next_def boot_run_def conn_single_op_def)
  qed
  then obtain rest where "boot_poll S peer (waiting answer eof) = Some (?w rest)" by blast
  then have "await_by (boot_poll S peer) (get_result 1) (boot_alive 1) (waiting answer eof) =
      await_by (boot_poll S peer) (get_result 1) (boot_alive 1) (?w rest)"
    using waiting_alive by (metis await_by_poll)
  also have "\<dots> = None"
    by (rule await_by_stuck) (simp_all add: get_result_def boot_alive_def boot_conn_def waiting_def boot_poll_def)
  finally show ?thesis by (simp add: starttls_rest_def await_ok_def)
qed

subsection \<open>Opening with StartTLS\<close>

text \<open>A URL and settings that ask for StartTLS on a new TCP stream.\<close>

definition wants_starttls :: "tls_feature \<Rightarrow> ('con, 'conf) LdapConnSettings \<Rightarrow> Url \<Rightarrow> bytes \<Rightarrow> bool" where
  "wants_starttls ft settings url h \<longleftrightarrow> ft \<noteq> No_Tls \<and> url_scheme url = str ''ldap'' \<and> url_host_str url = Some h \<and> h \<noteq> [] \<and>
     starttls settings \<and> std_stream settings = None"

lemma new_tcp_starttls:
  assumes "wants_starttls ft settings url h" and "peer (wire (1, starttls_req, None)) = (answer, eof)"
  shows "new_tcp ft L (boot_env S peer) url settings boot_init =
    try_ok (try_ok (try_join (boot_env S peer) 0 (starttls_rest S peer) asked) (\<lambda>r w. Some (starttls_done r, w)))
      (secure ft L (boot_env S peer) settings h) (waiting answer eof)"
proof -
  have sch: "tcp_scheme ft url settings = Ok (str ''starttls'', 389, settings)"
    using assms(1) by (simp add: wants_starttls_def tcp_scheme_def get_starttls_def del: str_simps)
  have host: "\<exists>hp. tcp_host url port = Some (h, hp)" for port
    using assms(1) by (simp add: wants_starttls_def tcp_host_def)
  have stream: "tcp_stream (boot_env S peer) settings hp w = Some (Ok 0, w)" for hp w
    using assms(1) by (simp add: wants_starttls_def tcp_stream_def io_err_def)
  have pair: "open_pair (boot_env S peer) (Tcp 0) boot_init = (fst conn_pair, fst (snd conn_pair), boot_init)"
    by (simp add: open_pair_eq) (simp add: conn_pair_def boot_init_def world.extend_def world_init_def boot.fields_def)
  have ext: "extended (tokio_boot S peer) StartTLS_into (fst (snd conn_pair)) (boot_init\<lparr> w_next := Suc 0, b_task := Some (fst conn_pair) \<rparr>) =
      starttls_rest S peer asked (waiting answer eof)"
    using extended_asks [where peer = peer and S = S] assms(2) by simp
  then have join: "try_join (boot_env S peer) 0 (extended (tokio_boot S peer) StartTLS_into) (fst (snd conn_pair))
        (boot_init\<lparr> w_next := Suc 0, b_task := Some (fst conn_pair) \<rparr>) =
      try_join (boot_env S peer) 0 (starttls_rest S peer) asked (waiting answer eof)"
    by (simp only: try_join_def)
  obtain hp where "tcp_host url (case url_port url of Some p \<Rightarrow> p | None \<Rightarrow> 389) = Some (h, hp)" using host by blast
  then show ?thesis
    using scheme_strs
    by (simp add: new_tcp_def sch stream pair try_ok_def [of "tcp_stream _ _ _"] start_tls_def Let_def del: str_simps boot_env_simps(6))
      (simp add: try_ok_def start_tls_def join del: str_simps boot_env_simps(6))
qed

lemma waiting_facts:
  "b_io (waiting answer eof) = Tcp 0"
  "b_io (answered tag ctrls rest eof) = Tcp 0" "w_msgmap (answered tag ctrls rest eof) = (1, {})"
  by (simp_all add: waiting_def answered_def)

lemma join_answered:
  assumes "decode_inner S answer = Some (Ok (Some (1, tag, ctrls)), rest)"
    and "LdapResultExt_from tag = Some (res, exop, creds)"
  shows "try_join (boot_env S peer) 0 (starttls_rest S peer) asked (waiting answer eof) =
    Some (Ok (Ok (fst conn_pair), ExopResult exop (res\<lparr> lr_ctrls := ctrls \<rparr>), asked), (answered tag ctrls rest eof)\<lparr> b_ret := None \<rparr>)"
proof -
  have "await_conn (boot_env S peer) 0 (answered tag ctrls rest eof) =
      Some (Some (Ok (fst conn_pair)), (answered tag ctrls rest eof)\<lparr> b_ret := None \<rparr>)"
    unfolding boot_env_simps by (rule await_by_get) (simp add: answered_def)
  then show ?thesis
    by (simp add: try_join_def rest_answered [where S = S, OF assms] del: boot_env_simps(6))
qed

lemma decode_response:
  assumes "nom_streaming_doc S" and "message_ok (i, tag, mc)"
  shows "\<exists>ctrls. decode_inner S (wire (i, tag, mc) @ rest) = Some (Ok (Some (i, Tag_StructureTag (into_structure tag), ctrls)), rest)"
  using nom_streaming_doc.decode_inner_message [OF assms] by (simp add: wire_def received_def)

subsection \<open>Examples\<close>

definition example_tls :: "(unit, unit, unit, boot) tls_lib" where
  "example_tls = \<lparr> native_build = (\<lambda>_. Some ()), native_connect = (\<lambda>_ _ s w. Some (Ok (Suc s), w)),
     native_end_point = (\<lambda>_. Ok (Some [7])), native_peer_certificate = (\<lambda>_. Ok None), native_to_der = (\<lambda>_. Err ()), native_certs = ([], []), client_config = (\<lambda>_. ()), set_certificate_verifier = (\<lambda>_ c. c), server_name = (\<lambda>_. Some ()), is_ip_addr = (\<lambda>_. False),
     rustls_connect = (\<lambda>_ _ s w. Some (Ok (Suc s), w)), peer_certificates = (\<lambda>_. None), x509_sigalg = (\<lambda>_. None),
     digest = (\<lambda>_ v. v) \<rparr>"

definition example_settings :: "(unit, unit) LdapConnSettings" where
  "example_settings = set_starttls True LdapConnSettings_new"

definition example_url :: "string \<Rightarrow> Url" where
  "example_url scheme = \<lparr> url_scheme = str scheme, url_host_str = Some (str ''host''), url_port = None \<rparr>"

definition agreeing :: peer where
  "agreeing request = (wire (1, Tag_StructureTag (response_tag 24
     \<lparr> lr_rc = 0, lr_matched = [], lr_text = [], lr_refs = [], lr_ctrls = [] \<rparr> \<lparr> ex_name = None, ex_val = None \<rparr> None), None) @ [0x30, 1], False)"

definition closing :: peer where
  "closing request = ([], True)"

lemma example_wants: "wants_starttls Tls_Native example_settings (example_url ''ldap'') (str ''host'')"
  by (simp add: wants_starttls_def example_settings_def example_url_def set_starttls_def LdapConnSettings_new_def)

lemma example_handshake: "create_tls_stream_native example_tls settings h s w = Some (Ok (Suc s), w)"
  by (simp add: create_tls_stream_native_def example_tls_def create_connector_def io_err_def split: option.split)

lemma example_response_ok:
  "message_ok (1, Tag_StructureTag (response_tag 24
     \<lparr> lr_rc = 0, lr_matched = [], lr_text = [], lr_refs = [], lr_ctrls = [] \<rparr> \<lparr> ex_name = None, ex_val = None \<rparr> None), None)"
  (is "message_ok (1, ?t, None)")
proof -
  have "low_ids (message_tag 1 ?t None)"
    by (simp add: message_tag_def response_tag_def opsimps low_ids_i_e octets_def)
  moreover have "weight (message_tag 1 ?t None) < 2 ^ 64"
    using weight_i_e [of 2 Universal "scast (1 :: i32)"] weight_i_e [of 10 Universal 0]
    by (simp add: message_tag_def response_tag_def opsimps octets_def)
  ultimately have "ber_ok (message_tag 1 ?t None)" by (rule ber_ok_weight)
  then show ?thesis by (simp add: message_ok_def response_tag_def)
qed

lemma example_ldaps:
  "\<exists>conn ldap w. from_url_with_settings Tls_Native example_tls (boot_env nom_streaming_ref closing) (\<lambda>v. v) example_settings
      (example_url ''ldaps'') boot_init = Some (Ok (conn, ldap), w)"
  using scheme_strs
  by (simp add: from_url_with_settings_def new_tcp_def tcp_scheme_def tcp_host_def tcp_stream_def example_settings_def example_url_def
      set_starttls_def LdapConnSettings_new_def secure_def try_ok_def example_handshake io_err_def open_pair_eq Let_def del: str_simps)

subsection \<open>Properties\<close>

text \<open>
  Claim C9. TLS is not skipped: when opening a connection succeeds, the handle is marked as encrypted
  if and only if TLS was asked for, by the scheme \<open>ldaps\<close> or by the StartTLS setting with \<open>ldap\<close>. In that
  case the last thing that happened was a successful handshake with the host that the URL names and
  the replacement of the stream by the encrypted one, and with \<open>ldap\<close> the server had agreed to
  StartTLS before.
\<close>

theorem tls_not_skipped:
  assumes "from_url_with_settings ft L X percent_decode_lossy settings url w = Some (Ok (conn, ldap), w')"
    and "\<And>d f v r v'. deadline X d f v = Some (Some r, v') \<Longrightarrow> f v = Some (r, v')"
  shows "(has_tls ldap \<longleftrightarrow> tls_wanted ft settings url) \<and>
    (tls_wanted ft settings url \<longrightarrow> (\<exists>b w1. handshake ft L X (settings\<lparr> conn_timeout := None, starttls := b \<rparr>) url w1 w' \<and>
      (url_scheme url = str ''ldap'' \<longrightarrow> agreed X conn w1)))"
proof (cases "url_scheme url = str ''ldapi''")
  case True
  have "\<not> tls_wanted ft settings url" using True scheme_strs(4,5) by (auto simp: tls_wanted_def simp del: str_simps)
  moreover have "\<not> has_tls ldap"
    using assms(1) True conn_pair_no_tls
    by (auto simp: from_url_with_settings_def new_unix_def try_ok_Ok open_pair_eq simp del: str_simps)
  ultimately show ?thesis by simp
next
  case False
  then have "new_tcp ft L X url (settings\<lparr> conn_timeout := None \<rparr>) w = Some (Ok (conn, ldap), w')"
    using assms by (auto simp: from_url_with_settings_def Let_def simp del: str_simps split: option.splits bind_splits)
  from new_tcp_tls [OF this] show ?thesis by (simp add: tls_wanted_def)
qed

theorem tls_not_skipped_witness:
  "\<exists>conn ldap w. from_url_with_settings Tls_Native example_tls (boot_env nom_streaming_ref closing) (\<lambda>v. v) example_settings
      (example_url ''ldaps'') boot_init = Some (Ok (conn, ldap), w) \<and> has_tls ldap"
proof -
  obtain conn ldap w where o: "from_url_with_settings Tls_Native example_tls (boot_env nom_streaming_ref closing) (\<lambda>v. v) example_settings
      (example_url ''ldaps'') boot_init = Some (Ok (conn, ldap), w)" using example_ldaps by blast
  have "tls_wanted Tls_Native example_settings (example_url ''ldaps'')" by (simp add: tls_wanted_def example_url_def)
  moreover have "f v = Some (r, v')" if "deadline (boot_env nom_streaming_ref closing) d f v = Some (Some r, v')" for d f v r v'
    using that by (auto split: option.splits)
  ultimately have "has_tls ldap" using tls_not_skipped [OF o] by blast
  with o show ?thesis by blast
qed

text \<open>
  Claim C10. StartTLS end to end: with a server that answers the StartTLS request with success, opening
  the connection returns a handle on a TLS stream, with no operation pending and no message ID in use,
  and whatever the server has sent in the clear after its answer is discarded. When it answers with
  another result code, opening fails with that result and there is no handshake.
\<close>

theorem starttls_end_to_end:
  assumes "nom_streaming_doc S" and "wants_starttls ft settings url h"
    and "peer (wire (1, starttls_req, None)) = (wire (1, tag, mc) @ injected, eof)"
    and "message_ok (1, tag, mc)" and "LdapResultExt_from (Tag_StructureTag (into_structure tag)) = Some (res, exop, creds)"
    and "\<And>w. create_tls_stream ft L settings h 0 w = Some (Ok tls, w)" and "get_tls_endpoint_token ft L tls = Some token"
  shows "\<exists>r w. new_tcp ft L (boot_env S peer) url settings boot_init = Some (r, w) \<and>
    (if lr_rc res = 0
     then \<exists>conn ldap. r = Ok (conn, ldap) \<and> has_tls ldap \<and> tls_endpoint_token ldap = token \<and> b_io w = Tls tls \<and> w_in w = [] \<and>
       resultmap conn = Map.empty \<and> searchmap conn = Map.empty \<and> snd (w_msgmap w) = {}
     else \<exists>ctrls. r = Err (LdapResultError (res\<lparr> lr_ctrls := ctrls \<rparr>)) \<and> b_io w = Tcp 0)"
proof -
  obtain ctrls where "decode_inner S (wire (1, tag, mc) @ injected) = Some (Ok (Some (1, Tag_StructureTag (into_structure tag), ctrls)), injected)"
    using decode_response [OF assms(1,4)] by blast
  note join = join_answered [where peer = peer and eof = eof, OF this assms(5)]
  define w1 where "w1 = (answered (Tag_StructureTag (into_structure tag)) ctrls injected eof)\<lparr> b_ret := None \<rparr>"
  have w1: "b_io w1 = Tcp 0" "w_msgmap w1 = (1, {})" by (simp_all add: w1_def waiting_facts)
  have new: "new_tcp ft L (boot_env S peer) url settings boot_init =
      try_ok (\<lambda>w. Some (starttls_done (Ok (fst conn_pair), ExopResult exop (res\<lparr> lr_ctrls := ctrls \<rparr>), asked), w1))
        (secure ft L (boot_env S peer) settings h) (waiting (wire (1, tag, mc) @ injected) eof)"
    by (simp add: new_tcp_starttls [where peer = peer, OF assms(2,3)] try_ok_def join w1_def)
  show ?thesis
  proof (cases "lr_rc res = 0")
    case True
    then have "new_tcp ft L (boot_env S peer) url settings boot_init = secure ft L (boot_env S peer) settings h (fst conn_pair, asked) w1"
      by (simp add: new try_ok_def starttls_done_def)
    then show ?thesis
      using assms(6,7) True w1 by (simp add: secure_def try_ok_def conn_pair_def)
  next
    case False
    then have "new_tcp ft L (boot_env S peer) url settings boot_init = Some (Err (LdapResultError (res\<lparr> lr_ctrls := ctrls \<rparr>)), w1)"
      by (simp add: new try_ok_def starttls_done_def)
    then show ?thesis using False w1 by auto
  qed
qed

theorem starttls_end_to_end_witness:
  "\<exists>r w. new_tcp Tls_Native example_tls (boot_env nom_streaming_ref agreeing) (example_url ''ldap'') example_settings boot_init = Some (r, w) \<and>
    (\<exists>conn ldap. r = Ok (conn, ldap) \<and> has_tls ldap \<and> tls_endpoint_token ldap = Some [7] \<and> b_io w = Tls 1 \<and> w_in w = [] \<and>
       resultmap conn = Map.empty \<and> searchmap conn = Map.empty \<and> snd (w_msgmap w) = {})"
proof -
  let ?r = "\<lparr> lr_rc = 0, lr_matched = [], lr_text = [], lr_refs = [], lr_ctrls = [] \<rparr>" and ?e = "\<lparr> ex_name = None, ex_val = None \<rparr>"
  have "LdapResultExt_from (Tag_StructureTag (into_structure (Tag_StructureTag (response_tag 24 ?r ?e None)))) = Some (?r, ?e, None)"
    using response_parsed [of ?r ?e 24 None] by (simp add: utf8_response_def)
  moreover have "create_tls_stream Tls_Native example_tls example_settings (str ''host'') 0 w = Some (Ok 1, w)" for w
    using example_handshake [of example_settings "str ''host''" 0 w] by simp
  moreover have "get_tls_endpoint_token Tls_Native example_tls 1 = Some (Some [7])"
    by (simp add: endpoint_token_native_def example_tls_def)
  ultimately show ?thesis
    using starttls_end_to_end [OF nsr.nom_streaming_doc_axioms example_wants agreeing_def example_response_ok, where L = example_tls] by fastforce
qed

text \<open>
  Claim C39. When the server closes the stream instead of answering the StartTLS request, or when any
  message with another ID comes before the answer, opening the connection does not return: the task
  that runs the connection ends and keeps the sender for which the operation waits. Only with a
  timeout in the settings the call ends, with the error \<open>Timeout\<close>.
\<close>

theorem starttls_hangs:
  assumes "nom_streaming_doc S" and "wants_starttls ft settings url h"
    and "peer (wire (1, starttls_req, None)) = ([], True) \<or>
      (\<exists>i tag mc rest eof. peer (wire (1, starttls_req, None)) = (wire (i, tag, mc) @ rest, eof) \<and> message_ok (i, tag, mc) \<and> i \<noteq> 1)"
  shows "new_tcp ft L (boot_env S peer) url settings boot_init = None \<and>
    from_url_with_settings ft L (boot_env S peer) percent_decode_lossy (set_conn_timeout d settings) url boot_init =
      Some (Err Timeout, boot_init)"
proof -
  obtain answer eof where a: "peer (wire (1, starttls_req, None)) = (answer, eof)"
    and r: "starttls_rest S peer asked (waiting answer eof) = None"
    using assms(3)
  proof (elim disjE exE conjE)
    assume *: "peer (wire (1, starttls_req, None)) = ([], True)"
    have "decode_inner S [] = Some (Ok None, [])"
      using nom_streaming_doc.decode_inner_partial [OF assms(1) starttls_req_ok, of 0] ber_ne by simp
    then show thesis using that [OF *] rest_hangs [of "[]" True S peer] by simp
  next
    fix i tag mc rest eof
    assume *: "peer (wire (1, starttls_req, None)) = (wire (i, tag, mc) @ rest, eof)" "message_ok (i, tag, mc)" "i \<noteq> 1"
    obtain tag' ctrls where "decode_inner S (wire (i, tag, mc) @ rest) = Some (Ok (Some (i, tag', ctrls)), rest)"
      using decode_response [OF assms(1) *(2), of rest] by blast
    then have "starttls_rest S peer asked (waiting (wire (i, tag, mc) @ rest) eof) = None"
      using *(3) by (intro rest_hangs disjI2 exI conjI)
    then show thesis by (rule that [OF *(1)])
  qed
  have none: "new_tcp ft L (boot_env S peer) url s boot_init = None" if "wants_starttls ft s url h" for s
    by (simp add: new_tcp_starttls [where peer = peer, OF that a] try_ok_def try_join_def r)
  have "wants_starttls ft (settings\<lparr> conn_timeout := None \<rparr>) url h" using assms(2) by (simp add: wants_starttls_def)
  from none [OF this] none [OF assms(2)] show ?thesis
    using assms(2) scheme_strs(4)
    by (auto simp: from_url_with_settings_def set_conn_timeout_def wants_starttls_def Let_def simp del: str_simps)
qed

theorem starttls_hangs_witness:
  "new_tcp Tls_Native example_tls (boot_env nom_streaming_ref closing) (example_url ''ldap'') example_settings boot_init = None \<and>
    from_url_with_settings Tls_Native example_tls (boot_env nom_streaming_ref closing) (\<lambda>v. v) (set_conn_timeout 10 example_settings)
      (example_url ''ldap'') boot_init = Some (Err Timeout, boot_init)"
  by (rule starttls_hangs [OF nsr.nom_streaming_doc_axioms example_wants]) (simp add: closing_def)

end
