(* ===== verification/Sasl_Bind.thy ===== *)
theory Sasl_Bind
  imports Ldap_Client
begin

text \<open>
  The SASL binds of the handle with more than one step (\<open>src/ldap.rs\<close>): GSSAPI, with the security
  layer that is installed in the codec, and NTLM. The Kerberos library and the codec's shared
  parameters are the record \<open>krb5\<close>, the NTLM library the record \<open>sspi\<close>.

  Shown here: the security layers that the server offers have no influence on the GSSAPI bind; a
  bind that ends in the layer's installation leaves the codec wrapping with the size limit that
  the server gave; a server that reports success at once leaves the connection in the clear; and
  messages pass through the wrapping codecs of two peers unchanged.
\<close>

unbundle bit_operations_syntax

subsection \<open>ldap.rs: GSSAPI\<close>

definition fail :: "LdapError \<Rightarrow> ('a, 'h, 'w) async" where
  [simp]: "fail e h w = Some (Err e, h, w)"

datatype 'cred GssapiCred = Cred_Default | Cred_Supplied 'cred

datatype ('pend, 'ctx) Step = Step_Finished 'ctx "bytes option" | Step_Continue 'pend bytes

text \<open>
  \<open>ClientCtx::new\<close> and \<open>new_with_cred\<close> with service name and channel binding, \<open>step\<close>, \<open>unwrap\<close> and \<open>wrap\<close>
  (errors with their text), and the parameters that the codec shares: wrapping and the maximal size,
  and the context.
\<close>

record ('cred, 'pend, 'ctx, 'w) krb5 =
  k_new :: "bytes \<Rightarrow> bytes option \<Rightarrow> ('pend \<times> bytes, bytes) result"
  k_new_with_cred :: "'cred \<Rightarrow> bytes \<Rightarrow> bytes option \<Rightarrow> ('pend \<times> bytes, bytes) result"
  k_step :: "'pend \<Rightarrow> bytes \<Rightarrow> (('pend, 'ctx) Step, bytes) result"
  k_unwrap :: "'ctx \<Rightarrow> bytes \<Rightarrow> (bytes \<times> 'ctx, bytes) result"
  k_wrap :: "'ctx \<Rightarrow> bool \<Rightarrow> bytes \<Rightarrow> (bytes \<times> 'ctx, bytes) result"
  k_set_sasl_param :: "bool \<times> u32 \<Rightarrow> 'w \<Rightarrow> 'w"
  k_set_client_ctx :: "'ctx \<Rightarrow> 'w \<Rightarrow> 'w"

definition LDAP_RESULT_SASL_BIND_IN_PROGRESS :: u32 where "LDAP_RESULT_SASL_BIND_IN_PROGRESS = 14"
definition GSSAUTH_P_NONE :: u8 where "GSSAUTH_P_NONE = 1"
definition GSSAUTH_P_PRIVACY :: u8 where "GSSAUTH_P_PRIVACY = 4"

definition channel_binding :: "Ldap \<Rightarrow> bytes option" where
  "channel_binding self =
     (if has_tls self then map_option (\<lambda>token. str ''tls-server-end-point:'' @ token) (tls_endpoint_token self) else None)"

definition needed_layer :: "Ldap \<Rightarrow> u8" where
  "needed_layer self = (if has_tls self then GSSAUTH_P_NONE else GSSAUTH_P_PRIVACY)"

text \<open>\<open>u32::from_be_bytes((&buf[..]).try_into().expect(..))\<close>.\<close>

definition u32_from_be_slice :: "bytes \<Rightarrow> u32 panicking" where
  "u32_from_be_slice buf = (if length buf = 4 then Some (of_nat (be_uint buf)) else panic)"

text \<open>The end of the bind, from the last result on.\<close>

definition gssapi_install ::
    "('cred, 'pend, 'ctx, 'w) krb5 \<Rightarrow> 'ctx \<Rightarrow> u8 \<Rightarrow> bytes \<Rightarrow> LdapResult \<Rightarrow> (LdapResult, Ldap, 'w) async" where
  "gssapi_install K ctx layer buf res self w =
     (if lr_rc res = 0 then do {
        w \<leftarrow> (if layer = GSSAUTH_P_PRIVACY then do {
                 send_max_size \<leftarrow> u32_from_be_slice (buf[0 := 0]);
                 Some (k_set_sasl_param K (True, send_max_size) w)
               } else Some w);
        Some (Ok res, self, k_set_client_ctx K ctx w)
      }
      else Some (Ok res, self, w))"

text \<open>The negotiation of the security layer, with the unwrapped offer of the server.\<close>

definition gssapi_layer ::
    "('cred, 'pend, 'ctx, 'w) krb5 \<Rightarrow> 'w tokio \<Rightarrow> 'ctx \<Rightarrow> bytes \<Rightarrow> (LdapResult, Ldap, 'w) async" where
  "gssapi_layer K T ctx buf self w = do {
     let layer = needed_layer self;
     offered \<leftarrow> vec_index buf 0;
     if offered OR layer = 0 then
       fail (GssapiOperationError (str ''no appropriate security layer offered: needed '' @
         decimal (unat layer) @ str '', mask '' @ decimal (unat offered))) self w
     else
       let recv_max_size = be_bytes 4 (unat ((0x9FFFB8 :: u32) OR push_bit 24 (ucast layer))) in
       case k_wrap K ctx True recv_max_size of
         Err e \<Rightarrow> fail (GssapiOperationError e) self w
       | Ok (size_msg, ctx) \<Rightarrow>
           await_ok (single_op T (sasl_bind_req (str ''GSSAPI'') (Some size_msg))) (gssapi_install K ctx layer buf) self w
   }"

text \<open>What follows an answer that is not final: its token.\<close>

definition gssapi_next ::
    "(bytes \<Rightarrow> (LdapResult, Ldap, 'w) async) \<Rightarrow> LdapResultExt \<Rightarrow> (LdapResult, Ldap, 'w) async" where
  "gssapi_next k = (\<lambda>(res, _, creds).
     if lr_rc res \<noteq> LDAP_RESULT_SASL_BIND_IN_PROGRESS then done_ok res
     else case creds of Some token \<Rightarrow> k token | None \<Rightarrow> fail NoGssapiToken)"

definition gssapi_finish ::
    "('cred, 'pend, 'ctx, 'w) krb5 \<Rightarrow> 'w tokio \<Rightarrow> 'ctx \<Rightarrow> (LdapResult, Ldap, 'w) async" where
  "gssapi_finish K T ctx =
     await_ok (op_call T Single (sasl_bind_req (str ''GSSAPI'') None))
       (gssapi_next (\<lambda>token.
          case k_unwrap K ctx token of
            Err e \<Rightarrow> fail (GssapiOperationError e)
          | Ok (buf, ctx) \<Rightarrow> gssapi_layer K T ctx buf))"

definition gssapi_bind ::
    "('cred, 'pend, 'ctx, 'w) krb5 \<Rightarrow> 'w tokio \<Rightarrow> bytes \<Rightarrow> 'cred GssapiCred \<Rightarrow> (LdapResult, Ldap, 'w) async" where
  "gssapi_bind K T server_fqdn cred self w =
     (let spn = str ''ldap/'' @ server_fqdn in
      case (case cred of
              Cred_Default \<Rightarrow> k_new K spn (channel_binding self)
            | Cred_Supplied c \<Rightarrow> k_new_with_cred K c spn (channel_binding self)) of
        Err e \<Rightarrow> fail (GssapiOperationError e) self w
      | Ok (ctx, token) \<Rightarrow>
          await_ok (op_call T Single (sasl_bind_req (str ''GSSAPI'') (Some token)))
            (gssapi_next (\<lambda>token.
               case k_step K ctx token of
                 Err e \<Rightarrow> fail (GssapiOperationError e)
               | Ok (Step_Finished ctx None) \<Rightarrow> gssapi_finish K T ctx
               | Ok _ \<Rightarrow> fail (GssapiOperationError (str ''GSSAPI exchange not finished or has an additional token'')))) self w)"

definition sasl_gssapi_bind ::
    "('cred, 'pend, 'ctx, 'w) krb5 \<Rightarrow> 'w tokio \<Rightarrow> bytes \<Rightarrow> (LdapResult, Ldap, 'w) async" where
  "sasl_gssapi_bind K T server_fqdn = gssapi_bind K T server_fqdn Cred_Default"

definition sasl_gssapi_cred_bind ::
    "('cred, 'pend, 'ctx, 'w) krb5 \<Rightarrow> 'w tokio \<Rightarrow> 'cred \<Rightarrow> bytes \<Rightarrow> (LdapResult, Ldap, 'w) async" where
  "sasl_gssapi_cred_bind K T cred server_fqdn = gssapi_bind K T server_fqdn (Cred_Supplied cred)"

subsection \<open>ldap.rs: NTLM\<close>

datatype SecurityStatus = CompleteNeeded | CompleteAndContinue | Other_Status

text \<open>
  The NTLM library: a new context, the parsed user name, the credentials handle,
  \<open>initialize_security_context\<close> with the status and the output token, \<open>complete_auth_token\<close> on the
  output token, and \<open>set_channel_bindings\<close>.
\<close>

record ('user, 'ntlm, 'creds) sspi =
  sp_new :: 'ntlm
  sp_username :: "bytes \<Rightarrow> 'user option"
  sp_acquire :: "'user \<Rightarrow> bytes \<Rightarrow> 'ntlm \<Rightarrow> ('creds \<times> 'ntlm) option"
  sp_initialize :: "'creds \<Rightarrow> bytes \<Rightarrow> 'ntlm \<Rightarrow> (SecurityStatus \<times> bytes \<times> 'creds \<times> 'ntlm) option"
  sp_complete :: "bytes \<Rightarrow> 'ntlm \<Rightarrow> (bytes \<times> 'ntlm) option"
  sp_set_channel_bindings :: "bytes \<Rightarrow> 'ntlm \<Rightarrow> 'ntlm"

definition ntlm_step :: "('user, 'ntlm, 'creds) sspi \<Rightarrow> 'ntlm \<times> 'creds \<Rightarrow> bytes \<Rightarrow> (bytes \<times> 'ntlm \<times> 'creds, LdapError) result" where
  "ntlm_step P = (\<lambda>(ntlm, acq_creds) inp.
     case sp_initialize P acq_creds inp ntlm of
       None \<Rightarrow> Err SSPIError
     | Some (status, out, acq_creds, ntlm) \<Rightarrow>
         if status = CompleteNeeded \<or> status = CompleteAndContinue then
           (case sp_complete P out ntlm of
              None \<Rightarrow> Err SSPIError
            | Some (out, ntlm) \<Rightarrow> Ok (out, ntlm, acq_creds))
         else Ok (out, ntlm, acq_creds))"

definition ntlm_respond ::
    "('user, 'ntlm, 'creds) sspi \<Rightarrow> 'w tokio \<Rightarrow> 'ntlm \<times> 'creds \<Rightarrow> bytes \<Rightarrow> (LdapResult, Ldap, 'w) async" where
  "ntlm_respond P T = (\<lambda>(ntlm, acq_creds) token self w.
     let ntlm = (case channel_binding self of Some cbt \<Rightarrow> sp_set_channel_bindings P cbt ntlm | None \<Rightarrow> ntlm) in
     case ntlm_step P (ntlm, acq_creds) token of
       Err e \<Rightarrow> fail e self w
     | Ok (out, _) \<Rightarrow> single_op T (sasl_bind_req (str ''GSS-SPNEGO'') (Some out)) self w)"

definition sasl_ntlm_bind ::
    "('user, 'ntlm, 'creds) sspi \<Rightarrow> 'w tokio \<Rightarrow> bytes \<Rightarrow> bytes \<Rightarrow> (LdapResult, Ldap, 'w) async" where
  "sasl_ntlm_bind P T username password self w = do {
     user \<leftarrow> sp_username P username;
     case sp_acquire P user password (sp_new P) of
       None \<Rightarrow> fail SSPIError self w
     | Some (acq_creds, ntlm) \<Rightarrow>
         (case ntlm_step P (ntlm, acq_creds) [] of
            Err e \<Rightarrow> fail e self w
          | Ok (out, ntlm) \<Rightarrow>
              await_ok (op_call T Single (sasl_bind_req (str ''GSS-SPNEGO'') (Some out)))
                (\<lambda>(res, _, creds).
                   if lr_rc res \<noteq> LDAP_RESULT_SASL_BIND_IN_PROGRESS then done_ok res
                   else case creds of None \<Rightarrow> fail NoNtlmChallengeToken | Some token \<Rightarrow> ntlm_respond P T ntlm token) self w)
   }"

subsection \<open>The offered layers\<close>

lemma layer_always_offered: "offered OR needed_layer self \<noteq> 0"
proof -
  have "bit (needed_layer self) 0 \<or> bit (needed_layer self) 2"
    by (simp add: needed_layer_def GSSAUTH_P_NONE_def GSSAUTH_P_PRIVACY_def bit_simps)
  then have "bit (offered OR needed_layer self) 0 \<or> bit (offered OR needed_layer self) 2"
    by (auto simp: bit_simps)
  then show ?thesis by (metis bit_0_eq bot_apply bot_bool_def)
qed

text \<open>
  Claim C40. The mask of the security layers that the server offers has no influence on the bind: the client
  goes on in the same way whatever the mask, also when the layer it needs is not among them.
\<close>

theorem gssapi_mask_ignored:
  "gssapi_layer K T ctx (offered # limit) = gssapi_layer K T ctx (offered' # limit)"
proof (intro ext)
  fix self w
  have install: "gssapi_install K c layer (offered # limit) = gssapi_install K c layer (offered' # limit)" for c layer
    by (intro ext) (simp add: gssapi_install_def)
  show "gssapi_layer K T ctx (offered # limit) self w = gssapi_layer K T ctx (offered' # limit) self w"
    by (simp add: gssapi_layer_def layer_always_offered Let_def install split: result.split)
qed

subsection \<open>The outcome of the bind\<close>

lemma fail_Ok [simp]: "fail e h w \<noteq> Some (Ok x, h', w')"
  by simp

text \<open>One request of the exchange, from a state to a state, and its answer.\<close>

definition bind_answered ::
    "'w tokio \<Rightarrow> bytes option \<Rightarrow> Ldap \<times> 'w \<Rightarrow> LdapResult \<times> SaslCreds \<Rightarrow> Ldap \<times> 'w \<Rightarrow> bool" where
  "bind_answered T token s = (\<lambda>(res, creds) s'. \<exists>e.
     op_call T Single (sasl_bind_req (str ''GSSAPI'') token) (fst s) (snd s) = Some (Ok (res, e, creds), s'))"

text \<open>The context and the first token, from the default credential or the one supplied.\<close>

definition gssapi_context ::
    "('cred, 'pend, 'ctx, 'w) krb5 \<Rightarrow> bytes \<Rightarrow> 'cred GssapiCred \<Rightarrow> Ldap \<Rightarrow> ('pend \<times> bytes, bytes) result" where
  "gssapi_context K server_fqdn cred self =
     (let spn = str ''ldap/'' @ server_fqdn in
      case cred of
        Cred_Default \<Rightarrow> k_new K spn (channel_binding self)
      | Cred_Supplied c \<Rightarrow> k_new_with_cred K c spn (channel_binding self))"

text \<open>
  The exchange as RFC 4752 has it. \<open>gssapi_authenticated\<close>: the server has answered the first token with its own, which
  completes the context. \<open>gssapi_offered\<close>: it has answered the empty request with the wrapped offer of layers and
  a size limit.
\<close>

definition gssapi_authenticated ::
    "('cred, 'pend, 'ctx, 'w) krb5 \<Rightarrow> 'w tokio \<Rightarrow> bytes \<Rightarrow> 'cred GssapiCred \<Rightarrow> Ldap \<times> 'w \<Rightarrow> 'ctx \<Rightarrow> Ldap \<times> 'w \<Rightarrow> bool" where
  "gssapi_authenticated K T server_fqdn cred s ctx s1 \<longleftrightarrow> (\<exists>pend token res answer.
     gssapi_context K server_fqdn cred (fst s) = Ok (pend, token) \<and>
     bind_answered T (Some token) s (res, Some answer) s1 \<and> lr_rc res = LDAP_RESULT_SASL_BIND_IN_PROGRESS \<and>
     k_step K pend answer = Ok (Step_Finished ctx None))"

definition gssapi_offered ::
    "('cred, 'pend, 'ctx, 'w) krb5 \<Rightarrow> 'w tokio \<Rightarrow> bytes \<Rightarrow> 'cred GssapiCred \<Rightarrow> Ldap \<times> 'w \<Rightarrow> 'ctx \<Rightarrow> bytes \<Rightarrow> Ldap \<times> 'w \<Rightarrow> bool" where
  "gssapi_offered K T server_fqdn cred s ctx offer s2 \<longleftrightarrow> (\<exists>ctx1 s1 res answer.
     gssapi_authenticated K T server_fqdn cred s ctx1 s1 \<and>
     bind_answered T None s1 (res, Some answer) s2 \<and> lr_rc res = LDAP_RESULT_SASL_BIND_IN_PROGRESS \<and>
     k_unwrap K ctx1 answer = Ok (offer, ctx))"

text \<open>
  The server ends the exchange early, with its answer to the first or to the empty request: the state is the one after
  that request, and nothing is installed.
\<close>

definition ended_early ::
    "('cred, 'pend, 'ctx, 'w) krb5 \<Rightarrow> 'w tokio \<Rightarrow> bytes \<Rightarrow> 'cred GssapiCred \<Rightarrow> Ldap \<times> 'w \<Rightarrow> LdapResult \<Rightarrow> Ldap \<times> 'w \<Rightarrow> bool" where
  "ended_early K T server_fqdn cred s res s' \<longleftrightarrow>
     (\<exists>pend token creds. gssapi_context K server_fqdn cred (fst s) = Ok (pend, token) \<and> bind_answered T (Some token) s (res, creds) s') \<or>
     (\<exists>ctx s1 creds. gssapi_authenticated K T server_fqdn cred s ctx s1 \<and> bind_answered T None s1 (res, creds) s')"

text \<open>
  The layer is negotiated: the offer ends in three octets with the size limit of the server, the client's choice of
  confidentiality (mask 4) with its own limit \<open>0x9FFFB8\<close> is wrapped and accepted, and then the codec is set to wrap,
  with the limit of the server and the context of the last wrapping.
\<close>

definition layer_negotiated ::
    "('cred, 'pend, 'ctx, 'w) krb5 \<Rightarrow> 'w tokio \<Rightarrow> bytes \<Rightarrow> 'cred GssapiCred \<Rightarrow> Ldap \<times> 'w \<Rightarrow> LdapResult \<Rightarrow> Ldap \<times> 'w \<Rightarrow> bool" where
  "layer_negotiated K T server_fqdn cred s res s' \<longleftrightarrow> (\<exists>ctx layers maximum s2 choice ctx' creds self' w.
     gssapi_offered K T server_fqdn cred s ctx (layers # maximum) s2 \<and> length maximum = 3 \<and>
     k_wrap K ctx True [4, 0x9F, 0xFF, 0xB8] = Ok (choice, ctx') \<and>
     bind_answered T (Some choice) s2 (res, creds) (self', w) \<and>
     s' = (self', k_set_client_ctx K ctx' (k_set_sasl_param K (True, of_nat (be_uint maximum)) w)))"

lemma op_call_has_tls: "op_call T op req self w = Some (r, self', w') \<Longrightarrow> has_tls self' = has_tls self"
  by (auto simp: op_call_def await_ok_def op_submit_def op_response_def Let_def
      split: bind_splits prod.splits result.splits option.splits elim!: op_result.elims)

lemma bind_answered_has_tls: "bind_answered T token s a s' \<Longrightarrow> has_tls (fst s') = has_tls (fst s)"
  by (cases s'; cases a) (auto simp: bind_answered_def dest: op_call_has_tls)

lemma authenticated_has_tls: "gssapi_authenticated K T f cred s ctx s1 \<Longrightarrow> has_tls (fst s1) = has_tls (fst s)"
  by (auto simp: gssapi_authenticated_def dest: bind_answered_has_tls)

lemma offered_has_tls: "gssapi_offered K T f cred s ctx offer s2 \<Longrightarrow> has_tls (fst s2) = has_tls (fst s)"
  by (auto simp: gssapi_offered_def dest: bind_answered_has_tls authenticated_has_tls)

lemma await_ok_Ok_iff:
  "await_ok m k h w = Some (Ok y, s') \<longleftrightarrow> (\<exists>x h1 w1. m h w = Some (Ok x, h1, w1) \<and> k x h1 w1 = Some (Ok y, s'))"
  by (cases "m h w"; cases s') (auto simp: await_ok_def split: result.split_asm)

text \<open>A request, and what the exchange goes on with.\<close>

lemma gssapi_next_simp:
  "gssapi_next k (res1, e, creds) h w = Some (Ok res, s') \<longleftrightarrow>
    (lr_rc res1 \<noteq> LDAP_RESULT_SASL_BIND_IN_PROGRESS \<and> res1 = res \<and> s' = (h, w)) \<or>
    (lr_rc res1 = LDAP_RESULT_SASL_BIND_IN_PROGRESS \<and> (\<exists>answer. creds = Some answer \<and> k answer h w = Some (Ok res, s')))"
  by (cases s') (auto simp: gssapi_next_def done_ok_def split: option.splits)

lemma gssapi_next_iff:
  "await_ok (op_call T Single (sasl_bind_req (str ''GSSAPI'') token)) (gssapi_next k) self w = Some (Ok res, s') \<longleftrightarrow>
    (lr_rc res \<noteq> LDAP_RESULT_SASL_BIND_IN_PROGRESS \<and> (\<exists>creds. bind_answered T token (self, w) (res, creds) s')) \<or>
    (\<exists>res1 answer s1. bind_answered T token (self, w) (res1, Some answer) s1 \<and>
      lr_rc res1 = LDAP_RESULT_SASL_BIND_IN_PROGRESS \<and> k answer (fst s1) (snd s1) = Some (Ok res, s'))"
  by (auto simp: await_ok_Ok_iff gssapi_next_simp bind_answered_def simp del: str_simps; blast)

lemma u32_from_be_slice_zero:
  "u32_from_be_slice (0 # v) = (if length v = 3 then Some (of_nat (be_uint v)) else panic)"
  by (simp add: u32_from_be_slice_def)

lemma gssapi_install_iff:
  assumes "lr_rc res' = 0"
  shows "gssapi_install K ctx GSSAUTH_P_PRIVACY (layers # maximum) res self w = Some (Ok res', s') \<longleftrightarrow>
    res' = res \<and> length maximum = 3 \<and>
    s' = (self, k_set_client_ctx K ctx (k_set_sasl_param K (True, of_nat (be_uint maximum)) w))"
proof (cases "lr_rc res = 0 \<and> length maximum = 3")
  case True
  then show ?thesis by (cases s') (auto simp: gssapi_install_def u32_from_be_slice_zero)
next
  case False
  then show ?thesis using assms by (cases s') (auto simp: gssapi_install_def u32_from_be_slice_zero)
qed

lemma layer_choice: "be_bytes 4 (unat ((0x9FFFB8 :: u32) OR push_bit 24 (ucast GSSAUTH_P_PRIVACY))) = [4, 0x9F, 0xFF, 0xB8]"
proof -
  have "push_bit 24 (ucast GSSAUTH_P_PRIVACY) = (0x4000000 :: u32)"
    by (simp add: GSSAUTH_P_PRIVACY_def push_bit_eq_mult)
  then have "unat ((0x9FFFB8 :: u32) OR push_bit 24 (ucast GSSAUTH_P_PRIVACY)) = 0x49FFFB8" by simp
  moreover have "(4 :: nat) = Suc (Suc (Suc (Suc 0)))" by simp
  ultimately show ?thesis by (simp only: be_bytes.simps) simp
qed

lemma gssapi_layer_iff:
  assumes "\<not> has_tls self" and "lr_rc res = 0"
  shows "gssapi_layer K T ctx buf self w = Some (Ok res, s') \<longleftrightarrow>
    (\<exists>layers maximum choice ctx' creds self' w'. buf = layers # maximum \<and> length maximum = 3 \<and>
      k_wrap K ctx True [4, 0x9F, 0xFF, 0xB8] = Ok (choice, ctx') \<and>
      bind_answered T (Some choice) (self, w) (res, creds) (self', w') \<and>
      s' = (self', k_set_client_ctx K ctx' (k_set_sasl_param K (True, of_nat (be_uint maximum)) w')))"
proof (cases buf)
  case Nil
  then show ?thesis by (simp add: gssapi_layer_def vec_index_def)
next
  case (Cons layers maximum)
  have layer: "needed_layer self = GSSAUTH_P_PRIVACY" using assms(1) by (simp add: needed_layer_def)
  show ?thesis
  proof (cases "k_wrap K ctx True [4, 0x9F, 0xFF, 0xB8]")
    case (Err e)
    then show ?thesis using layer_always_offered [of layers self]
      by (cases s') (simp add: gssapi_layer_def Cons layer layer_choice Let_def)
  next
    case (Ok z)
    obtain choice ctx' where z: "z = (choice, ctx')" by (cases z)
    have "gssapi_layer K T ctx buf self w =
        await_ok (single_op T (sasl_bind_req (str ''GSSAPI'') (Some choice))) (gssapi_install K ctx' GSSAUTH_P_PRIVACY buf) self w"
      using layer_always_offered [of layers self] Ok z by (simp add: gssapi_layer_def Cons layer layer_choice Let_def del: str_simps)
    then show ?thesis
      using Ok z assms(2)
      by (auto simp: Cons single_op_def await_ok_Ok_iff gssapi_install_iff bind_answered_def done_ok_def simp del: str_simps)
  qed
qed

lemma gssapi_finish_iff:
  assumes "\<not> has_tls h" and "lr_rc res = 0"
  shows "gssapi_finish K T ctx h w = Some (Ok res, s') \<longleftrightarrow>
    (\<exists>creds. bind_answered T None (h, w) (res, creds) s') \<or>
    (\<exists>res1 answer s1 layers maximum ctx1 choice ctx2 creds self' w'.
      bind_answered T None (h, w) (res1, Some answer) s1 \<and> lr_rc res1 = LDAP_RESULT_SASL_BIND_IN_PROGRESS \<and>
      k_unwrap K ctx answer = Ok (layers # maximum, ctx1) \<and> length maximum = 3 \<and>
      k_wrap K ctx1 True [4, 0x9F, 0xFF, 0xB8] = Ok (choice, ctx2) \<and>
      bind_answered T (Some choice) s1 (res, creds) (self', w') \<and>
      s' = (self', k_set_client_ctx K ctx2 (k_set_sasl_param K (True, of_nat (be_uint maximum)) w')))"
proof -
  let ?k = "\<lambda>token. case k_unwrap K ctx token of Err e \<Rightarrow> fail (GssapiOperationError e) | Ok (buf, ctx) \<Rightarrow> gssapi_layer K T ctx buf"
  have k: "?k answer (fst s1) (snd s1) = Some (Ok res, s') \<longleftrightarrow>
      (\<exists>buf ctx1. k_unwrap K ctx answer = Ok (buf, ctx1) \<and> gssapi_layer K T ctx1 buf (fst s1) (snd s1) = Some (Ok res, s'))"
    for answer s1
    by (cases s'; cases "k_unwrap K ctx answer") auto
  have rc: "lr_rc res \<noteq> LDAP_RESULT_SASL_BIND_IN_PROGRESS"
    using assms(2) by (simp add: LDAP_RESULT_SASL_BIND_IN_PROGRESS_def)
  have tls: "\<not> has_tls (fst s1)" if "bind_answered T None (h, w) (res1, Some answer) s1" for res1 answer s1
    using bind_answered_has_tls [OF that] assms(1) by simp
  show ?thesis
    unfolding gssapi_finish_def gssapi_next_iff k using rc tls assms(2) by (auto simp: gssapi_layer_iff; blast)
qed

text \<open>
  Claim C17. The outcome of a GSSAPI bind in the clear. It reports success exactly in two cases. Either the server has
  ended the exchange with its answer to the first or to the empty request, and nothing is installed; or the two
  sides have negotiated the confidentiality layer, and the codec now wraps, with the size limit of the server's offer
  and the context of the exchange.
\<close>

theorem gssapi_bind_outcome:
  assumes "\<not> has_tls self" and "lr_rc res = 0"
  shows "gssapi_bind K T server_fqdn cred self w = Some (Ok res, s') \<longleftrightarrow>
    ended_early K T server_fqdn cred (self, w) res s' \<or> layer_negotiated K T server_fqdn cred (self, w) res s'"
proof -
  let ?fin = "\<lambda>pend token. case k_step K pend token of
         Err e \<Rightarrow> fail (GssapiOperationError e)
       | Ok (Step_Finished ctx None) \<Rightarrow> gssapi_finish K T ctx
       | Ok _ \<Rightarrow> fail (GssapiOperationError (str ''GSSAPI exchange not finished or has an additional token''))"
  have step: "?fin pend answer h w = Some (Ok res, s') \<longleftrightarrow>
      (\<exists>ctx. k_step K pend answer = Ok (Step_Finished ctx None) \<and> gssapi_finish K T ctx h w = Some (Ok res, s'))" for pend answer h w
    by (cases s') (auto split: result.split Step.split option.split simp del: str_simps)
  have start: "gssapi_bind K T server_fqdn cred self w = Some (Ok res, s') \<longleftrightarrow>
    (\<exists>pend token. gssapi_context K server_fqdn cred self = Ok (pend, token) \<and>
      await_ok (op_call T Single (sasl_bind_req (str ''GSSAPI'') (Some token))) (gssapi_next (?fin pend)) self w = Some (Ok res, s'))"
    by (cases s'; cases "gssapi_context K server_fqdn cred self")
      (auto simp: gssapi_bind_def gssapi_context_def Let_def simp del: str_simps)
  have rc: "lr_rc res \<noteq> LDAP_RESULT_SASL_BIND_IN_PROGRESS"
    using assms(2) by (simp add: LDAP_RESULT_SASL_BIND_IN_PROGRESS_def)
  have auth: "gssapi_bind K T server_fqdn cred self w = Some (Ok res, s') \<longleftrightarrow>
    (\<exists>pend token creds. gssapi_context K server_fqdn cred self = Ok (pend, token) \<and>
      bind_answered T (Some token) (self, w) (res, creds) s') \<or>
    (\<exists>ctx s1. gssapi_authenticated K T server_fqdn cred (self, w) ctx s1 \<and>
      gssapi_finish K T ctx (fst s1) (snd s1) = Some (Ok res, s'))"
    unfolding start gssapi_next_iff step gssapi_authenticated_def using rc by fastforce
  have tls: "\<not> has_tls (fst s1)" if "gssapi_authenticated K T server_fqdn cred (self, w) ctx s1" for ctx s1
    using authenticated_has_tls [OF that] assms(1) by simp
  have "(\<exists>ctx s1. gssapi_authenticated K T server_fqdn cred (self, w) ctx s1 \<and>
      gssapi_finish K T ctx (fst s1) (snd s1) = Some (Ok res, s')) \<longleftrightarrow>
    (\<exists>ctx s1 creds. gssapi_authenticated K T server_fqdn cred (self, w) ctx s1 \<and> bind_answered T None s1 (res, creds) s') \<or>
    layer_negotiated K T server_fqdn cred (self, w) res s'"
    (is "?finish \<longleftrightarrow> ?early \<or> ?layer")
  proof
    assume ?finish
    then show "?early \<or> ?layer"
      using tls by (auto simp: gssapi_finish_iff [OF _ assms(2)] layer_negotiated_def gssapi_offered_def) blast+
  next
    assume "?early \<or> ?layer"
    then obtain ctx s1 where a: "gssapi_authenticated K T server_fqdn cred (self, w) ctx s1"
      and "(\<exists>creds. bind_answered T None s1 (res, creds) s') \<or>
        (\<exists>res1 answer s2 layers maximum ctx1 choice ctx2 creds self' w'.
          bind_answered T None s1 (res1, Some answer) s2 \<and> lr_rc res1 = LDAP_RESULT_SASL_BIND_IN_PROGRESS \<and>
          k_unwrap K ctx answer = Ok (layers # maximum, ctx1) \<and> length maximum = 3 \<and>
          k_wrap K ctx1 True [4, 0x9F, 0xFF, 0xB8] = Ok (choice, ctx2) \<and>
          bind_answered T (Some choice) s2 (res, creds) (self', w') \<and>
          s' = (self', k_set_client_ctx K ctx2 (k_set_sasl_param K (True, of_nat (be_uint maximum)) w')))"
      unfolding layer_negotiated_def gssapi_offered_def by blast
    then have "gssapi_finish K T ctx (fst s1) (snd s1) = Some (Ok res, s')"
      by (simp add: gssapi_finish_iff [OF tls [OF a] assms(2)])
    with a show ?finish by blast
  qed
  then show ?thesis unfolding auth ended_early_def by auto
qed
subsection \<open>The wrapping codec\<close>

text \<open>
  Claim C16. With the security layer on, messages round trip between two codecs: if the peer's \<open>unwrap_iov\<close>
  recovers what \<open>wrap\<close> has encrypted, what follows it left aside, then the frame that the encoder
  writes is decoded by the peer to the same message, and the bytes after the frame remain.
\<close>

theorem sasl_message_roundtrip:
  assumes "nom_streaming_doc S" and "message_ok m"
    and "sasl_wrap codec" and "client_ctx codec = Some c"
    and "sasl_send_max codec = 0 \<or> length (wire m) \<le> unat (sasl_send_max codec)"
    and "gss_wrap G c (wire m) = Ok (sealed, c')" and "length sealed < 2 ^ 32"
    and "sasl_wrap peer" and "\<not> has_decoded_data peer" and "client_ctx peer = Some p"
    and "gss_unwrap_iov H p (length sealed) (sealed @ rest) = Ok (wire m, rest, p')"
  shows "\<exists>frame. encode G codec m into = Some (Ok (), into @ frame, codec\<lparr> client_ctx := Some c' \<rparr>) \<and>
    decode S H peer (frame @ rest) = Some (Ok (Some (received m)), rest, peer\<lparr> client_ctx := Some p' \<rparr>)"
proof (intro exI conjI)
  let ?frame = "be_bytes 4 (length sealed) @ sealed"
  have enc: "encode_into [] (case m of (i, t, cs) \<Rightarrow> message_tag i t cs) = Some (wire m)"
    using assms(2) by (cases m) (simp add: message_ok_def wire_def ber_ok_def encode_into_def encode_eq)
  have max: "\<not> (0 < sasl_send_max codec \<and> unat (sasl_send_max codec) < length (wire m))"
    using assms(5) by auto
  show "encode G codec m into = Some (Ok (), into @ ?frame, codec\<lparr> client_ctx := Some c' \<rparr>)"
    using enc max assms(3,4,6) by (cases m) (simp add: encode_def maybe_wrap_def)
  have inner: "decode_inner S (wire m) = Some (Ok (Some (received m)), [])"
    using nom_streaming_doc.decode_inner_message [OF assms(1), of _ _ _ "[]"] assms(2) by (cases m) (simp add: wire_def)
  have len: "be_uint (be_bytes 4 (length sealed)) = length sealed"
    using assms(7) by (simp add: be_uint_be_bytes)
  have ne: "be_bytes 4 k \<noteq> []" for k by (metis length_be_bytes list.size(3) zero_neq_numeral)
  show "decode S H peer (?frame @ rest) = Some (Ok (Some (received m)), rest, peer\<lparr> client_ctx := Some p' \<rparr>)"
    using ne assms(8-11) by (simp add: decode_def len inner Let_def)
qed

definition example_cipher :: "unit gssapi" where
  "example_cipher = \<lparr> gss_unwrap_iov = (\<lambda>_ n buf. Ok (map (\<lambda>b. b XOR 0xFF) (take n buf), drop n buf, ())),
     gss_wrap = (\<lambda>_ v. Ok (map (\<lambda>b. b XOR 0xFF) v, ())) \<rparr>"

definition example_codec :: "u32 \<Rightarrow> unit LdapCodec" where
  "example_codec limit = \<lparr> has_decoded_data = False, sasl_wrap = True, sasl_send_max = limit, client_ctx = Some () \<rparr>"

lemma example_message_length: "length (wire example_message) < 2 ^ 32"
proof -
  let ?m = "message_tag 7 (Tag_OctetString 10 Application (str ''o=x'')) (Some [ManageDsaIt_into])"
  have "weight ?m < 2 ^ 32"
    using weight_i_e [of 2 Universal "scast (7 :: i32)"]
    by (simp add: message_tag_def opsimps build_tag_def ManageDsaIt_into_def oid_defs)
  moreover have "low_ids ?m" using example_message_ok by (simp add: example_message_def message_ok_def ber_ok_def)
  ultimately show ?thesis using length_ber_weight [of ?m] by (simp add: wire_def example_message_def)
qed

theorem sasl_message_roundtrip_witness:
  "\<exists>frame. encode example_cipher (example_codec 0) example_message [] =
      Some (Ok (), [] @ frame, (example_codec 0)\<lparr> client_ctx := Some () \<rparr>) \<and>
    decode nom_streaming_ref example_cipher (example_codec 0) (frame @ [1, 2]) =
      Some (Ok (Some (received example_message)), [1, 2], (example_codec 0)\<lparr> client_ctx := Some () \<rparr>)"
proof (rule sasl_message_roundtrip [OF nsr.nom_streaming_doc_axioms example_message_ok])
  show "gss_wrap example_cipher () (wire example_message) = Ok (map (\<lambda>b. b XOR 0xFF) (wire example_message), ())"
    by (simp add: example_cipher_def)
  have "length (wire example_message) < 2 ^ 32" by (rule example_message_length)
  then show "length (map (\<lambda>b. b XOR 0xFF) (wire example_message)) < 2 ^ 32" by simp
  show "gss_unwrap_iov example_cipher () (length (map (\<lambda>b. b XOR 0xFF) (wire example_message)))
      (map (\<lambda>b. b XOR 0xFF) (wire example_message) @ [1, 2]) = Ok (wire example_message, [1, 2], ())"
    by (simp add: example_cipher_def comp_def xor.assoc)
qed (simp_all add: example_codec_def)

subsection \<open>An exchange\<close>

text \<open>A server that answers every request at once, the \<open>n\<close>-th request by the \<open>n\<close>-th answer.\<close>

record sasl_world = world +
  sw_param :: "bool \<times> u32"
  sw_ctx :: "nat option"

definition scripted :: "Tag list \<Rightarrow> sasl_world tokio" where
  "scripted answers = channels.extend channels_ref (tokio.fields
     (\<lambda>t w. Some (if t < length answers then Some (answers ! t, []) else None, w))
     (\<lambda>_ t w. Some (Some (if t < length answers then Some (answers ! t, []) else None), w))
     (\<lambda>_ w. Some (None, w)) (\<lambda>_ _ w. Some (Some None, w)) (\<lambda>_ w. Some (None, w)))"

definition bind_result :: "u32 \<Rightarrow> LdapResult" where
  "bind_result rc = \<lparr> lr_rc = rc, lr_matched = [], lr_text = [], lr_refs = [], lr_ctrls = [] \<rparr>"

definition bind_answer :: "u32 \<Rightarrow> SaslCreds \<Rightarrow> Tag" where
  "bind_answer rc creds = Tag_StructureTag (response_tag 1 (bind_result rc) \<lparr> ex_name = None, ex_val = None \<rparr> creds)"

lemma bind_answer_parsed:
  "LdapResultExt_from (bind_answer rc creds) = Some (bind_result rc, \<lparr> ex_name = None, ex_val = None \<rparr>, creds)"
  using response_parsed [of "bind_result rc" "\<lparr> ex_name = None, ex_val = None \<rparr>" 1 creds]
  by (simp add: bind_answer_def bind_result_def utf8_response_def)

definition example_krb5 :: "(unit, nat, nat, sasl_world) krb5" where
  "example_krb5 = \<lparr> k_new = (\<lambda>spn _. Ok (1, spn)), k_new_with_cred = (\<lambda>_ spn _. Ok (1, spn)),
     k_step = (\<lambda>n token. Ok (Step_Finished (Suc n) None)), k_unwrap = (\<lambda>n v. Ok (v, Suc n)),
     k_wrap = (\<lambda>n _ v. Ok (v, Suc n)), k_set_sasl_param = (\<lambda>q w. w\<lparr> sw_param := q \<rparr>),
     k_set_client_ctx = (\<lambda>n w. w\<lparr> sw_ctx := Some n \<rparr>) \<rparr>"

definition sasl_init :: sasl_world where
  "sasl_init = world.extend world_init (sasl_world.fields (False, 0) None)"

definition clear_handle :: Ldap where
  "clear_handle = \<lparr> last_id = 0, has_tls = False, tls_endpoint_token = None, timeout = None, controls = None, search_opts = None \<rparr>"

lemma scripted_simps [simp]:
  "ch_msgmap (scripted as) = w_msgmap"
  "ch_set_msgmap (scripted as) m w = w\<lparr> w_msgmap := m \<rparr>"
  "ch_oneshot (scripted as) w = (w_next w, w\<lparr> w_next := Suc (w_next w) \<rparr>)"
  "ch_send_op (scripted as) op w = (w_open w, if w_open w then w\<lparr> w_ops := w_ops w @ [op] \<rparr> else w)"
  "await_result (scripted as) t w = Some (if t < length as then Some (as ! t, []) else None, w)"
  by (simp_all add: scripted_def channels.extend_def tokio.fields_def channels_ref_def)

lemma scripted_op_call:
  assumes "w_next w < length as" and "as ! w_next w = bind_answer rc creds" and "w_open w" and "timeout self = None"
    and "next_msgid (scripted as) w = Some (i, w1)" and "w_next w1 = w_next w" and "w_open w1"
  shows "op_call (scripted as) op req self w = Some (Ok (bind_result rc, \<lparr> ex_name = None, ex_val = None \<rparr>, creds),
    self\<lparr> last_id := i, controls := None \<rparr>, w1\<lparr> w_next := Suc (w_next w), w_ops := w_ops w1 @ [(i, op, req, controls self, w_next w)] \<rparr>)"
  using assms
  by (simp add: op_call_def await_ok_def op_submit_def op_response_def bind_answer_parsed bind_result_def)

lemma next_msgid_scripted:
  "succ_id (fst (w_msgmap w)) \<notin> snd (w_msgmap w) \<Longrightarrow> next_msgid (scripted as) w =
    Some (succ_id (fst (w_msgmap w)), w\<lparr> w_msgmap := (succ_id (fst (w_msgmap w)), insert (succ_id (fst (w_msgmap w))) (snd (w_msgmap w))) \<rparr>)"
  by (simp add: next_msgid_def split_beta next_msgid_loop.simps)

lemma sasl_init_simps [simp]:
  "w_next sasl_init = 0" "w_open sasl_init" "w_msgmap sasl_init = (0, {})" "w_ops sasl_init = []"
  by (simp_all add: sasl_init_def world.extend_def world_init_def)

lemma example_exchange:
  "\<exists>self' w. gssapi_bind example_krb5 (scripted [bind_answer 14 (Some []), bind_answer 14 (Some [4, 1, 0, 0]), bind_answer 0 None])
      (str ''host'') Cred_Default clear_handle sasl_init = Some (Ok (bind_result 0), self', w) \<and> sw_param w = (True, 0x10000)"
proof -
  let ?T = "scripted [bind_answer 14 (Some []), bind_answer 14 (Some [4, 1, 0, 0]), bind_answer 0 None]"
  have ids: "succ_id 0 = 1" "succ_id 1 = 2" "succ_id 2 = 3" by code_simp+
  show ?thesis
    by (simp add: gssapi_bind_def gssapi_next_def gssapi_finish_def gssapi_layer_def gssapi_install_def single_op_def
      await_ok_def scripted_op_call next_msgid_scripted ids clear_handle_def Let_def example_krb5_def bind_result_def
      LDAP_RESULT_SASL_BIND_IN_PROGRESS_def layer_always_offered needed_layer_def GSSAUTH_P_PRIVACY_def u32_from_be_slice_def del: str_simps)
qed

theorem gssapi_bind_outcome_witness:
  "\<exists>s'. gssapi_bind example_krb5 (scripted [bind_answer 14 (Some []), bind_answer 14 (Some [4, 1, 0, 0]), bind_answer 0 None])
      (str ''host'') Cred_Default clear_handle sasl_init = Some (Ok (bind_result 0), s') \<and>
    (ended_early example_krb5 (scripted [bind_answer 14 (Some []), bind_answer 14 (Some [4, 1, 0, 0]), bind_answer 0 None])
       (str ''host'') Cred_Default (clear_handle, sasl_init) (bind_result 0) s' \<or>
     layer_negotiated example_krb5 (scripted [bind_answer 14 (Some []), bind_answer 14 (Some [4, 1, 0, 0]), bind_answer 0 None])
       (str ''host'') Cred_Default (clear_handle, sasl_init) (bind_result 0) s')"
proof -
  obtain s' where b: "gssapi_bind example_krb5 (scripted [bind_answer 14 (Some []), bind_answer 14 (Some [4, 1, 0, 0]),
      bind_answer 0 None]) (str ''host'') Cred_Default clear_handle sasl_init = Some (Ok (bind_result 0), s')"
    using example_exchange by auto
  have h: "\<not> has_tls clear_handle" "lr_rc (bind_result 0) = 0" by (simp_all add: clear_handle_def bind_result_def)
  show ?thesis by (intro exI [of _ s'] conjI b iffD1 [OF gssapi_bind_outcome [OF h] b])
qed

text \<open>
  A server that answers the first request of a GSSAPI bind with success makes the bind succeed in
  the clear: no layer is installed, no context is kept, and the server has proved nothing.
\<close>

theorem gssapi_success_in_clear:
  "\<exists>self' w. gssapi_bind example_krb5 (scripted [bind_answer 0 None]) (str ''host'') Cred_Default clear_handle sasl_init =
      Some (Ok (bind_result 0), self', w) \<and> sw_param w = (False, 0) \<and> sw_ctx w = None"
proof -
  have "succ_id 0 = 1" by code_simp
  moreover have "sw_param sasl_init = (False, 0)" "sw_ctx sasl_init = None"
    by (simp_all add: sasl_init_def world.extend_def world_init_def sasl_world.fields_def)
  ultimately show ?thesis
    by (simp add: gssapi_bind_def gssapi_next_def await_ok_def scripted_op_call next_msgid_scripted clear_handle_def Let_def
      example_krb5_def bind_result_def LDAP_RESULT_SASL_BIND_IN_PROGRESS_def del: str_simps)
qed

end
