(* ===== verification/Sync_Api.thy ===== *)
theory Sync_Api
  imports Network Conn_Setup Sasl_Bind
begin

text \<open>
  The blocking interface (\<open>src/sync.rs\<close>): \<open>LdapConn\<close> owns a runtime and a handle, and each of its
  methods runs the operation of the handle to its end with \<open>block_on\<close>. The runtime and the tasks that
  it runs are part of the surroundings. \<open>EntryStream\<close> holds the connection while its search is under
  way and gives it back with the result.

  Shown here: reading a blocking search to its end returns every message of the server, in order, and
  then its result.
\<close>

subsection \<open>sync.rs: LdapConn\<close>

record LdapConn =
  lc_ldap :: Ldap

definition block_on :: "('a, Ldap, 'w) async \<Rightarrow> ('a, LdapConn, 'w) async" where
  "block_on f self w = do {
     (r, ldap, w) \<leftarrow> f (lc_ldap self) w;
     Some (r, self\<lparr> lc_ldap := ldap \<rparr>, w)
   }"

text \<open>
  Opening: the runtime is built, the connection is opened in it, and its loop is spawned as a task
  (\<open>drive!\<close>).
\<close>

definition LdapConn_from_url_with_settings ::
    "tls_feature \<Rightarrow> ('con, 'conf, 'sn, 'w) tls_lib \<Rightarrow> 'w net_env \<Rightarrow> (bytes \<Rightarrow> bytes) \<Rightarrow> (unit, io_error) result \<Rightarrow>
     (LdapConnAsync \<Rightarrow> 'w \<Rightarrow> 'w) \<Rightarrow> ('con, 'conf) LdapConnSettings \<Rightarrow> Url \<Rightarrow> (LdapConn, LdapError, 'w) io" where
  "LdapConn_from_url_with_settings ft L X percent_decode_lossy built spawn_drive settings url w =
     (case built of
        Err e \<Rightarrow> Some (Err (Io e), w)
      | Ok _ \<Rightarrow>
          try_ok (from_url_with_settings ft L X percent_decode_lossy settings url)
            (\<lambda>(conn, ldap) w. Some (Ok \<lparr> lc_ldap = ldap \<rparr>, spawn_drive conn w)) w)"

definition LdapConn_from_url ::
    "tls_feature \<Rightarrow> ('con, 'conf, 'sn, 'w) tls_lib \<Rightarrow> 'w net_env \<Rightarrow> (bytes \<Rightarrow> bytes) \<Rightarrow> (unit, io_error) result \<Rightarrow>
     (LdapConnAsync \<Rightarrow> 'w \<Rightarrow> 'w) \<Rightarrow> Url \<Rightarrow> (LdapConn, LdapError, 'w) io" where
  "LdapConn_from_url ft L X percent_decode_lossy built spawn_drive =
     LdapConn_from_url_with_settings ft L X percent_decode_lossy built spawn_drive LdapConnSettings_new"

definition LdapConn_with_settings ::
    "tls_feature \<Rightarrow> ('con, 'conf, 'sn, 'w) tls_lib \<Rightarrow> 'w net_env \<Rightarrow> (bytes \<Rightarrow> bytes) \<Rightarrow> (unit, io_error) result \<Rightarrow>
     (LdapConnAsync \<Rightarrow> 'w \<Rightarrow> 'w) \<Rightarrow> (bytes \<Rightarrow> Url option) \<Rightarrow> ('con, 'conf) LdapConnSettings \<Rightarrow> bytes \<Rightarrow>
     (LdapConn, LdapError, 'w) io" where
  "LdapConn_with_settings ft L X percent_decode_lossy built spawn_drive Url_parse settings url w =
     (case Url_parse url of
        None \<Rightarrow> Some (Err UrlParsing, w)
      | Some url \<Rightarrow> LdapConn_from_url_with_settings ft L X percent_decode_lossy built spawn_drive settings url w)"

definition LdapConn_new ::
    "tls_feature \<Rightarrow> ('con, 'conf, 'sn, 'w) tls_lib \<Rightarrow> 'w net_env \<Rightarrow> (bytes \<Rightarrow> bytes) \<Rightarrow> (unit, io_error) result \<Rightarrow>
     (LdapConnAsync \<Rightarrow> 'w \<Rightarrow> 'w) \<Rightarrow> (bytes \<Rightarrow> Url option) \<Rightarrow> bytes \<Rightarrow> (LdapConn, LdapError, 'w) io" where
  "LdapConn_new ft L X percent_decode_lossy built spawn_drive Url_parse =
     LdapConn_with_settings ft L X percent_decode_lossy built spawn_drive Url_parse LdapConnSettings_new"

definition LdapConn_with_search_options :: "SearchOptions \<Rightarrow> LdapConn \<Rightarrow> LdapConn" where
  "LdapConn_with_search_options opts self = self\<lparr> lc_ldap := (lc_ldap self)\<lparr> search_opts := Some opts \<rparr> \<rparr>"

definition LdapConn_with_controls :: "RawControl list \<Rightarrow> LdapConn \<Rightarrow> LdapConn" where
  "LdapConn_with_controls ctrls self = self\<lparr> lc_ldap := (lc_ldap self)\<lparr> controls := Some ctrls \<rparr> \<rparr>"

definition LdapConn_with_timeout :: "duration \<Rightarrow> LdapConn \<Rightarrow> LdapConn" where
  "LdapConn_with_timeout d self = self\<lparr> lc_ldap := (lc_ldap self)\<lparr> timeout := Some d \<rparr> \<rparr>"

definition LdapConn_simple_bind :: "'w tokio \<Rightarrow> bytes \<Rightarrow> bytes \<Rightarrow> (LdapResult, LdapConn, 'w) async" where
  "LdapConn_simple_bind T bind_dn bind_pw = block_on (simple_bind T bind_dn bind_pw)"

definition LdapConn_sasl_external_bind :: "'w tokio \<Rightarrow> (LdapResult, LdapConn, 'w) async" where
  "LdapConn_sasl_external_bind T = block_on (sasl_external_bind T)"

definition LdapConn_sasl_gssapi_bind ::
    "('cred, 'pend, 'ctx, 'w) krb5 \<Rightarrow> 'w tokio \<Rightarrow> bytes \<Rightarrow> (LdapResult, LdapConn, 'w) async" where
  "LdapConn_sasl_gssapi_bind K T server_fqdn = block_on (sasl_gssapi_bind K T server_fqdn)"

definition LdapConn_sasl_gssapi_cred_bind ::
    "('cred, 'pend, 'ctx, 'w) krb5 \<Rightarrow> 'w tokio \<Rightarrow> 'cred \<Rightarrow> bytes \<Rightarrow> (LdapResult, LdapConn, 'w) async" where
  "LdapConn_sasl_gssapi_cred_bind K T cred server_fqdn = block_on (sasl_gssapi_cred_bind K T cred server_fqdn)"

definition LdapConn_sasl_ntlm_bind ::
    "('user, 'ntlm, 'creds) sspi \<Rightarrow> 'w tokio \<Rightarrow> bytes \<Rightarrow> bytes \<Rightarrow> (LdapResult, LdapConn, 'w) async" where
  "LdapConn_sasl_ntlm_bind P T username password = block_on (sasl_ntlm_bind P T username password)"

definition LdapConn_search ::
    "'w tokio \<Rightarrow> nom_complete \<Rightarrow> nom_streaming \<Rightarrow> bytes \<Rightarrow> Scope \<Rightarrow> bytes \<Rightarrow> bytes list \<Rightarrow> (SearchResult, LdapConn, 'w) async" where
  "LdapConn_search T N S base scope filt attrs = block_on (Ldap_search T N S base scope filt attrs)"

definition LdapConn_add :: "'w tokio \<Rightarrow> bytes \<Rightarrow> (bytes \<times> bytes list) list \<Rightarrow> (LdapResult, LdapConn, 'w) async" where
  "LdapConn_add T dn attrs = block_on (Ldap_add T dn attrs)"

definition LdapConn_compare :: "'w tokio \<Rightarrow> bytes \<Rightarrow> bytes \<Rightarrow> bytes \<Rightarrow> (CompareResult, LdapConn, 'w) async" where
  "LdapConn_compare T dn attr val = block_on (Ldap_compare T dn attr val)"

definition LdapConn_delete :: "'w tokio \<Rightarrow> bytes \<Rightarrow> (LdapResult, LdapConn, 'w) async" where
  "LdapConn_delete T dn = block_on (Ldap_delete T dn)"

definition LdapConn_modify :: "'w tokio \<Rightarrow> bytes \<Rightarrow> Mod list \<Rightarrow> (LdapResult, LdapConn, 'w) async" where
  "LdapConn_modify T dn mods = block_on (modify T dn mods)"

definition LdapConn_modifydn ::
    "'w tokio \<Rightarrow> bytes \<Rightarrow> bytes \<Rightarrow> bool \<Rightarrow> bytes option \<Rightarrow> (LdapResult, LdapConn, 'w) async" where
  "LdapConn_modifydn T dn rdn delete_old new_sup = block_on (modifydn T dn rdn delete_old new_sup)"

definition LdapConn_unbind :: "'w tokio \<Rightarrow> (unit, LdapConn, 'w) async" where
  "LdapConn_unbind T = block_on (unbind T)"

definition LdapConn_extended :: "'w tokio \<Rightarrow> Exop \<Rightarrow> (ExopResult, LdapConn, 'w) async" where
  "LdapConn_extended T exop = block_on (extended T exop)"

definition LdapConn_last_id :: "LdapConn \<Rightarrow> RequestId" where
  "LdapConn_last_id self = last_id (lc_ldap self)"

definition LdapConn_abandon :: "'w tokio \<Rightarrow> RequestId \<Rightarrow> (unit, LdapConn, 'w) async" where
  "LdapConn_abandon T msgid = block_on (abandon T msgid)"

definition LdapConn_is_closed :: "'w tokio \<Rightarrow> 'w \<Rightarrow> bool" where
  "LdapConn_is_closed T w = ch_is_closed T w"

definition LdapConn_get_peer_certificate :: "'w tokio \<Rightarrow> (bytes option, LdapConn, 'w) async" where
  "LdapConn_get_peer_certificate T = block_on (Ldap_get_peer_certificate T)"

subsection \<open>sync.rs: EntryStream\<close>

record EntryStream =
  es_stream :: SearchStream
  es_conn :: LdapConn

definition LdapConn_streaming_search_with ::
    "'w tokio \<Rightarrow> nom_complete \<Rightarrow> Adapter list \<Rightarrow> bytes \<Rightarrow> Scope \<Rightarrow> bytes \<Rightarrow> bytes list \<Rightarrow> (EntryStream, LdapConn, 'w) async" where
  "LdapConn_streaming_search_with T N adapters base scope filt attrs =
     await_ok (block_on (streaming_search_with T N adapters base scope filt attrs))
       (\<lambda>stream self. done_ok \<lparr> es_stream = stream, es_conn = self \<rparr> self)"

definition LdapConn_streaming_search ::
    "'w tokio \<Rightarrow> nom_complete \<Rightarrow> bytes \<Rightarrow> Scope \<Rightarrow> bytes \<Rightarrow> bytes list \<Rightarrow> (EntryStream, LdapConn, 'w) async" where
  "LdapConn_streaming_search T N base scope filt attrs =
     await_ok (block_on (streaming_search T N base scope filt attrs))
       (\<lambda>stream self. done_ok \<lparr> es_stream = stream, es_conn = self \<rparr> self)"

definition EntryStream_next :: "'w tokio \<Rightarrow> nom_complete \<Rightarrow> nom_streaming \<Rightarrow> (ResultEntry option, EntryStream, 'w) async" where
  "EntryStream_next T N S self w = do {
     (r, stream, w) \<leftarrow> stream_next T N S (es_stream self) w;
     Some (r, self\<lparr> es_stream := stream \<rparr>, w)
   }"

text \<open>\<open>result\<close> consumes the stream, which ends the borrow of the connection.\<close>

definition EntryStream_result ::
    "('w, 'z) channels_scheme \<Rightarrow> EntryStream \<Rightarrow> 'w \<Rightarrow> (LdapResult \<times> LdapConn \<times> 'w) panicking" where
  "EntryStream_result T self w = do {
     (res, _, w) \<leftarrow> stream_finish T (es_stream self) w;
     Some (res, es_conn self, w)
   }"

definition EntryStream_last_id :: "EntryStream \<Rightarrow> RequestId" where
  "EntryStream_last_id self = last_id (ss_ldap (es_stream self))"

text \<open>
  Reading a stream to its end, as the documentation of the library shows it:
  \<open>while let Some(entry) = search.next()? { .. }\<close>, then \<open>search.result()\<close>.
\<close>

partial_function (option) read_entries ::
    "(ResultEntry option, EntryStream, 'w) async \<Rightarrow> ResultEntry list \<Rightarrow> EntryStream \<Rightarrow> 'w \<Rightarrow>
     ((ResultEntry list, LdapError) result \<times> EntryStream \<times> 'w) option" where
  "read_entries nxt acc search w =
     (case nxt search w of
        None \<Rightarrow> None
      | Some (Ok (Some entry), search, w) \<Rightarrow> read_entries nxt (acc @ [entry]) search w
      | Some (Ok None, search, w) \<Rightarrow> Some (Ok acc, search, w)
      | Some (Err e, search, w) \<Rightarrow> Some (Err e, search, w))"

definition read_search ::
    "'w tokio \<Rightarrow> nom_complete \<Rightarrow> nom_streaming \<Rightarrow> bytes \<Rightarrow> Scope \<Rightarrow> bytes \<Rightarrow> bytes list \<Rightarrow>
     (ResultEntry list \<times> LdapResult, LdapConn, 'w) async" where
  "read_search T N S base scope filt attrs =
     await_ok (LdapConn_streaming_search T N base scope filt attrs) (\<lambda>search ldap w. do {
       (r, search, w) \<leftarrow> read_entries (EntryStream_next T N S) [] search w;
       case r of
         Err e \<Rightarrow> Some (Err e, es_conn search, drop_rx T (es_stream search) w)
       | Ok entries \<Rightarrow> do {
           (res, ldap, w) \<leftarrow> EntryStream_result T search w;
           Some (Ok (entries, res), ldap, w)
         }
     })"

subsection \<open>Reading to the end\<close>

context item_source
begin

lemma read_entries_direct:
  assumes "feeds ch (replies es r cs) w" and "reading ch s" and "ss_ax s = length (ss_adapters s)"
  shows "\<exists>w'. feeds ch [] w' \<and> read_entries (EntryStream_next T N S) acc \<lparr> es_stream = s, es_conn = c \<rparr> w =
    Some (Ok (acc @ es), \<lparr> es_stream = ended r cs s, es_conn = c \<rparr>, ch_drop_rx T ch w')"
  using assms(1)
proof (induction es arbitrary: acc w)
  case Nil
  then obtain w' where "next_at 0 T N S s w = Some (Ok None, ended r cs s, ch_drop_rx T ch w')" "feeds ch [] w'"
    using direct_end [OF _ assms(2,3)] by blast
  with assms(3) show ?case
    by (subst read_entries.simps) (auto simp: EntryStream_next_def stream_next_def)
next
  case (Cons e es)
  obtain w' where n: "next_at 0 T N S s w = Some (Ok (Some e), s, w')" and f: "feeds ch (replies es r cs) w'"
    using direct_next [OF Cons.prems assms(2,3)] by blast
  have "EntryStream_next T N S \<lparr> es_stream = s, es_conn = c \<rparr> w = Some (Ok (Some e), \<lparr> es_stream = s, es_conn = c \<rparr>, w')"
    using n assms(3) by (simp add: EntryStream_next_def stream_next_def)
  with Cons.IH [OF f, of "acc @ [e]"] show ?case by (subst read_entries.simps) simp
qed

end

context search_server
begin

lemma streaming_search_reading:
  assumes "idle (Suc n) w" and "timeout h = None" and "parse N filt = Some (Ok ft)"
    and "request_ok (request_of h base scope ft attrs) (controls h)"
  shows "\<exists>s ch w'. streaming_search T N base scope filt attrs h w =
      Some (Ok s, h\<lparr> controls := None, search_opts := None \<rparr>, w') \<and> reading ch s \<and> ss_ax s = 0 \<and> ss_adapters s = [] \<and>
      feeds n ch (answer (request_of h base scope ft attrs) (controls h)) w'"
  using start_inner_ok [OF assms(1), of
      "SearchStream_new ((Ldap_clone h)\<lparr> controls := controls h, timeout := timeout h, search_opts := search_opts h \<rparr>) []"] assms(2-)
  by (fastforce simp: streaming_search_def streaming_search_with_def stream_start_def start_at.simps
      SearchStream_new_def fail_state_def request_of_def reading_def Let_def)

lemma read_search_returns:
  assumes "idle (Suc n) w" and "timeout (lc_ldap c) = None" and "parse N filt = Some (Ok ft)"
    and "request_ok (request_of (lc_ldap c) base scope ft attrs) (controls (lc_ldap c))"
    and "answer (request_of (lc_ldap c) base scope ft attrs) (controls (lc_ldap c)) = replies es r cs"
  shows "\<exists>w' id. idle n w' \<and> read_search T N S base scope filt attrs c w =
    Some (Ok (es, r\<lparr> lr_ctrls := cs \<rparr>), c\<lparr> lc_ldap := (lc_ldap c)\<lparr> controls := None, search_opts := None \<rparr> \<rparr>,
      snd (ch_send_scrub T id w'))"
proof -
  let ?c = "c\<lparr> lc_ldap := (lc_ldap c)\<lparr> controls := None, search_opts := None \<rparr> \<rparr>"
  obtain s ch w1 where s: "streaming_search T N base scope filt attrs (lc_ldap c) w =
      Some (Ok s, (lc_ldap c)\<lparr> controls := None, search_opts := None \<rparr>, w1)" "reading ch s" "ss_ax s = 0" "ss_adapters s = []"
    "feeds n ch (replies es r cs) w1"
    using streaming_search_reading [OF assms(1-4)] assms(5) by auto
  obtain w2 where w2: "feeds n ch [] w2" "read_entries (EntryStream_next T N S) [] \<lparr> es_stream = s, es_conn = ?c \<rparr> w1 =
      Some (Ok es, \<lparr> es_stream = ended r cs s, es_conn = ?c \<rparr>, ch_drop_rx T ch w2)"
    using src.read_entries_direct [OF s(5,2), of N S "[]" ?c] s(3,4) by auto
  have fin: "stream_finish T (ended r cs s) w' = Some (r\<lparr> lr_ctrls := cs \<rparr>,
      (ended r cs s)\<lparr> ss_state := Closed, ss_res := None \<rparr>, snd (ch_send_scrub T (last_id (ss_ldap s)) w'))" for w'
    using s(2-4) by (simp add: stream_finish_def finish_at.simps ended_def finish_inner_def drop_rx_def reading_def Let_def)
  show ?thesis
    using s(1) w2(2) fin drained [OF w2(1)]
    by (auto simp: read_search_def LdapConn_streaming_search_def await_ok_def block_on_def EntryStream_result_def)
qed

end

context nom_streaming_doc
begin

lemmas net_read_search_returns = net.read_search_returns

end

subsection \<open>Properties\<close>

text \<open>
  Claim C18. Blocking streams from end to end: for any server that answers the request of a search with
  the messages \<open>es\<close> and then the result \<open>r\<close>, a blocking search that is read to its end yields exactly
  these messages, in the order in which they were sent, and its result is \<open>r\<close> with its controls; the
  modifiers of the handle are used up.
\<close>

theorem blocking_stream_end_to_end:
  assumes "nom_streaming_doc S" and "net_idle (Suc n) w" and "timeout (lc_ldap c) = None" and "parse N filt = Some (Ok ft)"
    and "net_request_ok srv (request_of (lc_ldap c) base scope ft attrs) (controls (lc_ldap c))"
    and "net_answer srv (request_of (lc_ldap c) base scope ft attrs) (controls (lc_ldap c)) = replies es r cs"
  shows "\<exists>w'. read_search (tokio_net S srv) N S base scope filt attrs c w =
    Some (Ok (es, r\<lparr> lr_ctrls := cs \<rparr>), c\<lparr> lc_ldap := (lc_ldap c)\<lparr> controls := None, search_opts := None \<rparr> \<rparr>, w')"
  using nom_streaming_doc.net_read_search_returns [OF assms] by blast

theorem blocking_stream_end_to_end_witness:
  "\<exists>w'. read_search (tokio_net nom_streaming_ref example_server) nom_complete_ref nom_streaming_ref example_base Subtree (str ''(a=*)'') []
      \<lparr> lc_ldap = example_handle \<rparr> net_init =
    Some (Ok (example_messages, empty_result\<lparr> lr_ctrls := [] \<rparr>),
      \<lparr> lc_ldap = example_handle \<rparr>\<lparr> lc_ldap := example_handle\<lparr> controls := None, search_opts := None \<rparr> \<rparr>, w')"
  using blocking_stream_end_to_end [OF nsr.nom_streaming_doc_axioms _ _ example_parse, of 999 net_init "\<lparr> lc_ldap = example_handle \<rparr>"
      example_server example_base Subtree "[]" example_messages empty_result "[]"] net_init_idle example_search
  by (simp add: example_handle_def conn_pair_def)

end
