(* ===== verification/Text_Types.thy ===== *)
theory Text_Types
  imports Protocol
begin

text \<open>
  The type \<open>String\<close> of the source promises UTF-8; in the model it is the type of all byte strings. This
  theory shows that what the parsers return where the source has a \<open>String\<close> is UTF-8: in the
  results of operations, in entries and in controls, whatever the bytes of the server were.
\<close>

lemma map_panicking_all:
  "map_panicking f xs = Some ys \<Longrightarrow> (\<And>x y. f x = Some y \<Longrightarrow> P y) \<Longrightarrow> list_all P ys"
  by (induction xs arbitrary: ys) (auto split: bind_splits)

lemma from_utf8_Some: "from_utf8 v = Some s \<longleftrightarrow> utf8_valid v \<and> s = v"
  by (auto simp: from_utf8_def)

lemma parse_refs_utf8: "parse_refs t = Some us \<Longrightarrow> list_all utf8_valid us"
  by (auto simp: parse_refs_def from_utf8_Some split: bind_splits elim!: map_panicking_all)

lemma result_comps_utf8:
  "result_comps tags refs n v c = Some (refs', n', v', c') \<Longrightarrow> list_all utf8_valid refs \<Longrightarrow> pred_option utf8_valid n \<Longrightarrow>
    list_all utf8_valid refs' \<and> pred_option utf8_valid n'"
  by (induction tags refs n v c rule: result_comps.induct)
    (auto simp: from_utf8_Some split: if_splits bind_splits dest: parse_refs_utf8)

lemma result_utf8: "LdapResultExt_from t = Some (r, e, c) \<Longrightarrow> utf8_response r e"
  by (auto simp: LdapResultExt_from_def utf8_response_def from_utf8_Some empty_result_def split: Tag.splits bind_splits
      dest!: result_comps_utf8 [where refs = "[]" and n = None, simplified])

text \<open>The maps of an entry: names are UTF-8 in both, values in the first.\<close>

definition text_maps :: "(bytes \<rightharpoonup> bytes list) \<times> (bytes \<rightharpoonup> bytes list) \<Rightarrow> bool" where
  "text_maps = (\<lambda>(attrs, bins). (\<forall>a vs. attrs a = Some vs \<longrightarrow> utf8_valid a \<and> list_all utf8_valid vs) \<and>
     (\<forall>a vs. bins a = Some vs \<longrightarrow> utf8_valid a))"

lemma construct_values_utf8:
  "construct_values a ss bins any = (vs, bins', any') \<Longrightarrow> list_all utf8_valid vs \<and> (\<forall>b. b \<noteq> a \<longrightarrow> bins' b = bins b)"
  by (induction a ss bins any arbitrary: vs rule: construct_values.induct)
    (auto simp: from_utf8_Some Let_def split: option.splits prod.splits)

lemma construct_attr_utf8: "construct_attr t m = Some m' \<Longrightarrow> text_maps m \<Longrightarrow> text_maps m'"
  by (auto simp: construct_attr_def text_maps_def from_utf8_Some Let_def split: bind_splits if_splits prod.splits
      dest!: construct_values_utf8) (metis option.inject)+

lemma construct_attrs_utf8: "construct_attrs ts m = Some m' \<Longrightarrow> text_maps m \<Longrightarrow> text_maps m'"
  by (induction ts m rule: construct_attrs.induct) (auto split: bind_splits dest: construct_attr_utf8)

lemma construct_utf8: "construct re = Some se \<Longrightarrow> utf8_valid (se_dn se) \<and> text_maps (se_attrs se, se_bin_attrs se)"
  by (auto simp: construct_def from_utf8_Some split: bind_splits dest!: construct_attrs_utf8) (simp add: text_maps_def)

fun control_utf8 :: "Control \<Rightarrow> bool" where
  "control_utf8 (Control _ rc) = utf8_valid (ctype rc)"

lemma parse_control_utf8: "parse_control t = Some c \<Longrightarrow> control_utf8 c"
  by (auto simp: parse_control_def from_utf8_Some split: bind_splits)

lemma parse_controls_utf8: "parse_controls t = Some cs \<Longrightarrow> list_all control_utf8 cs"
  by (auto simp: parse_controls_def split: bind_splits elim!: map_panicking_all parse_control_utf8)

lemma decode_elements_utf8: "decode_elements ts = Some (Ok (Some (i, tag, cs))) \<Longrightarrow> list_all control_utf8 cs"
  by (auto simp: decode_elements_def split: bind_splits if_splits option.splits) (rule parse_controls_utf8)

lemma decode_inner_utf8: "decode_inner S buf = Some (Ok (Some (i, tag, cs)), rest) \<Longrightarrow> list_all control_utf8 cs"
  by (auto simp: decode_inner_def Let_def split: result.splits NomErr.splits option.splits bind_splits prod.splits
      dest!: decode_elements_utf8)

subsection \<open>Properties\<close>

text \<open>
  Claim C27. Strings are strings: whatever the server has sent, the matched DN, the text, the referrals
  and the response name of a parsed result, the DN and the attribute names of a parsed entry and the
  values in its text attributes, and the control types of a decoded message are UTF-8, as the type
  \<open>String\<close> demands.
\<close>

theorem parsed_strings_utf8:
  "(LdapResultExt_from t = Some (r, e, c) \<longrightarrow> utf8_response r e) \<and>
   (construct re = Some se \<longrightarrow> utf8_valid (se_dn se) \<and> text_maps (se_attrs se, se_bin_attrs se)) \<and>
   (decode_inner S buf = Some (Ok (Some (i, tag, cs)), rest) \<longrightarrow> list_all control_utf8 cs)"
  using result_utf8 construct_utf8 decode_inner_utf8 by blast

theorem parsed_strings_utf8_witness:
  "utf8_response empty_result \<lparr> ex_name = Some (str ''1.3''), ex_val = None \<rparr> \<and>
   text_maps (\<lambda>a. if a = str ''cn'' then Some [str ''x''] else None, \<lambda>_. None) \<and>
   list_all control_utf8 (snd (snd (received example_message)))"
proof -
  let ?e = "\<lparr> ex_name = Some (str ''1.3''), ex_val = None \<rparr>"
  let ?maps = "\<lambda>a. if a = str ''cn'' then Some [str ''x''] else None"
  let ?re = "ResultEntry (StructureTag Application 4 (PL_C [octets (str ''o=x''), StructureTag Universal 16 (PL_C
    [StructureTag Universal 16 (PL_C [octets (str ''cn''), StructureTag Universal 17 (PL_C [octets (str ''x'')])])])])) []"
  have r: "LdapResultExt_from (Tag_StructureTag (response_tag 24 empty_result ?e None)) = Some (empty_result, ?e, None)"
    using response_parsed [of empty_result ?e 24 None] by (simp add: utf8_response_def empty_result_def is_ascii_def)
  have "construct ?re = Some \<lparr> se_dn = str ''o=x'', se_attrs = ?maps, se_bin_attrs = \<lambda>_. None \<rparr>"
    by (simp add: construct_def octets_def match_id_def construct_attr_def from_utf8_def is_ascii_def fun_eq_iff)
  moreover obtain i tag where "decode_inner nom_streaming_ref (wire example_message @ []) = Some (Ok (Some (i, tag, snd (snd (received example_message)))), [])"
    using nsr.decode_inner_message [of 7 _ _ "[]"] example_message_ok by (auto simp: example_message_def wire_def received_def)
  ultimately show ?thesis
    using parsed_strings_utf8 [of "Tag_StructureTag (response_tag 24 empty_result ?e None)" empty_result ?e None ?re _
        nom_streaming_ref "wire example_message @ []" i tag "snd (snd (received example_message))" "[]"] r
    by (metis SearchEntry.select_convs(2,3))
qed

end
