(* ===== verification/Spec2Isabelle.thy ===== *)
theory Spec2Isabelle
  imports Op_Endings Adapter_Chain Delivery Start_Tls Sync_Api Text_Types
begin

text \<open>
  A model of the LDAP client library \<open>ldap3\<close> (\<open>src/src\<close>) and of its BER crate \<open>lber\<close>
  (\<open>src/lber/src\<close>), with the theorems that make it correct.

  \<^bold>\<open>The program.\<close> An application calls the operations of a handle \<open>Ldap\<close>. An operation builds its
  request as an ASN.1 structure, allocates a message ID and sends the request over a channel to the
  connection \<open>LdapConnAsync\<close>, a task that owns the socket. The connection remembers under the message
  ID who waits for the answer, encodes the request and writes it. What it reads from the socket is
  decoded into messages, and each goes to the operation that waits for its ID. A search gets many
  messages for one request; they reach the application through a stream, possibly changed by a chain
  of adapters.

  \<^bold>\<open>Conventions.\<close> Bytes are \<open>8 word\<close>, a \<open>String\<close> or \<open>&str\<close> is the list of its UTF-8 bytes, machine
  integers have their width. \<open>Result\<close> is the type \<open>result\<close>; a function that can panic returns an
  option, \<open>None\<close> for the panic, and so does a call that may not return. Code outside \<open>src/\<close> is a
  parameter: a record of functions (nom's combinators, tokio's channels, timers and sockets, the TLS,
  Kerberos and NTLM libraries) or a function argument (URL parsing, percent decoding), with a locale for the documented behaviour that a theorem
  relies on and an interpretation of the locale by executable reference functions.

  \<^bold>\<open>Theories.\<close>
  \<^item> \<open>Prelude\<close>: results, panics, vectors, strings and UTF-8, big-endian numbers.
  \<^item> \<open>Lber_Structure\<close> (\<open>lber/src/common.rs\<close>, \<open>universal.rs\<close>, \<open>structure.rs\<close>, \<open>structures/*.rs\<close>): tags,
    structures, and the contents octets of integers, shown to be the two's complement of every
    non-negative value.
  \<^item> \<open>Lber_Write\<close> (\<open>lber/src/write.rs\<close>): the encoder, and \<open>ber\<close>, the encoding as X.690 defines it.
  \<^item> \<open>Nom\<close>, \<open>Lber_Parse\<close> (\<open>lber/src/parse.rs\<close>): the streaming parser over nom. The encoder writes
    \<open>ber\<close>; the parser reads every \<open>ber_ok\<close> structure back, asks for more input on every proper prefix
    of a structure with a number up to 30, and its results do not change when more input follows. Greater
    numbers are misread.
  \<^item> \<open>Search_Filter\<close>, \<open>Filter_Grammar\<close> (\<open>src/filter.rs\<close>): the RFC 4515 filter parser. An abstract
    syntax of filters has its texts given by the productions of the grammar; the parser reads every such text, matching
    rules that begin with \<open>dn\<close> apart, accepts nothing else, returns the tag of the filter that the text spells, and does
    not panic.
  \<^item> \<open>Ber_Value\<close>: values of controls and extended operations as embedded BER, a lemma library.
  \<^item> \<open>Controls\<close>, \<open>Controls_Impl\<close> (\<open>src/controls_impl.rs\<close>, \<open>src/controls_impl/*.rs\<close>), \<open>Exop\<close>
    (\<open>src/exop_impl.rs\<close>, \<open>src/exop_impl/*.rs\<close>): controls and extended operations, with round trips.
  \<^item> \<open>Search_Entry\<close> (\<open>src/search.rs\<close>), \<open>Ldap_Result\<close> (\<open>src/result.rs\<close>): entries and results; every
    attribute value of an entry is found again, every response is parsed into its parts.
  \<^item> \<open>Util\<close> (\<open>src/util.rs\<close>): escaping and LDAP URLs; an escaped literal is a single value of a filter.
  \<^item> \<open>Protocol\<close> (\<open>src/protocol.rs\<close>): the codec; round trip of messages, independence of the decoding
    from the way in which the stream is cut into reads, and the messages and reads on which it fails.
  \<^item> \<open>Runtime\<close>: what the asynchronous code uses of tokio, and reference surroundings.
  \<^item> \<open>Ldap_Client\<close> (\<open>src/ldap.rs\<close>): the handle, the allocation of message IDs, all operations.
  \<^item> \<open>Transitions\<close>, \<open>Connection\<close> (\<open>src/conn.rs\<close>): the branches of the connection's loop, and the
    transition system of handles and connection with its invariant and the refinement of a table of
    pending requests, in which every step has one outcome up to the choice of a free ID; and what happens when a scrub
    request overtakes its operation.
  \<^item> \<open>Delivery\<close>: histories of whole runs; no operation and no search gets a message that came for
    another, in any interleaving in which no scrub request overtakes its operation.
  \<^item> \<open>Search_Stream\<close> (\<open>src/search.rs\<close>, \<open>src/adapters.rs\<close>, the searches of \<open>src/ldap.rs\<close>): the states of a
    search stream and the adapters \<open>EntriesOnly\<close> and \<open>PagedResults\<close>.
  \<^item> \<open>Stream_Reading\<close>: streams read to their end. The locales \<open>item_source\<close> and \<open>search_server\<close> say what a
    stream relies on, \<open>entry_source\<close> what an adapter gives to the next; the adapters are shown to turn one
    source into another, so that chains compose.
  \<^item> \<open>Network\<close>: handles, connection and codec with a server. It interprets the locales, so that the
    results for searches and operations hold end to end, from the bytes on the wire to the value that
    the application gets. A second interpretation counts message IDs: every search keeps its ID for good.
  \<^item> \<open>Adapter_Chain\<close>: the two adapters in a chain, from end to end.
  \<^item> \<open>Op_Endings\<close>: operations that end without an answer, on the composition. After a timeout the
    connection is as usable as before; Abandon leaves the ID of the abandoned request in use; every
    operation after Unbind fails and none hangs.
  \<^item> \<open>Conn_Setup\<close>, \<open>Start_Tls\<close> (\<open>src/conn.rs\<close>): settings, Unix and TCP connections, TLS with both libraries,
    and StartTLS. A connection for which TLS was asked for is never returned without it, and StartTLS
    leaves no clear text behind; a server that closes the stream during StartTLS makes the call hang.
  \<^item> \<open>Sasl_Bind\<close> (\<open>src/ldap.rs\<close>): the GSSAPI and NTLM binds and the wrapping codec; the two exchanges
    after which a GSSAPI bind reports success, with what each installs, and that the bind does not depend on the security layers that the server offers.
  \<^item> \<open>Sync_Api\<close> (\<open>src/sync.rs\<close>): the blocking interface; a blocking search read to its end.
  \<^item> \<open>Text_Types\<close>: the places where the source has a \<open>String\<close> hold UTF-8, whatever the server sends.

  \<^bold>\<open>Bounds and termination.\<close> No definition has fuel. Recursions over bytes come with a measure; the
  search for a message ID and the wait for a value are partial functions into \<open>option\<close>, and the theorems
  state that they return. \<open>ber_ok\<close> limits encodings to lengths below \<open>2^64\<close> and tag numbers to 30, the
  numbers that the parser reads.

  \<^bold>\<open>Not modelled.\<close> Logging. The texts of errors of other crates. The re-exports and feature checks of
  \<open>lib.rs\<close>. \<open>lber/src/specific.rs\<close> and \<open>lber/src/traits\<close>, which no module declares. Adapters written by users
  of the library. The example programs.
\<close>

end
